(* ===== verification/GC_Prelude.thy ===== *)
theory GC_Prelude
  imports Main "HOL-Library.While_Combinator"
begin

text \<open>
  Shared vocabulary of the development: the types that stand for Go's strings, byte
  slices, errors and times, the \<open>for\<close> loop of Go as a partial function, the way a
  statement ends (\<open>outcome\<close>), and the lemmas on lists and maps that several components
  use. Nothing here models a file of the repository by itself.
\<close>

section \<open>Collections of rewrite rules\<close>

named_theorems panic_rules \<open>operations that do not panic\<close>

section \<open>Go types\<close>

text \<open>
  A Go string is a byte sequence, and a HOL \<open>char\<close> has exactly the 256 values of a
  byte, so both \<open>string\<close> and \<open>[]byte\<close> are lists of \<open>char\<close>; \<open>len\<close> counts bytes.
  A \<open>time.Time\<close> and a \<open>time.Duration\<close> are nanosecond counts.
\<close>

type_synonym bytes = "char list"
type_synonym time = int
type_synonym duration = int

definition len :: "'a list \<Rightarrow> int" where
  "len xs = int (length xs)"

lemma len_nonneg [simp]: "0 \<le> len xs"
  by (simp add: len_def)

lemma len_Nil [simp]: "len [] = 0"
  by (simp add: len_def)

lemma len_Cons [simp]: "len (x # xs) = 1 + len xs"
  by (simp add: len_def)

lemma len_pos_iff: "0 < len xs \<longleftrightarrow> xs \<noteq> []"
  by (simp add: len_def)

text \<open>Go's integer division truncates towards zero.\<close>

definition go_div :: "int \<Rightarrow> int \<Rightarrow> int" where
  "go_div a b = sgn a * sgn b * (\<bar>a\<bar> div \<bar>b\<bar>)"

lemma go_div_nonneg [simp]: "0 \<le> a \<Longrightarrow> 0 < b \<Longrightarrow> go_div a b = a div b"
  by (cases "a = 0") (simp_all add: go_div_def)

text \<open>
  Errors: \<open>errors.New\<close> and \<open>fmt.Errorf\<close> without \<open>%w\<close> make a leaf,
  \<open>fmt.Errorf("...%w...", err)\<close> wraps, and the sentinel \<open>ErrNotFound\<close> of
  \<open>byteview.go\<close> is a constructor. \<open>errors.Is\<close> follows the chain of wrapped errors.
\<close>

datatype error = ErrNotFound | Errorf string | Wrapf string error

fun errors_Is :: "error \<Rightarrow> error \<Rightarrow> bool" where
  "errors_Is (Wrapf s e) t = (Wrapf s e = t \<or> errors_Is e t)"
| "errors_Is e t = (e = t)"

text \<open>How a piece of code ends: it returns, it panics, or it never returns.\<close>

datatype 'a outcome = Done 'a | Panics string | Diverges

fun obind :: "'a outcome \<Rightarrow> ('a \<Rightarrow> 'b outcome) \<Rightarrow> 'b outcome" where
  "obind (Done x) f = f x"
| "obind (Panics s) f = Panics s"
| "obind Diverges f = Diverges"

definition of_option :: "'a option \<Rightarrow> 'a outcome" where
  "of_option r = (case r of None \<Rightarrow> Diverges | Some x \<Rightarrow> Done x)"

lemma of_option_simps [simp]: "of_option None = Diverges" "of_option (Some x) = Done x"
  by (simp_all add: of_option_def)

lemma obind_Done_iff: "obind m f = Done y \<longleftrightarrow> (\<exists>x. m = Done x \<and> f x = Done y)"
  by (cases m) auto

lemma obind_assoc: "obind (obind m f) g = obind m (\<lambda>x. obind (f x) g)"
  by (cases m) auto

fun no_panic :: "'a outcome \<Rightarrow> bool" where
  "no_panic (Panics s) = False"
| "no_panic m = True"

lemma no_panic_obind [intro]:
  "no_panic m \<Longrightarrow> (\<And>x. m = Done x \<Longrightarrow> no_panic (f x)) \<Longrightarrow> no_panic (obind m f)"
  by (cases m) auto

lemma no_panic_iff: "no_panic m \<longleftrightarrow> (\<forall>s. m \<noteq> Panics s)"
  by (cases m) auto

section \<open>The for loop\<close>

text \<open>
  \<open>for b(s) { s = c(s) }\<close>; the body may itself fail to return. \<open>None\<close> is a loop that
  runs forever.
\<close>

partial_function (option) go_for :: "('s \<Rightarrow> bool) \<Rightarrow> ('s \<Rightarrow> 's option) \<Rightarrow> 's \<Rightarrow> 's option" where
  "go_for b c s = (if b s then Option.bind (c s) (go_for b c) else Some s)"

declare go_for.simps [code]

lemma go_for_stop: "\<not> b s \<Longrightarrow> go_for b c s = Some s"
  by (simp add: go_for.simps [of b c s])

lemma go_for_step: "b s \<Longrightarrow> go_for b c s = Option.bind (c s) (go_for b c)"
  by (simp add: go_for.simps [of b c s])

text \<open>Total correctness: an invariant and a measure that the body decreases.\<close>

lemma go_for_total:
  assumes "P s"
    and step: "\<And>s. P s \<Longrightarrow> b s \<Longrightarrow> \<exists>t. c s = Some t \<and> P t \<and> (m t :: nat) < m s"
  shows "\<exists>t. go_for b c s = Some t \<and> P t \<and> \<not> b t"
  using \<open>P s\<close>
proof (induction "m s" arbitrary: s rule: less_induct)
  case less
  show ?case
  proof (cases "b s")
    case True
    from step [OF less.prems True] obtain t
      where t: "c s = Some t" "P t" "m t < m s" by blast
    from less.hyps [OF t(3) t(2)] obtain u
      where "go_for b c t = Some u" "P u" "\<not> b u" by blast
    with t(1) True show ?thesis by (simp add: go_for_step)
  next
    case False
    with less.prems show ?thesis by (simp add: go_for_stop)
  qed
qed

text \<open>Partial correctness, for loops whose termination is not at stake.\<close>

lemma go_for_inv:
  assumes ret: "go_for b c s = Some t" and "P s"
    and step: "\<And>s t. P s \<Longrightarrow> b s \<Longrightarrow> c s = Some t \<Longrightarrow> P t"
  shows "P t \<and> \<not> b t"
proof -
  let ?Q = "\<lambda>b' c' s t. b' = b \<longrightarrow> c' = c \<longrightarrow> P s \<longrightarrow> P t \<and> \<not> b t"
  have "?Q b c s t"
  proof (rule go_for.raw_induct [where P = ?Q, OF _ ret], intro impI)
    fix f b' c' s t
    assume IH: "\<And>b' c' s t. f b' c' s = Some t \<Longrightarrow> ?Q b' c' s t"
      and eq: "(if b' s then Option.bind (c' s) (f b' c') else Some s) = Some t"
      and "b' = b" "c' = c" "P s"
    show "P t \<and> \<not> b t"
    proof (cases "b s")
      case True
      with eq \<open>b' = b\<close> \<open>c' = c\<close> obtain u where "c s = Some u" "f b c u = Some t"
        by (cases "c s") auto
      with IH [of b c u t] step [OF \<open>P s\<close> True] show ?thesis by blast
    next
      case False
      with eq \<open>b' = b\<close> \<open>P s\<close> show ?thesis by simp
    qed
  qed
  with \<open>P s\<close> show ?thesis by blast
qed

text \<open>Divergence: an invariant under which the guard never fails.\<close>

lemma go_for_diverges:
  assumes "P s" and "\<And>s. P s \<Longrightarrow> b s"
    and "\<And>s t. P s \<Longrightarrow> c s = Some t \<Longrightarrow> P t"
  shows "go_for b c s = None"
proof (rule ccontr)
  assume "go_for b c s \<noteq> None"
  then obtain t where "go_for b c s = Some t" by blast
  from go_for_inv [where P = P, OF this assms(1)] assms(2,3) show False by blast
qed

lemma go_for_cong_step:
  assumes "c s = Some t" and "b s"
  shows "go_for b c s = go_for b c t"
  using assms by (simp add: go_for_step)

section \<open>Lists and maps\<close>

lemma sum_list_filter_remove:
  fixes f :: "'a \<Rightarrow> int"
  assumes "distinct (map g xs)" and "x \<in> set xs"
  shows "(\<Sum>y\<leftarrow>filter (\<lambda>y. g y \<noteq> g x) xs. f y) = (\<Sum>y\<leftarrow>xs. f y) - f x"
  using assms
proof (induction xs)
  case Nil
  then show ?case by simp
next
  case (Cons a xs)
  show ?case
  proof (cases "a = x")
    case True
    with Cons.prems have "\<forall>y\<in>set xs. g y \<noteq> g x" by (metis distinct.simps(2) image_eqI list.set_map list.simps(9))
    then have "filter (\<lambda>y. g y \<noteq> g x) xs = xs" by (simp add: filter_id_conv)
    with True show ?thesis by simp
  next
    case False
    with Cons.prems have x: "x \<in> set xs" by simp
    then have "g a \<noteq> g x" using Cons.prems(1) by auto
    with Cons.IH Cons.prems(1) x show ?thesis by simp
  qed
qed

lemma sum_list_nonneg_int: "(\<And>x. x \<in> set xs \<Longrightarrow> 0 \<le> (f x :: int)) \<Longrightarrow> 0 \<le> (\<Sum>x\<leftarrow>xs. f x)"
  by (induction xs) auto

lemma map_le_upd_None: "m \<subseteq>\<^sub>m m' \<Longrightarrow> m(k := None) \<subseteq>\<^sub>m m'"
  by (auto simp: map_le_def dom_def)

end
