(* ===== verification/URLPath.thy ===== *)
theory URLPath
  imports GC_Prelude
begin

text \<open>
  Keys in URLs and in etcd: \<open>url.PathEscape\<close>, \<open>url.PathUnescape\<close>, \<open>url.Parse\<close> and
  \<open>url.Values.Get\<close> of the standard library, the functions of \<open>strings\<close> the callers use, and
  \<open>etcdInvalKey\<close>, \<open>parseEtcdInvalKey\<close> and \<open>grpcTarget\<close> of \<open>geecache/http.go\<close>.
\<close>

section \<open>Standard library\<close>

text \<open>\<open>shouldEscape\<close> in the mode of a path segment.\<close>

definition is_alnum :: "char \<Rightarrow> bool" where
  "is_alnum c \<longleftrightarrow> (let n = of_char c :: nat in
     (48 \<le> n \<and> n \<le> 57) \<or> (65 \<le> n \<and> n \<le> 90) \<or> (97 \<le> n \<and> n \<le> 122))"

definition shouldEscape :: "char \<Rightarrow> bool" where
  "shouldEscape c \<longleftrightarrow> \<not> (is_alnum c \<or> c \<in> set ''-_.~$&+:=@'')"

definition upperhex :: "nat \<Rightarrow> char" where
  "upperhex d = char_of (if d < 10 then 48 + d else 55 + d)"

definition ishex :: "char \<Rightarrow> bool" where
  "ishex c \<longleftrightarrow> (let n = of_char c :: nat in
     (48 \<le> n \<and> n \<le> 57) \<or> (65 \<le> n \<and> n \<le> 70) \<or> (97 \<le> n \<and> n \<le> 102))"

definition unhex :: "char \<Rightarrow> nat" where
  "unhex c = (let n = of_char c :: nat in
     if 48 \<le> n \<and> n \<le> 57 then n - 48
     else if 97 \<le> n \<and> n \<le> 102 then n - 97 + 10
     else if 65 \<le> n \<and> n \<le> 70 then n - 65 + 10 else 0)"

definition escape_char :: "char \<Rightarrow> string" where
  "escape_char c =
     (if shouldEscape c
      then [CHR ''%'', upperhex (of_char c div 16), upperhex (of_char c mod 16)] else [c])"

definition PathEscape :: "string \<Rightarrow> string" where
  "PathEscape s = concat (map escape_char s)"

text \<open>\<open>None\<close> is \<open>EscapeError\<close>.\<close>

fun PathUnescape :: "string \<Rightarrow> string option" where
  "PathUnescape [] = Some []"
| "PathUnescape (c # s) =
     (if c = CHR ''%'' then
        (case s of
           a # b # s' \<Rightarrow>
             if ishex a \<and> ishex b
             then map_option (Cons (char_of (unhex a * 16 + unhex b))) (PathUnescape s') else None
         | _ \<Rightarrow> None)
      else map_option (Cons c) (PathUnescape s))"

definition HasPrefix :: "string \<Rightarrow> string \<Rightarrow> bool" where
  "HasPrefix s p \<longleftrightarrow> take (length p) s = p"

definition TrimPrefix :: "string \<Rightarrow> string \<Rightarrow> string" where
  "TrimPrefix s p = (if HasPrefix s p then drop (length p) s else s)"

text \<open>\<open>strings.Index\<close> and \<open>strings.Split\<close> for a separator of one byte.\<close>

fun IndexByte :: "string \<Rightarrow> char \<Rightarrow> nat option" where
  "IndexByte [] c = None"
| "IndexByte (x # xs) c = (if x = c then Some 0 else map_option Suc (IndexByte xs c))"

fun Split :: "string \<Rightarrow> char \<Rightarrow> string list" where
  "Split [] c = [[]]"
| "Split (x # xs) c =
     (if x = c then [] # Split xs c
      else (case Split xs c of [] \<Rightarrow> [[x]] | p # ps \<Rightarrow> (x # p) # ps))"

definition LastIndexByte :: "string \<Rightarrow> char \<Rightarrow> nat option" where
  "LastIndexByte s c = map_option (\<lambda>i. length s - 1 - i) (IndexByte (rev s) c)"

text \<open>\<open>strings.Cut\<close>: what is before the first separator, and what is after it if there is one.\<close>

definition Cut :: "string \<Rightarrow> char \<Rightarrow> string \<times> string" where
  "Cut s c = (takeWhile (\<lambda>x. x \<noteq> c) s, drop 1 (dropWhile (\<lambda>x. x \<noteq> c) s))"

definition space_bytes :: "nat list" where
  "space_bytes = [9, 10, 11, 12, 13, 32]"

text \<open>\<open>strings.TrimSpace\<close> on strings whose bytes above 127 are left alone.\<close>

definition TrimSpace :: "string \<Rightarrow> string" where
  "TrimSpace s =
     (let sp = (\<lambda>c. of_char c \<in> set space_bytes) in rev (dropWhile sp (rev (dropWhile sp s))))"

section \<open>Parsing a URL\<close>

text \<open>
  \<open>url.Parse\<close>: the fragment is cut off, then scheme, query, authority and path are taken apart.
  \<open>None\<close> is an error. The modes of \<open>unescape\<close> other than that of a path concern hosts and zones.
\<close>

record URL =
  u_Scheme :: string
  u_Opaque :: string
  u_Host :: string
  u_Path :: string
  u_RawQuery :: string

definition ctl_byte :: "char \<Rightarrow> bool" where
  "ctl_byte c \<longleftrightarrow> (of_char c :: nat) < 32 \<or> (of_char c :: nat) = 127"

definition is_letter :: "char \<Rightarrow> bool" where
  "is_letter c \<longleftrightarrow> (let n = of_char c :: nat in (65 \<le> n \<and> n \<le> 90) \<or> (97 \<le> n \<and> n \<le> 122))"

definition is_digit :: "char \<Rightarrow> bool" where
  "is_digit c \<longleftrightarrow> (let n = of_char c :: nat in 48 \<le> n \<and> n \<le> 57)"

definition to_lower :: "char \<Rightarrow> char" where
  "to_lower c =
     (if 65 \<le> (of_char c :: nat) \<and> (of_char c :: nat) \<le> 90 then char_of ((of_char c :: nat) + 32) else c)"

definition getScheme :: "string \<Rightarrow> (string \<times> string) option" where
  "getScheme s =
     (let pre = takeWhile (\<lambda>c. is_alnum c \<or> c \<in> set ''+-.'') s in
      case drop (length pre) s of
        [] \<Rightarrow> Some ([], s)
      | c # rest \<Rightarrow>
          if pre = [] then (if c = CHR '':'' then None else Some ([], s))
          else if is_letter (hd pre) \<and> c = CHR '':'' then Some (map to_lower pre, rest)
          else Some ([], s))"

definition shouldEscape_host :: "char \<Rightarrow> bool" where
  "shouldEscape_host c \<longleftrightarrow>
     \<not> (is_alnum c \<or> c \<in> set ''-_.~!$&()*+,;=:[]<>'' \<or> of_char c \<in> set [34, 39 :: nat])"

fun unescape_host :: "bool \<Rightarrow> string \<Rightarrow> string option" where
  "unescape_host zone [] = Some []"
| "unescape_host zone (c # s) =
     (if c = CHR ''%'' then
        (case s of
           a # b # s' \<Rightarrow>
             (let v = char_of (unhex a * 16 + unhex b) in
              if \<not> (ishex a \<and> ishex b) then None
              else if \<not> zone \<and> unhex a < 8 \<and> [a, b] \<noteq> ''25'' then None
              else if zone \<and> [a, b] \<noteq> ''25'' \<and> v \<noteq> CHR '' '' \<and> shouldEscape_host v then None
              else map_option (Cons v) (unescape_host zone s'))
         | _ \<Rightarrow> None)
      else if (of_char c :: nat) < 128 \<and> shouldEscape_host c then None
      else map_option (Cons c) (unescape_host zone s))"

definition validOptionalPort :: "string \<Rightarrow> bool" where
  "validOptionalPort port \<longleftrightarrow>
     (case port of [] \<Rightarrow> True | c # ds \<Rightarrow> c = CHR '':'' \<and> list_all is_digit ds)"

text \<open>\<open>strings.Index(s, "%25")\<close>.\<close>

fun zone_index :: "string \<Rightarrow> nat option" where
  "zone_index [] = None"
| "zone_index (c # s) = (if take 3 (c # s) = ''%25'' then Some 0 else map_option Suc (zone_index s))"

definition parseHost :: "string \<Rightarrow> string option" where
  "parseHost host =
     (case host of
        CHR ''['' # _ \<Rightarrow>
          (case LastIndexByte host (CHR '']'') of
             None \<Rightarrow> None
           | Some i \<Rightarrow>
               if \<not> validOptionalPort (drop (i + 1) host) then None
               else
                 (case zone_index (take i host) of
                    None \<Rightarrow> unescape_host False host
                  | Some z \<Rightarrow>
                      (case (unescape_host False (take z host), unescape_host True (drop z (take i host)),
                             unescape_host False (drop i host)) of
                         (Some a, Some b, Some c) \<Rightarrow> Some (a @ b @ c)
                       | _ \<Rightarrow> None)))
      | _ \<Rightarrow>
          (case LastIndexByte host (CHR '':'') of
             None \<Rightarrow> unescape_host False host
           | Some i \<Rightarrow> if validOptionalPort (drop i host) then unescape_host False host else None))"

definition validUserinfo :: "string \<Rightarrow> bool" where
  "validUserinfo s \<longleftrightarrow>
     list_all (\<lambda>c. is_alnum c \<or> c \<in> set ''-._:~!$&()*+,;=%@'' \<or> (of_char c :: nat) = 39) s"

definition parseAuthority :: "string \<Rightarrow> string option" where
  "parseAuthority authority =
     (case LastIndexByte authority (CHR ''@'') of
        None \<Rightarrow> parseHost authority
      | Some i \<Rightarrow>
          (case parseHost (drop (i + 1) authority) of
             None \<Rightarrow> None
           | Some h \<Rightarrow>
               if validUserinfo (take i authority) \<and> PathUnescape (take i authority) \<noteq> None
               then Some h else None))"

text \<open>The part after scheme and query.\<close>

definition parse_rest :: "string \<Rightarrow> string \<Rightarrow> string \<Rightarrow> URL option" where
  "parse_rest scheme rest query =
     (let url = (\<lambda>op host path. \<lparr>u_Scheme = scheme, u_Opaque = op, u_Host = host, u_Path = path,
                   u_RawQuery = query\<rparr>) in
      if \<not> HasPrefix rest ''/'' \<and> scheme \<noteq> [] then Some (url rest [] [])
      else if \<not> HasPrefix rest ''/'' \<and> CHR '':'' \<in> set (fst (Cut rest (CHR ''/''))) then None
      else if (scheme \<noteq> [] \<or> \<not> HasPrefix rest ''///'') \<and> HasPrefix rest ''//'' then
        (let authority = takeWhile (\<lambda>c. c \<noteq> CHR ''/'') (drop 2 rest);
             path = dropWhile (\<lambda>c. c \<noteq> CHR ''/'') (drop 2 rest) in
         case (parseAuthority authority, PathUnescape path) of
           (Some h, Some p) \<Rightarrow> Some (url [] h p)
         | _ \<Rightarrow> None)
      else map_option (url [] []) (PathUnescape rest))"

definition url_Parse :: "string \<Rightarrow> URL option" where
  "url_Parse raw =
     (let (u, frag) = Cut raw (CHR ''#'') in
      if list_ex ctl_byte u \<or> PathUnescape frag = None then None
      else if u = ''*'' then
        Some \<lparr>u_Scheme = [], u_Opaque = [], u_Host = [], u_Path = ''*'', u_RawQuery = []\<rparr>
      else
        (case getScheme u of
           None \<Rightarrow> None
         | Some (scheme, rest) \<Rightarrow>
             (case Cut rest (CHR ''?'') of (rest', query) \<Rightarrow> parse_rest scheme rest' query)))"

text \<open>
  \<open>url.Values.Get\<close> on a raw query: the first setting of the key, where settings that contain a
  semicolon or a bad escape are dropped and a plus sign stands for a space.
\<close>

definition QueryUnescape :: "string \<Rightarrow> string option" where
  "QueryUnescape s = PathUnescape (map (\<lambda>c. if c = CHR ''+'' then CHR '' '' else c) s)"

definition Query_Get :: "string \<Rightarrow> string \<Rightarrow> string" where
  "Query_Get query key =
     (let setting = (\<lambda>s. if s = [] \<or> CHR '';'' \<in> set s then None
             else (case (QueryUnescape (fst (Cut s (CHR ''=''))), QueryUnescape (snd (Cut s (CHR ''='')))) of
                     (Some k, Some v) \<Rightarrow> Some (k, v) | _ \<Rightarrow> None));
          values = List.map_filter setting (Split query (CHR ''&''))
      in case map_of values key of None \<Rightarrow> [] | Some v \<Rightarrow> v)"

section \<open>Invalidation keys in etcd\<close>

definition etcdInvalKey :: "string \<Rightarrow> string \<Rightarrow> string \<Rightarrow> string" where
  "etcdInvalKey prefix grp key = prefix @ PathEscape grp @ ''/'' @ PathEscape key"

definition parseEtcdInvalKey :: "string \<Rightarrow> string \<Rightarrow> (string \<times> string) option" where
  "parseEtcdInvalKey prefix full =
     (if \<not> HasPrefix full prefix then None
      else
        (let rel = TrimPrefix full prefix in
         case IndexByte rel (CHR ''/'') of
           None \<Rightarrow> None
         | Some idx \<Rightarrow>
             (case (PathUnescape (take idx rel), PathUnescape (drop (idx + 1) rel)) of
                (Some g, Some k) \<Rightarrow> Some (g, k)
              | _ \<Rightarrow> None)))"

section \<open>The gRPC target of a peer\<close>

definition grpcTarget :: "string \<Rightarrow> string" where
  "grpcTarget peer =
     (case url_Parse peer of
        Some u \<Rightarrow> if u_Host u \<noteq> [] then u_Host u else peer
      | None \<Rightarrow> peer)"

lemma grpcTarget_examples:
  "grpcTarget ''http://localhost:8001'' = ''localhost:8001''"
  "grpcTarget ''https://u:p@127.0.0.1:8443/x'' = ''127.0.0.1:8443''"
  "grpcTarget ''localhost:8001'' = ''localhost:8001''"
  "grpcTarget ''127.0.0.1:8001'' = ''127.0.0.1:8001''"
  "grpcTarget ''http://[fe80::1%25en0]:80'' = ''[fe80::1%en0]:80''"
  by code_simp+

section \<open>Lemmas\<close>

lemma hex_roundtrip:
  assumes "d < 16"
  shows "ishex (upperhex d)" "unhex (upperhex d) = d"
  using assms by (auto simp: ishex_def unhex_def upperhex_def Let_def)

lemma char_digits [simp]: "(of_char c :: nat) div 16 < 16" "(of_char c :: nat) mod 16 < 16"
  using nat_of_char_less_256 [of c] by (simp_all add: less_mult_imp_div_less)

lemma escape_char_unescape: "PathUnescape (escape_char c @ s) = map_option (Cons c) (PathUnescape s)"
proof (cases "shouldEscape c")
  case True
  have "char_of (of_char c div 16 * 16 + of_char c mod 16 :: nat) = c" by simp
  with True show ?thesis by (simp add: escape_char_def hex_roundtrip)
next
  case False
  then have "c \<noteq> CHR ''%''" by (auto simp: shouldEscape_def is_alnum_def Let_def)
  with False show ?thesis by (simp add: escape_char_def)
qed

lemma PathUnescape_PathEscape: "PathUnescape (PathEscape s) = Some s"
  by (induction s) (simp_all add: PathEscape_def escape_char_unescape)

text \<open>What an escaped string is made of: unreserved bytes, per cents and hex digits.\<close>

lemma upperhex_alnum: "d < 16 \<Longrightarrow> is_alnum (upperhex d)"
  by (auto simp: is_alnum_def upperhex_def Let_def)

lemma escape_char_set: "x \<in> set (escape_char c) \<Longrightarrow> x = CHR ''%'' \<or> \<not> shouldEscape x"
  by (auto simp: escape_char_def shouldEscape_def upperhex_alnum split: if_splits)

lemma PathEscape_set: "x \<in> set (PathEscape s) \<Longrightarrow> x = CHR ''%'' \<or> \<not> shouldEscape x"
  by (auto simp: PathEscape_def dest: escape_char_set)

lemma PathEscape_no_slash: "CHR ''/'' \<notin> set (PathEscape s)"
  using PathEscape_set [of "CHR ''/''" s] by (auto simp: shouldEscape_def is_alnum_def Let_def)

lemma IndexByte_append:
  "c \<notin> set s \<Longrightarrow> IndexByte (s @ c # t) c = Some (length s)"
  by (induction s) auto

lemma HasPrefix_append [simp]: "HasPrefix (p @ s) p"
  by (simp add: HasPrefix_def)

lemma TrimPrefix_append [simp]: "TrimPrefix (p @ s) p = s"
  by (simp add: TrimPrefix_def)

lemma Split_none: "c \<notin> set s \<Longrightarrow> Split s c = [s]"
  by (induction s) auto

lemma Split_append: "c \<notin> set s \<Longrightarrow> Split (s @ c # t) c = s # Split t c"
  by (induction s) auto

lemma Split_length: "length (Split s c) = Suc (length (filter (\<lambda>x. x = c) s))"
  by (induction s) (auto split: list.splits)

lemma Split_nonempty [simp]: "Split s c \<noteq> []"
  by (cases s) (auto split: list.splits)

lemma etcdInvalKey_parsed: "parseEtcdInvalKey prefix (etcdInvalKey prefix grp key) = Some (grp, key)"
  using IndexByte_append [OF PathEscape_no_slash, of grp "PathEscape key"]
  by (simp add: parseEtcdInvalKey_def etcdInvalKey_def Let_def PathUnescape_PathEscape)

section \<open>URLs of peers\<close>

text \<open>A peer address as the program uses it, \<open>http(s)://host:port\<close>, and what may follow it.\<close>

definition host_ok :: "string \<Rightarrow> bool" where
  "host_ok h \<longleftrightarrow> h \<noteq> [] \<and> list_all (\<lambda>c. is_alnum c \<or> c \<in> set ''-._~:'') h \<and>
     (case LastIndexByte h (CHR '':'') of None \<Rightarrow> True | Some i \<Rightarrow> validOptionalPort (drop i h))"

definition peer_url :: "string \<Rightarrow> string \<Rightarrow> bool" where
  "peer_url peer h \<longleftrightarrow> host_ok h \<and> (peer = ''http://'' @ h \<or> peer = ''https://'' @ h)"

definition target_ok :: "string \<Rightarrow> bool" where
  "target_ok t \<longleftrightarrow> HasPrefix t ''/'' \<and> list_all (\<lambda>c. \<not> ctl_byte c \<and> c \<noteq> CHR ''#'') t"

lemma alnum_chars: "is_alnum c \<Longrightarrow> \<not> ctl_byte c \<and> c \<notin> set ''/?#%@[''"
  by (auto simp: is_alnum_def ctl_byte_def Let_def)

lemma host_chars: "c \<in> set ''-._~:'' \<Longrightarrow> \<not> ctl_byte c \<and> c \<notin> set ''/?#%@[''"
  by (auto simp: ctl_byte_def)

lemma host_ok_chars:
  assumes "host_ok h" and "c \<in> set h"
  shows "is_alnum c \<or> c \<in> set ''-._~:''" "\<not> ctl_byte c" "c \<notin> set ''/?#%@[''" "\<not> shouldEscape_host c"
proof -
  show c: "is_alnum c \<or> c \<in> set ''-._~:''" using assms by (auto simp: host_ok_def list_all_iff)
  from c alnum_chars host_chars show "\<not> ctl_byte c" "c \<notin> set ''/?#%@[''" by blast+
  from c show "\<not> shouldEscape_host c" by (auto simp: shouldEscape_host_def)
qed

lemma unescape_host_id:
  "\<forall>c\<in>set h. c \<noteq> CHR ''%'' \<and> \<not> shouldEscape_host c \<Longrightarrow> unescape_host z h = Some h"
  by (induction h) auto

lemma parseHost_ok:
  assumes "host_ok h"
  shows "parseHost h = Some h"
proof -
  have u: "unescape_host False h = Some h"
    using host_ok_chars [OF assms] by (intro unescape_host_id) auto
  obtain c h' where h: "h = c # h'" using assms by (cases h) (auto simp: host_ok_def)
  then have "c \<noteq> CHR ''[''" using host_ok_chars(3) [OF assms, of c] by auto
  then have "parseHost h = (case LastIndexByte h (CHR '':'') of
      None \<Rightarrow> unescape_host False h
    | Some i \<Rightarrow> if validOptionalPort (drop i h) then unescape_host False h else None)"
    unfolding parseHost_def h by (auto split: char.splits bool.splits)
  with u assms show ?thesis by (auto simp: host_ok_def split: option.splits)
qed

lemma IndexByte_none: "c \<notin> set s \<Longrightarrow> IndexByte s c = None"
  by (induction s) auto

lemma parseAuthority_ok:
  assumes "host_ok h"
  shows "parseAuthority h = Some h"
proof -
  have "CHR ''@'' \<notin> set h" using host_ok_chars(3) [OF assms] by fastforce
  then have "LastIndexByte h (CHR ''@'') = None" by (simp add: LastIndexByte_def IndexByte_none)
  with parseHost_ok [OF assms] show ?thesis by (simp add: parseAuthority_def)
qed

lemma Cut_none: "c \<notin> set s \<Longrightarrow> Cut s c = (s, [])"
  by (induction s) (auto simp: Cut_def)

lemma Cut_append: "c \<notin> set s \<Longrightarrow> Cut (s @ t) c = (s @ fst (Cut t c), snd (Cut t c))"
  by (auto simp: Cut_def takeWhile_append dropWhile_append)

lemma parse_rest_peer:
  assumes "host_ok h" and "HasPrefix p ''/''" and "scheme \<noteq> []"
  shows "parse_rest scheme (''//'' @ h @ p) q =
    map_option (\<lambda>p'. \<lparr>u_Scheme = scheme, u_Opaque = [], u_Host = h, u_Path = p', u_RawQuery = q\<rparr>)
      (PathUnescape p)"
proof -
  have no: "\<forall>c\<in>set h. c \<noteq> CHR ''/''" using host_ok_chars(3) [OF assms(1)] by auto
  obtain p' where p: "p = CHR ''/'' # p'"
    using assms(2) by (cases p) (auto simp: HasPrefix_def)
  have t: "takeWhile (\<lambda>c. c \<noteq> CHR ''/'') (h @ p) = h" "dropWhile (\<lambda>c. c \<noteq> CHR ''/'') (h @ p) = p"
    using no p by (auto simp: takeWhile_append dropWhile_append)
  have "HasPrefix (''//'' @ h @ p) ''/''" "HasPrefix (''//'' @ h @ p) ''//''"
    by (simp_all add: HasPrefix_def)
  then show ?thesis
    using assms(3) parseAuthority_ok [OF assms(1)] t
    by (auto simp: parse_rest_def Let_def split: option.splits)
qed

lemma getScheme_http:
  "getScheme (''http://'' @ s) = Some (''http'', ''//'' @ s)"
  "getScheme (''https://'' @ s) = Some (''https'', ''//'' @ s)"
  by (simp_all add: getScheme_def is_alnum_def is_letter_def to_lower_def Let_def)

lemma url_Parse_peer:
  assumes "peer_url peer h" and "target_ok t"
  shows "\<exists>scheme. url_Parse (peer @ t) =
    map_option (\<lambda>p. \<lparr>u_Scheme = scheme, u_Opaque = [], u_Host = h, u_Path = p,
        u_RawQuery = snd (Cut t (CHR ''?''))\<rparr>) (PathUnescape (fst (Cut t (CHR ''?''))))"
proof -
  have "host_ok h" "peer = ''http'' @ ''://'' @ h \<or> peer = ''https'' @ ''://'' @ h"
    using assms(1) by (simp_all add: peer_url_def)
  then obtain sc where sc: "sc = ''http'' \<or> sc = ''https''" "peer = sc @ ''://'' @ h" "host_ok h"
    by blast
  let ?u = "peer @ t"
  have h: "\<not> ctl_byte c" "c \<noteq> CHR ''#''" "c \<noteq> CHR ''?''" if "c \<in> set h" for c
    using host_ok_chars(2,3) [OF sc(3) that] by auto
  have t: "\<not> ctl_byte c" "c \<noteq> CHR ''#''" if "c \<in> set t" for c
    using assms(2) that by (simp_all add: target_ok_def list_all_iff)
  have "set sc \<subseteq> set ''https''" using sc(1) by (elim disjE) simp_all
  then have s: "\<not> ctl_byte c" "c \<noteq> CHR ''#''" if "c \<in> set (sc @ ''://'')" for c
    using that by (auto simp: ctl_byte_def)
  have u: "c \<in> set (sc @ ''://'') \<or> c \<in> set h \<or> c \<in> set t" if "c \<in> set ?u" for c
    using that unfolding sc(2) set_append by blast
  have "CHR ''#'' \<notin> set ?u" using u s(2) h(2) t(2) by blast
  then have cut: "Cut ?u (CHR ''#'') = (?u, [])" by (rule Cut_none)
  have "\<not> list_ex ctl_byte ?u"
    using u s(1) h(1) t(1) unfolding list_ex_iff by blast
  moreover have "?u \<noteq> ''*''" using sc(1) unfolding sc(2) by (elim disjE) simp_all
  moreover have "getScheme ?u = Some (sc, ''//'' @ h @ t)"
    using sc(1) getScheme_http [of "h @ t"] unfolding sc(2) by (elim disjE) simp_all
  moreover have "Cut (''//'' @ h @ t) (CHR ''?'') = (''//'' @ h @ fst (Cut t (CHR ''?'')), snd (Cut t (CHR ''?'')))"
    using Cut_append [of "CHR ''?''" "''//'' @ h" t] h(3) by auto
  moreover have "HasPrefix (fst (Cut t (CHR ''?''))) ''/''"
    using assms(2) by (cases t) (auto simp: target_ok_def HasPrefix_def Cut_def)
  moreover have "sc \<noteq> []" using sc(1) by (elim disjE) simp_all
  ultimately show ?thesis
    using parse_rest_peer [OF sc(3), of "fst (Cut t (CHR ''?''))" sc "snd (Cut t (CHR ''?''))"]
    by (intro exI [of _ sc]) (simp add: url_Parse_def cut)
qed

section \<open>Properties\<close>

text \<open>
  An invalidation published under any prefix comes back as what was published: for all
  groups and keys, whatever bytes they consist of, parsing the etcd key yields the group and the
  key, and hence different pairs are published under different keys.
\<close>

theorem etcd_inval_roundtrip:
  "parseEtcdInvalKey prefix (etcdInvalKey prefix grp key) = Some (grp, key) \<and>
   (etcdInvalKey prefix grp key = etcdInvalKey prefix grp' key' \<longleftrightarrow> grp = grp' \<and> key = key')"
proof -
  note rt = etcdInvalKey_parsed [of prefix]
  have "grp = grp' \<and> key = key'" if "etcdInvalKey prefix grp key = etcdInvalKey prefix grp' key'"
  proof -
    from rt [of grp key] have "parseEtcdInvalKey prefix (etcdInvalKey prefix grp' key') = Some (grp, key)"
      by (simp only: that)
    with rt [of grp' key'] show ?thesis by (simp only: option.inject prod.inject)
  qed
  with rt show ?thesis by blast
qed

end
