(* ===== verification/PeerAuth.thy ===== *)
theory PeerAuth
  imports URLPath "HOL-Library.Word"
begin

unbundle bit_operations_syntax

text \<open>
  \<open>geecache/peerauth.go\<close> and \<open>geecache/peertls.go\<close>: the shared token between members and the
  construction of their TLS configurations. Metadata of a call is the list of its key/value pairs in
  order. Certificates and pools are opaque byte strings; the file system and the parser of
  certificates are the parameter \<open>pki\<close>.
\<close>

section \<open>Status codes\<close>

datatype code = Code_NotFound | Code_Internal | Code_InvalidArgument | Code_Unauthenticated
  | Code_Unimplemented

text \<open>\<open>status.Error(code, msg)\<close>; the message is the text of an error value or a literal.\<close>

datatype status = Status code error

section \<open>The token\<close>

text \<open>\<open>subtle.ConstantTimeCompare\<close>: all bytes are looked at, whatever the first ones are.\<close>

definition ConstantTimeByteEq :: "8 word \<Rightarrow> 8 word \<Rightarrow> int" where
  "ConstantTimeByteEq x y = (if x XOR y = 0 then 1 else 0)"

definition byte_word :: "char \<Rightarrow> 8 word" where
  "byte_word c = word_of_nat (of_char c)"

fun xor_all :: "bytes \<Rightarrow> bytes \<Rightarrow> 8 word \<Rightarrow> 8 word" where
  "xor_all (x # xs) (y # ys) v = xor_all xs ys (v OR (byte_word x XOR byte_word y))"
| "xor_all _ _ v = v"

definition ConstantTimeCompare :: "bytes \<Rightarrow> bytes \<Rightarrow> int" where
  "ConstantTimeCompare x y =
     (if length x \<noteq> length y then 0 else ConstantTimeByteEq (xor_all x y 0) 0)"

definition PeerAuthHTTPHeader :: string where
  "PeerAuthHTTPHeader = ''X-Geecache-Peer-Token''"

definition peerAuthMetadataKey :: string where
  "peerAuthMetadataKey = ''x-geecache-peer-token''"

type_synonym MD = "(string \<times> string) list"

definition MD_Get :: "MD \<Rightarrow> string \<Rightarrow> string list" where
  "MD_Get md k = map snd (filter (\<lambda>kv. map to_lower (fst kv) = map to_lower k) md)"

text \<open>The context is its outgoing metadata.\<close>

definition peerAppendOutgoingContext :: "MD \<Rightarrow> string \<Rightarrow> MD" where
  "peerAppendOutgoingContext ctx token =
     (if token = [] then ctx else ctx @ [(peerAuthMetadataKey, token)])"

text \<open>The interceptor around a handler; \<open>None\<close> is a context without incoming metadata.\<close>

definition unaryPeerAuthInterceptor ::
  "string \<Rightarrow> MD option \<Rightarrow> 'q \<Rightarrow> ('q \<Rightarrow> 's \<Rightarrow> ((status + 'r) \<times> 's) outcome) \<Rightarrow> 's \<Rightarrow>
   ((status + 'r) \<times> 's) outcome" where
  "unaryPeerAuthInterceptor expected incoming req handler s =
     (if expected = [] then handler req s
      else
        (case incoming of
           None \<Rightarrow>
             Done (Inl (Status Code_Unauthenticated (Errorf ''geecache: peer auth: missing metadata'')), s)
         | Some md \<Rightarrow>
             (let vals = MD_Get md peerAuthMetadataKey in
              if length vals \<noteq> 1 \<or> ConstantTimeCompare (hd vals) expected \<noteq> 1
              then Done (Inl (Status Code_Unauthenticated (Errorf ''geecache: peer auth: invalid token'')), s)
              else handler req s)))"

definition peerHTTPAuthOK :: "string \<Rightarrow> string \<Rightarrow> bool" where
  "peerHTTPAuthOK expected got \<longleftrightarrow> expected = [] \<or> ConstantTimeCompare got expected = 1"

section \<open>TLS configurations\<close>

datatype ClientAuthType = NoClientCert | RequireAndVerifyClientCert

record tls_Config =
  tls_Certificates :: "bytes list"
  tls_ClientAuth :: ClientAuthType
  tls_ClientCAs :: "bytes list option"
  tls_RootCAs :: "bytes list option"
  tls_MinVersion :: int
  tls_NextProtos :: "string list"

definition VersionTLS12 :: int where
  "VersionTLS12 = 771"

text \<open>
  \<open>tls.LoadX509KeyPair\<close>, \<open>os.ReadFile\<close> and the certificates that
  \<open>CertPool.AppendCertsFromPEM\<close> finds in a file, which answers whether there are any.
\<close>

record pki =
  k_LoadX509KeyPair :: "string \<Rightarrow> string \<Rightarrow> error + bytes"
  k_ReadFile :: "string \<Rightarrow> error + bytes"
  k_certs :: "bytes \<Rightarrow> bytes list"

definition LoadPeerServerTLS :: "pki \<Rightarrow> string \<Rightarrow> string \<Rightarrow> string \<Rightarrow> error + tls_Config" where
  "LoadPeerServerTLS K certFile keyFile clientCAFile =
     (if certFile = [] \<or> keyFile = [] \<or> clientCAFile = []
      then Inl (Errorf ''geecache: peer server TLS: cert, key, and client CA paths are required'')
      else
        (case k_LoadX509KeyPair K certFile keyFile of
           Inl err \<Rightarrow> Inl (Wrapf ''geecache: load server key pair'' err)
         | Inr cert \<Rightarrow>
             (case k_ReadFile K clientCAFile of
                Inl err \<Rightarrow> Inl (Wrapf ''geecache: read client CA'' err)
              | Inr caPEM \<Rightarrow>
                  if k_certs K caPEM = [] then Inl (Errorf ''geecache: client CA PEM has no certificates'')
                  else Inr \<lparr>tls_Certificates = [cert], tls_ClientAuth = RequireAndVerifyClientCert,
                         tls_ClientCAs = Some (k_certs K caPEM), tls_RootCAs = None,
                         tls_MinVersion = VersionTLS12, tls_NextProtos = [''h2'', ''http/1.1'']\<rparr>)))"

definition LoadPeerClientTLS :: "pki \<Rightarrow> string \<Rightarrow> string \<Rightarrow> string \<Rightarrow> error + tls_Config" where
  "LoadPeerClientTLS K serverCAFile clientCertFile clientKeyFile =
     (if serverCAFile = [] \<or> clientCertFile = [] \<or> clientKeyFile = []
      then Inl (Errorf ''geecache: peer client TLS: server CA, client cert, and client key paths are required'')
      else
        (case k_ReadFile K serverCAFile of
           Inl err \<Rightarrow> Inl (Wrapf ''geecache: read server CA'' err)
         | Inr caPEM \<Rightarrow>
             if k_certs K caPEM = [] then Inl (Errorf ''geecache: server CA PEM has no certificates'')
             else
               (case k_LoadX509KeyPair K clientCertFile clientKeyFile of
                  Inl err \<Rightarrow> Inl (Wrapf ''geecache: load client key pair'' err)
                | Inr cert \<Rightarrow>
                    Inr \<lparr>tls_Certificates = [cert], tls_ClientAuth = NoClientCert,
                       tls_ClientCAs = None, tls_RootCAs = Some (k_certs K caPEM),
                       tls_MinVersion = VersionTLS12, tls_NextProtos = []\<rparr>)))"

section \<open>Lemmas\<close>

lemma byte_word_inj: "byte_word x = byte_word y \<longleftrightarrow> x = y"
proof
  assume "byte_word x = byte_word y"
  then have "unat (word_of_nat (of_char x) :: 8 word) = unat (word_of_nat (of_char y) :: 8 word)"
    by (simp add: byte_word_def)
  then show "x = y"
    using nat_of_char_less_256 [of x] nat_of_char_less_256 [of y] by (simp add: unat_of_nat)
qed simp

lemma xor_zero_iff: "(a :: 8 word) XOR b = 0 \<longleftrightarrow> a = b"
proof
  assume "a XOR b = 0"
  then have "(a XOR b) XOR b = b" by simp
  then show "a = b" by (simp add: xor.assoc)
qed simp

lemma xor_all_zero:
  "length xs = length ys \<Longrightarrow> xor_all xs ys v = 0 \<longleftrightarrow> v = 0 \<and> xs = ys"
  by (induction xs ys v rule: xor_all.induct) (auto simp: or_eq_0_iff byte_word_inj xor_zero_iff)

lemma ConstantTimeCompare_eq: "ConstantTimeCompare x y = 1 \<longleftrightarrow> x = y"
  by (auto simp: ConstantTimeCompare_def ConstantTimeByteEq_def xor_all_zero)

lemma peerHTTPAuthOK_iff: "peerHTTPAuthOK expected got \<longleftrightarrow> expected = [] \<or> got = expected"
  by (simp add: peerHTTPAuthOK_def ConstantTimeCompare_eq)

lemma one_token:
  "length vs \<noteq> 1 \<or> ConstantTimeCompare (hd vs) tok \<noteq> 1 \<longleftrightarrow> vs \<noteq> [tok]"
  by (cases vs) (auto simp: ConstantTimeCompare_eq)

lemma MD_Get_outgoing:
  "MD_Get (peerAppendOutgoingContext [] token) peerAuthMetadataKey = (if token = [] then [] else [token])"
  by (simp add: MD_Get_def peerAppendOutgoingContext_def)

section \<open>Properties\<close>

text \<open>
  The token decides who is served. A server without a token serves everyone. A server with
  one runs the handler of a call exactly when the call carries the token once; otherwise the call
  fails with \<open>Unauthenticated\<close> and the state is untouched. Hence a client is served exactly when
  it was configured with the same token, and over HTTP the same holds of the header.
\<close>

theorem peer_token_admits:
  "(expected = [] \<longrightarrow> unaryPeerAuthInterceptor expected md req handler s = handler req s) \<and>
   (expected \<noteq> [] \<longrightarrow>
      unaryPeerAuthInterceptor expected md req handler s =
        (if \<exists>m. md = Some m \<and> MD_Get m peerAuthMetadataKey = [expected] then handler req s
         else Done (Inl (Status Code_Unauthenticated
                (Errorf (if md = None then ''geecache: peer auth: missing metadata''
                         else ''geecache: peer auth: invalid token''))), s)) \<and>
      ((\<exists>m. Some (peerAppendOutgoingContext [] token) = Some m \<and>
          MD_Get m peerAuthMetadataKey = [expected]) \<longleftrightarrow> token = expected) \<and>
      (peerHTTPAuthOK expected token \<longleftrightarrow> token = expected))"
proof -
  have "unaryPeerAuthInterceptor expected md req handler s =
        (if \<exists>m. md = Some m \<and> MD_Get m peerAuthMetadataKey = [expected] then handler req s
         else Done (Inl (Status Code_Unauthenticated
                (Errorf (if md = None then ''geecache: peer auth: missing metadata''
                         else ''geecache: peer auth: invalid token''))), s))" if "expected \<noteq> []"
    using that unfolding unaryPeerAuthInterceptor_def Let_def one_token by (simp split: option.split)
  then show ?thesis
    by (auto simp: unaryPeerAuthInterceptor_def MD_Get_outgoing peerHTTPAuthOK_iff)
qed

theorem peer_token_admits_witness:
  "unaryPeerAuthInterceptor ''k'' (Some (peerAppendOutgoingContext [] ''k'')) ()
     (\<lambda>_ s. Done (Inr s, Suc s)) (7::nat) = Done (Inr 7, 8) \<and>
   unaryPeerAuthInterceptor ''k'' (Some (peerAppendOutgoingContext [] ''x'')) ()
     (\<lambda>_ s. Done (Inr s, Suc s)) (7::nat)
     = Done (Inl (Status Code_Unauthenticated (Errorf ''geecache: peer auth: invalid token'')), 7)"
  using peer_token_admits [of "''k''" "Some (peerAppendOutgoingContext [] ''k'')" "()"
      "\<lambda>_ s. Done (Inr s, Suc s)" "7::nat" "''k''"]
    peer_token_admits [of "''k''" "Some (peerAppendOutgoingContext [] ''x'')" "()"
      "\<lambda>_ s. Done (Inr s, Suc s)" "7::nat" "''x''"]
  by simp

text \<open>
  A TLS configuration is made exactly when all three paths are given, the key pair loads and
  the CA file can be read and holds a certificate. The one for servers then demands and verifies a
  client certificate against these CAs, the one for clients verifies servers against them and
  presents its own certificate, and both refuse versions below TLS 1.2.
\<close>

theorem peer_tls_config:
  "(LoadPeerServerTLS K cert key ca = Inr cfg \<longleftrightarrow>
      cert \<noteq> [] \<and> key \<noteq> [] \<and> ca \<noteq> [] \<and>
      (\<exists>c pem. k_LoadX509KeyPair K cert key = Inr c \<and> k_ReadFile K ca = Inr pem \<and> k_certs K pem \<noteq> [] \<and>
         tls_Certificates cfg = [c] \<and> tls_ClientCAs cfg = Some (k_certs K pem)) \<and>
      tls_ClientAuth cfg = RequireAndVerifyClientCert \<and> tls_RootCAs cfg = None \<and>
      tls_MinVersion cfg = VersionTLS12 \<and> tls_NextProtos cfg = [''h2'', ''http/1.1'']) \<and>
   (LoadPeerClientTLS K ca cert key = Inr cfg \<longleftrightarrow>
      cert \<noteq> [] \<and> key \<noteq> [] \<and> ca \<noteq> [] \<and>
      (\<exists>c pem. k_LoadX509KeyPair K cert key = Inr c \<and> k_ReadFile K ca = Inr pem \<and> k_certs K pem \<noteq> [] \<and>
         tls_Certificates cfg = [c] \<and> tls_RootCAs cfg = Some (k_certs K pem)) \<and>
      tls_ClientAuth cfg = NoClientCert \<and> tls_ClientCAs cfg = None \<and>
      tls_MinVersion cfg = VersionTLS12 \<and> tls_NextProtos cfg = [])"
proof -
  have "LoadPeerServerTLS K cert key ca = Inr cfg \<longleftrightarrow>
      cert \<noteq> [] \<and> key \<noteq> [] \<and> ca \<noteq> [] \<and>
      (\<exists>c pem. k_LoadX509KeyPair K cert key = Inr c \<and> k_ReadFile K ca = Inr pem \<and> k_certs K pem \<noteq> [] \<and>
         tls_Certificates cfg = [c] \<and> tls_ClientCAs cfg = Some (k_certs K pem)) \<and>
      tls_ClientAuth cfg = RequireAndVerifyClientCert \<and> tls_RootCAs cfg = None \<and>
      tls_MinVersion cfg = VersionTLS12 \<and> tls_NextProtos cfg = [''h2'', ''http/1.1'']"
    by (cases cfg) (auto simp: LoadPeerServerTLS_def split: sum.splits)
  moreover have "LoadPeerClientTLS K ca cert key = Inr cfg \<longleftrightarrow>
      cert \<noteq> [] \<and> key \<noteq> [] \<and> ca \<noteq> [] \<and>
      (\<exists>c pem. k_LoadX509KeyPair K cert key = Inr c \<and> k_ReadFile K ca = Inr pem \<and> k_certs K pem \<noteq> [] \<and>
         tls_Certificates cfg = [c] \<and> tls_RootCAs cfg = Some (k_certs K pem)) \<and>
      tls_ClientAuth cfg = NoClientCert \<and> tls_ClientCAs cfg = None \<and>
      tls_MinVersion cfg = VersionTLS12 \<and> tls_NextProtos cfg = []"
    by (cases cfg) (auto simp: LoadPeerClientTLS_def split: sum.splits)
  ultimately show ?thesis by blast
qed

end
