(* ===== verification/PeerClients.thy ===== *)
theory PeerClients
  imports PeerAuth
begin

text \<open>
  The clients of one member for the others: \<open>httpGetter\<close> of \<open>geecache/http.go\<close> and \<open>GRPCClient\<close> of
  \<open>geecache/grpccli.go\<close>. What carries their requests (\<open>http.Client.Do\<close>, \<open>grpc.NewClient\<close>,
  connections and the generated stubs) is the parameter \<open>net\<close>, functions on the state of the world
  \<open>'w\<close>. The text of an error is its fixed part.
\<close>

section \<open>The network\<close>

record http_request =
  q_method :: string
  q_url :: string
  q_token :: "string option"
  q_body :: bytes

text \<open>Reading the body gives the bytes \<open>a_body\<close>, and then its end or the error \<open>a_bodyErr\<close>.\<close>

record http_response =
  a_StatusCode :: int
  a_Status :: string
  a_body :: bytes
  a_bodyErr :: "error option"

record 'w net =
  n_Do :: "duration \<Rightarrow> tls_Config option \<Rightarrow> http_request \<Rightarrow> 'w \<Rightarrow> (error + http_response) \<times> 'w"
  n_NewClient :: "string \<Rightarrow> tls_Config option \<Rightarrow> error option"
  n_Close :: "string \<Rightarrow> 'w \<Rightarrow> error option \<times> 'w"
  n_stubGet :: "string \<Rightarrow> MD \<Rightarrow> string \<Rightarrow> string \<Rightarrow> 'w \<Rightarrow> (error + bytes) \<times> 'w"
  n_stubSet :: "string \<Rightarrow> MD \<Rightarrow> string \<Rightarrow> string \<Rightarrow> bytes \<Rightarrow> 'w \<Rightarrow> error option \<times> 'w"
  n_stubInvalidate :: "string \<Rightarrow> MD \<Rightarrow> string \<Rightarrow> string \<Rightarrow> 'w \<Rightarrow> error option \<times> 'w"
  n_stubPurge :: "string \<Rightarrow> MD \<Rightarrow> string \<Rightarrow> string \<Rightarrow> 'w \<Rightarrow> error option \<times> 'w"

definition StatusOK :: int where "StatusOK = 200"
definition StatusNoContent :: int where "StatusNoContent = 204"
definition StatusBadRequest :: int where "StatusBadRequest = 400"
definition StatusUnauthorized :: int where "StatusUnauthorized = 401"
definition StatusNotFound :: int where "StatusNotFound = 404"
definition StatusMethodNotAllowed :: int where "StatusMethodNotAllowed = 405"
definition StatusInternalServerError :: int where "StatusInternalServerError = 500"

section \<open>HTTP\<close>

definition defaultHTTPTimeout :: duration where
  "defaultHTTPTimeout = 3 * 10 ^ 9"

record httpGetter =
  h_peer :: string
  h_basePath :: string
  h_timeout :: duration
  h_tls :: "tls_Config option"
  h_peerToken :: string

definition NewHTTPGetter :: "string \<Rightarrow> string \<Rightarrow> string \<Rightarrow> tls_Config option \<Rightarrow> httpGetter" where
  "NewHTTPGetter peer basePath peerToken peerTLS =
     \<lparr>h_peer = peer, h_basePath = basePath, h_timeout = defaultHTTPTimeout, h_tls = peerTLS,
      h_peerToken = peerToken\<rparr>"

text \<open>\<open>http.NewRequest\<close> fails when the URL does not parse.\<close>

definition http_NewRequest :: "string \<Rightarrow> string \<Rightarrow> bytes \<Rightarrow> error + http_request" where
  "http_NewRequest method u body =
     (case url_Parse u of
        None \<Rightarrow> Inl (Errorf ''parse'')
      | Some _ \<Rightarrow> Inr \<lparr>q_method = method, q_url = u, q_token = None, q_body = body\<rparr>)"

definition setPeerAuth :: "httpGetter \<Rightarrow> http_request \<Rightarrow> http_request" where
  "setPeerAuth h req = (if h_peerToken h \<noteq> [] then req\<lparr>q_token := Some (h_peerToken h)\<rparr> else req)"

text \<open>Sending a request and reading the answer, for \<open>Get\<close> and for the writing methods.\<close>

definition do_get :: "'w net \<Rightarrow> httpGetter \<Rightarrow> http_request \<Rightarrow> 'w \<Rightarrow> (error + bytes) \<times> 'w" where
  "do_get N h req w =
     (case n_Do N (h_timeout h) (h_tls h) req w of
        (Inl err, w1) \<Rightarrow> (Inl err, w1)
      | (Inr res, w1) \<Rightarrow>
          if a_StatusCode res \<noteq> StatusOK then (Inl (Errorf (''server returned: '' @ a_Status res)), w1)
          else
            (case a_bodyErr res of
               Some err \<Rightarrow> (Inl (Errorf ''reading response body''), w1)
             | None \<Rightarrow> (Inr (a_body res), w1)))"

text \<open>Only the error of \<open>Set\<close> quotes the body of the answer.\<close>

definition do_write :: "'w net \<Rightarrow> httpGetter \<Rightarrow> http_request \<Rightarrow> 'w \<Rightarrow> error option \<times> 'w" where
  "do_write N h req w =
     (case n_Do N (h_timeout h) (h_tls h) req w of
        (Inl err, w1) \<Rightarrow> (Some err, w1)
      | (Inr res, w1) \<Rightarrow>
          (if a_StatusCode res \<noteq> StatusNoContent \<and> a_StatusCode res \<noteq> StatusOK
           then Some (Errorf
             (if q_method req = ''PUT'' then ''server returned '' @ a_Status res @ '': '' @ a_body res
              else ''server returned: '' @ a_Status res))
           else None, w1))"

definition httpGetter_Get ::
  "'w net \<Rightarrow> httpGetter \<Rightarrow> string \<Rightarrow> string \<Rightarrow> 'w \<Rightarrow> (error + bytes) \<times> 'w" where
  "httpGetter_Get N h grp key w =
     (case http_NewRequest ''GET'' (h_peer h @ h_basePath h @ ''/'' @ grp @ ''/'' @ key) [] of
        Inl err \<Rightarrow> (Inl err, w)
      | Inr req \<Rightarrow> do_get N h (setPeerAuth h req) w)"

text \<open>\<open>Set\<close>, \<open>Invalidate\<close> and \<open>Purge\<close> differ in the method, the URL and the body.\<close>

definition escaped_path :: "httpGetter \<Rightarrow> string \<Rightarrow> string \<Rightarrow> string" where
  "escaped_path h grp key = h_basePath h @ ''/'' @ PathEscape grp @ ''/'' @ PathEscape key"

definition http_write ::
  "'w net \<Rightarrow> httpGetter \<Rightarrow> string \<Rightarrow> string \<Rightarrow> bytes \<Rightarrow> 'w \<Rightarrow> error option \<times> 'w" where
  "http_write N h method u body w =
     (case http_NewRequest method u body of
        Inl err \<Rightarrow> (Some err, w)
      | Inr req \<Rightarrow> do_write N h (setPeerAuth h req) w)"

definition httpGetter_Set ::
  "'w net \<Rightarrow> httpGetter \<Rightarrow> string \<Rightarrow> string \<Rightarrow> bytes \<Rightarrow> 'w \<Rightarrow> error option \<times> 'w" where
  "httpGetter_Set N h grp key val w = http_write N h ''PUT'' (h_peer h @ escaped_path h grp key) val w"

definition httpGetter_Invalidate ::
  "'w net \<Rightarrow> httpGetter \<Rightarrow> string \<Rightarrow> string \<Rightarrow> 'w \<Rightarrow> error option \<times> 'w" where
  "httpGetter_Invalidate N h grp key w =
     http_write N h ''DELETE'' (h_peer h @ escaped_path h grp key @ ''?op=invalidate'') [] w"

definition httpGetter_Purge ::
  "'w net \<Rightarrow> httpGetter \<Rightarrow> string \<Rightarrow> string \<Rightarrow> 'w \<Rightarrow> error option \<times> 'w" where
  "httpGetter_Purge N h grp key w = http_write N h ''DELETE'' (h_peer h @ escaped_path h grp key) [] w"

definition httpGetter_Peer :: "httpGetter \<Rightarrow> string" where
  "httpGetter_Peer h = h_peer h"

definition httpGetter_Proto :: "httpGetter option \<Rightarrow> string" where
  "httpGetter_Proto h = ''http''"

section \<open>gRPC\<close>

record GRPCClient =
  c_peer :: string
  c_target :: string
  c_conn :: bool
  c_creds :: "tls_Config option"
  c_peerToken :: string

definition NewGRPCClient ::
  "'w net \<Rightarrow> string \<Rightarrow> string \<Rightarrow> string \<Rightarrow> tls_Config option \<Rightarrow> error + GRPCClient" where
  "NewGRPCClient N peer target peerToken transportCreds =
     (case n_NewClient N target transportCreds of
        Some err \<Rightarrow> Inl (Wrapf (''failed to dial: '' @ target) err)
      | None \<Rightarrow> Inr \<lparr>c_peer = peer, c_target = target, c_conn = True, c_creds = transportCreds,
                  c_peerToken = peerToken\<rparr>)"

definition GRPCClient_Close :: "'w net \<Rightarrow> GRPCClient option \<Rightarrow> 'w \<Rightarrow> error option \<times> 'w" where
  "GRPCClient_Close N c w =
     (case c of
        None \<Rightarrow> (None, w)
      | Some cl \<Rightarrow> if \<not> c_conn cl then (None, w) else n_Close N (c_target cl) w)"

definition GRPCClient_Get ::
  "'w net \<Rightarrow> GRPCClient \<Rightarrow> string \<Rightarrow> string \<Rightarrow> 'w \<Rightarrow> (error + bytes) \<times> 'w" where
  "GRPCClient_Get N c grp key w =
     n_stubGet N (c_target c) (peerAppendOutgoingContext [] (c_peerToken c)) grp key w"

definition GRPCClient_Set ::
  "'w net \<Rightarrow> GRPCClient \<Rightarrow> string \<Rightarrow> string \<Rightarrow> bytes \<Rightarrow> 'w \<Rightarrow> error option \<times> 'w" where
  "GRPCClient_Set N c grp key val w =
     n_stubSet N (c_target c) (peerAppendOutgoingContext [] (c_peerToken c)) grp key val w"

definition GRPCClient_Invalidate ::
  "'w net \<Rightarrow> GRPCClient \<Rightarrow> string \<Rightarrow> string \<Rightarrow> 'w \<Rightarrow> error option \<times> 'w" where
  "GRPCClient_Invalidate N c grp key w =
     n_stubInvalidate N (c_target c) (peerAppendOutgoingContext [] (c_peerToken c)) grp key w"

definition GRPCClient_Purge ::
  "'w net \<Rightarrow> GRPCClient \<Rightarrow> string \<Rightarrow> string \<Rightarrow> 'w \<Rightarrow> error option \<times> 'w" where
  "GRPCClient_Purge N c grp key w =
     n_stubPurge N (c_target c) (peerAppendOutgoingContext [] (c_peerToken c)) grp key w"

definition GRPCClient_Peer :: "GRPCClient \<Rightarrow> string" where
  "GRPCClient_Peer c = c_peer c"

definition GRPCClient_Proto :: "GRPCClient \<Rightarrow> string" where
  "GRPCClient_Proto c = ''grpc''"

end
