(* ===== verification/ConsistentHash.thy ===== *)
theory ConsistentHash
  imports GC_Prelude "HOL-Library.Word"
begin

text \<open>
  \<open>consistenthash/consistenthash.go\<close>: the hash ring. The record has the struct's fields;
  \<open>hashMap\<close> is a finite map from positions to node names. The standard library functions the
  file calls are modelled here: \<open>crc32.ChecksumIEEE\<close> on 32-bit words, \<open>strconv.Itoa\<close>,
  \<open>sort.Ints\<close> and the binary search \<open>sort.Search\<close>. \<open>int(uint32)\<close> is the unsigned value:
  \<open>int\<close> has 64 bits on the platforms the service is built for.
\<close>

unbundle bit_operations_syntax

section \<open>Standard library\<close>

text \<open>\<open>crc32.ChecksumIEEE\<close>: the reflected polynomial \<open>0xedb88320\<close>, one bit at a time.\<close>

definition crc32_bit :: "32 word \<Rightarrow> 32 word" where
  "crc32_bit c = (if bit c 0 then drop_bit 1 c XOR 0xedb88320 else drop_bit 1 c)"

fun crc32_bits :: "nat \<Rightarrow> 32 word \<Rightarrow> 32 word" where
  "crc32_bits 0 c = c"
| "crc32_bits (Suc n) c = crc32_bits n (crc32_bit c)"

fun crc32_bytes :: "32 word \<Rightarrow> bytes \<Rightarrow> 32 word" where
  "crc32_bytes c [] = c"
| "crc32_bytes c (x # xs) = crc32_bytes (crc32_bits 8 (c XOR of_nat (of_char x))) xs"

definition ChecksumIEEE :: "bytes \<Rightarrow> 32 word" where
  "ChecksumIEEE data = NOT (crc32_bytes (NOT 0) data)"

text \<open>The check value of the CRC-32 catalogue.\<close>

lemma ChecksumIEEE_check: "ChecksumIEEE ''123456789'' = 0xcbf43926"
  by code_simp

text \<open>\<open>strconv.Itoa\<close>\<close>

fun nat_digits :: "nat \<Rightarrow> string" where
  "nat_digits n =
     (if n < 10 then [char_of (48 + n)] else nat_digits (n div 10) @ [char_of (48 + n mod 10)])"

declare nat_digits.simps [simp del]

definition Itoa :: "int \<Rightarrow> string" where
  "Itoa i = (if i < 0 then CHR ''-'' # nat_digits (nat (- i)) else nat_digits (nat i))"

text \<open>\<open>sort.Search\<close>: the smallest index in \<open>[i, j)\<close> at which a monotone test holds, else \<open>j\<close>.\<close>

function search_loop :: "(nat \<Rightarrow> bool) \<Rightarrow> nat \<Rightarrow> nat \<Rightarrow> nat" where
  "search_loop f i j =
     (if i < j then
        (let h = (i + j) div 2 in if \<not> f h then search_loop f (h + 1) j else search_loop f i h)
      else i)"
  by pat_completeness auto
termination by (relation "measure (\<lambda>(_, i, j). j - i)") auto

declare search_loop.simps [simp del]

definition sort_Search :: "nat \<Rightarrow> (nat \<Rightarrow> bool) \<Rightarrow> nat" where
  "sort_Search n f = search_loop f 0 n"

lemma search_loop_spec:
  assumes "i \<le> j" and "\<And>a b. a \<le> b \<Longrightarrow> b < j \<Longrightarrow> f a \<Longrightarrow> f b"
  shows "i \<le> search_loop f i j \<and> search_loop f i j \<le> j \<and>
    (\<forall>k. i \<le> k \<longrightarrow> k < search_loop f i j \<longrightarrow> \<not> f k) \<and>
    (search_loop f i j < j \<longrightarrow> f (search_loop f i j))"
  using assms
proof (induction f i j rule: search_loop.induct)
  case (1 f i j)
  show ?case
  proof (cases "i < j")
    case False
    then have "search_loop f i j = i" by (simp add: search_loop.simps [of f i j])
    with False 1(3) show ?thesis by simp
  next
    case True
    let ?h = "(i + j) div 2"
    have h: "i \<le> ?h" "?h < j" using True by auto
    show ?thesis
    proof (cases "f ?h")
      case True
      have eq: "search_loop f i j = search_loop f i ?h"
        using True \<open>i < j\<close> by (simp add: search_loop.simps [of f i j] Let_def)
      have "\<And>a b. a \<le> b \<Longrightarrow> b < ?h \<Longrightarrow> f a \<Longrightarrow> f b" using 1(4) h by auto
      from 1(2) [OF \<open>i < j\<close> refl _ h(1) this] True
      have "i \<le> search_loop f i ?h \<and> search_loop f i ?h \<le> ?h \<and>
        (\<forall>k. i \<le> k \<longrightarrow> k < search_loop f i ?h \<longrightarrow> \<not> f k) \<and>
        (search_loop f i ?h < ?h \<longrightarrow> f (search_loop f i ?h))" by simp
      with True h(2) show ?thesis
        unfolding eq by (cases "search_loop f i ?h = ?h") auto
    next
      case False
      have eq: "search_loop f i j = search_loop f (?h + 1) j"
        using False \<open>i < j\<close> by (simp add: search_loop.simps [of f i j] Let_def)
      have "\<not> f k" if "k < ?h + 1" "i \<le> k" for k
        using 1(4) [of k ?h] False h that by auto
      moreover have "?h + 1 \<le> j" using h(2) by simp
      from 1(1) [OF \<open>i < j\<close> refl False this 1(4)]
      have "?h + 1 \<le> search_loop f (?h + 1) j \<and> search_loop f (?h + 1) j \<le> j \<and>
        (\<forall>k. ?h + 1 \<le> k \<longrightarrow> k < search_loop f (?h + 1) j \<longrightarrow> \<not> f k) \<and>
        (search_loop f (?h + 1) j < j \<longrightarrow> f (search_loop f (?h + 1) j))" .
      ultimately show ?thesis unfolding eq using h(1) by (meson linorder_not_le order_trans le_add1)
    qed
  qed
qed

text \<open>On a sorted list the search finds the first element that is large enough.\<close>

lemma sort_Search_sorted:
  assumes "sorted xs" and "i = sort_Search (length xs) (\<lambda>i. xs ! i \<ge> x)"
  shows "i \<le> length xs" and "\<And>k. k < i \<Longrightarrow> xs ! k < x" and "i < length xs \<Longrightarrow> x \<le> xs ! i"
proof -
  have "\<And>a b. a \<le> b \<Longrightarrow> b < length xs \<Longrightarrow> xs ! a \<ge> x \<Longrightarrow> xs ! b \<ge> x"
    using assms(1) by (meson order_trans sorted_nth_mono)
  note spec = search_loop_spec [where f = "\<lambda>i. xs ! i \<ge> x", OF le0 this]
  from spec assms(2) show "i \<le> length xs" "\<And>k. k < i \<Longrightarrow> xs ! k < x" "i < length xs \<Longrightarrow> x \<le> xs ! i"
    by (auto simp: sort_Search_def not_le)
qed

section \<open>State and operations\<close>

record Map =
  m_hash :: "bytes \<Rightarrow> 32 word"
  m_replicas :: int
  m_keys :: "int list"
  m_hashMap :: "int \<Rightarrow> string option"

definition Map_New :: "int \<Rightarrow> (bytes \<Rightarrow> 32 word) option \<Rightarrow> Map" where
  "Map_New replicas fn =
     \<lparr>m_hash = (case fn of None \<Rightarrow> ChecksumIEEE | Some f \<Rightarrow> f), m_replicas = replicas,
      m_keys = [], m_hashMap = (\<lambda>_. None)\<rparr>"

definition Map_IsEmpty :: "Map \<Rightarrow> bool" where
  "Map_IsEmpty m \<longleftrightarrow> len (m_keys m) = 0"

text \<open>The body of the inner loop of \<open>Add\<close>, and the two loops.\<close>

definition Map_place :: "string \<Rightarrow> int \<Rightarrow> Map \<Rightarrow> Map" where
  "Map_place key i m =
     (let hash = uint (m_hash m (Itoa i @ key))
      in m\<lparr>m_keys := m_keys m @ [hash], m_hashMap := (m_hashMap m)(hash \<mapsto> key)\<rparr>)"

definition Map_addNode :: "Map \<Rightarrow> string \<Rightarrow> Map" where
  "Map_addNode m key = fold (Map_place key) [0..m_replicas m - 1] m"

definition Map_Add :: "Map \<Rightarrow> string list \<Rightarrow> Map" where
  "Map_Add m keys = (let m1 = foldl Map_addNode m keys in m1\<lparr>m_keys := sort (m_keys m1)\<rparr>)"

text \<open>A lookup in a Go map: the zero value for a missing key.\<close>

definition hashMap_get :: "Map \<Rightarrow> int \<Rightarrow> string" where
  "hashMap_get m h = (case m_hashMap m h of None \<Rightarrow> [] | Some s \<Rightarrow> s)"

definition Map_Get :: "Map \<Rightarrow> string \<Rightarrow> string" where
  "Map_Get m key =
     (if len (m_keys m) = 0 then []
      else
        (let hash = uint (m_hash m key);
             idx = sort_Search (length (m_keys m)) (\<lambda>i. m_keys m ! i \<ge> hash)
         in hashMap_get m (m_keys m ! (idx mod length (m_keys m)))))"

definition Map_Remove :: "Map \<Rightarrow> string \<Rightarrow> Map" where
  "Map_Remove m key =
     m\<lparr>m_keys := filter (\<lambda>hash. hashMap_get m hash \<noteq> key) (m_keys m),
       m_hashMap := (\<lambda>hash. if m_hashMap m hash = Some key then None else m_hashMap m hash)\<rparr>"

section \<open>Invariant and abstraction\<close>

definition Map_inv :: "Map \<Rightarrow> bool" where
  "Map_inv m \<longleftrightarrow> sorted (m_keys m) \<and> set (m_keys m) = dom (m_hashMap m)"

definition Map_nodes :: "Map \<Rightarrow> string set" where
  "Map_nodes m = ran (m_hashMap m)"

text \<open>The position clockwise from \<open>h\<close>: the least one not below it, or the least of all.\<close>

definition successor :: "int set \<Rightarrow> int \<Rightarrow> int" where
  "successor P h = (if \<exists>p\<in>P. h \<le> p then Min {p \<in> P. h \<le> p} else Min P)"

definition vnodes :: "Map \<Rightarrow> string \<Rightarrow> int set" where
  "vnodes m key = (\<lambda>i. uint (m_hash m (Itoa i @ key))) ` {0..<m_replicas m}"

lemma successor_in: "finite P \<Longrightarrow> P \<noteq> {} \<Longrightarrow> successor P h \<in> P"
  using Min_in [of P] Min_in [of "{p \<in> P. h \<le> p}"] unfolding successor_def by auto

text \<open>The successor is the least position in its class.\<close>

lemma successor_least:
  assumes "finite P" and "P \<noteq> {}"
  shows "if \<exists>q\<in>P. h \<le> q then h \<le> successor P h \<and> (\<forall>q\<in>P. h \<le> q \<longrightarrow> successor P h \<le> q)
    else (\<forall>q\<in>P. successor P h \<le> q)"
proof (cases "\<exists>q\<in>P. h \<le> q")
  case True
  then have "Min {p \<in> P. h \<le> p} \<in> {p \<in> P. h \<le> p}" using assms(1) by (intro Min_in) auto
  with True assms(1) show ?thesis by (auto simp: successor_def intro: Min_le)
next
  case False
  with assms show ?thesis by (auto simp: successor_def intro: Min_le)
qed

text \<open>Positions that are not the successor do not matter.\<close>

lemma successor_subset:
  assumes "finite P" and "Q \<subseteq> P" and "successor P h \<in> Q"
  shows "successor Q h = successor P h"
proof -
  have fin: "finite Q" using assms(1,2) finite_subset by blast
  show ?thesis
  proof (cases "\<exists>p\<in>P. h \<le> p")
    case True
    let ?P = "{p \<in> P. h \<le> p}" and ?Q = "{p \<in> Q. h \<le> p}"
    have s: "successor P h = Min ?P" using True by (simp add: successor_def)
    have "Min ?P \<in> ?P" using True assms(1) by (intro Min_in) auto
    with s assms(3) have q: "Min ?P \<in> ?Q" by simp
    then have "Min ?Q = Min ?P"
      using assms(1,2) fin by (intro Min_eqI) (auto intro: Min_le)
    with q s show ?thesis by (auto simp: successor_def)
  next
    case False
    then have s: "successor P h = Min P" and no: "\<not> (\<exists>p\<in>Q. h \<le> p)"
      using assms(2) by (auto simp: successor_def)
    have "Min Q = Min P"
      using assms s fin by (intro Min_eqI) (auto intro: Min_le)
    with no s show ?thesis by (simp add: successor_def)
  qed
qed

text \<open>The index found by the binary search is the successor's.\<close>

lemma search_successor:
  assumes "sorted xs" and "xs \<noteq> []"
  shows "xs ! (sort_Search (length xs) (\<lambda>i. xs ! i \<ge> h) mod length xs) = successor (set xs) h"
proof -
  define i where "i = sort_Search (length xs) (\<lambda>i. xs ! i \<ge> h)"
  note i = sort_Search_sorted [OF assms(1) i_def]
  show ?thesis
  proof (cases "i < length xs")
    case True
    have "Min {p \<in> set xs. h \<le> p} = xs ! i"
    proof (rule Min_eqI)
      fix y assume "y \<in> {p \<in> set xs. h \<le> p}"
      then obtain k where k: "k < length xs" "y = xs ! k" "h \<le> xs ! k"
        by (auto simp: in_set_conv_nth)
      with i(2) [of k] have "i \<le> k" by (metis linorder_not_le)
      with k assms(1) show "xs ! i \<le> y" by (simp add: sorted_nth_mono)
    qed (use True i(3) in auto)
    moreover have "\<exists>p\<in>set xs. h \<le> p" using True i(3) by auto
    ultimately show ?thesis using True by (simp add: successor_def i_def)
  next
    case False
    then have il: "i = length xs" using i(1) by simp
    have "\<not> (\<exists>p\<in>set xs. h \<le> p)"
      using i(2) il by (auto simp: in_set_conv_nth not_le)
    moreover have "Min (set xs) = xs ! 0"
      using assms by (intro Min_eqI) (auto simp: in_set_conv_nth sorted_nth_mono)
    ultimately show ?thesis using il by (simp add: successor_def i_def)
  qed
qed

section \<open>The operations on the abstraction\<close>

lemma Map_place_fold:
  "m_keys (fold (Map_place k) is m) = m_keys m @ map (\<lambda>i. uint (m_hash m (Itoa i @ k))) is \<and>
   m_hashMap (fold (Map_place k) is m) =
     (\<lambda>h. if h \<in> (\<lambda>i. uint (m_hash m (Itoa i @ k))) ` set is then Some k else m_hashMap m h) \<and>
   m_hash (fold (Map_place k) is m) = m_hash m \<and> m_replicas (fold (Map_place k) is m) = m_replicas m"
  by (induction "is" arbitrary: m) (auto simp: Map_place_def Let_def fun_eq_iff)

lemma Map_addNode_eqs:
  "m_hash (Map_addNode m k) = m_hash m" "m_replicas (Map_addNode m k) = m_replicas m"
  "m_hashMap (Map_addNode m k) = (\<lambda>h. if h \<in> vnodes m k then Some k else m_hashMap m h)"
  "set (m_keys (Map_addNode m k)) = set (m_keys m) \<union> vnodes m k"
proof -
  have "set [0..m_replicas m - 1] = {0..<m_replicas m}" by auto
  then show "m_hash (Map_addNode m k) = m_hash m" "m_replicas (Map_addNode m k) = m_replicas m"
    "m_hashMap (Map_addNode m k) = (\<lambda>h. if h \<in> vnodes m k then Some k else m_hashMap m h)"
    "set (m_keys (Map_addNode m k)) = set (m_keys m) \<union> vnodes m k"
    by (simp_all add: Map_addNode_def vnodes_def Map_place_fold)
qed

lemma vnodes_cong:
  "m_hash m' = m_hash m \<Longrightarrow> m_replicas m' = m_replicas m \<Longrightarrow> vnodes m' k = vnodes m k"
  by (simp add: vnodes_def)

text \<open>The map after a list of nodes was placed: the last node to claim a position holds it.\<close>

fun claimed :: "(string \<Rightarrow> int set) \<Rightarrow> string list \<Rightarrow> (int \<Rightarrow> string option) \<Rightarrow> int \<Rightarrow> string option" where
  "claimed vs [] f = f"
| "claimed vs (k # ks) f = claimed vs ks (\<lambda>h. if h \<in> vs k then Some k else f h)"

lemma addNodes_eqs:
  "m_hash (foldl Map_addNode m ks) = m_hash m \<and>
   m_replicas (foldl Map_addNode m ks) = m_replicas m \<and>
   m_hashMap (foldl Map_addNode m ks) = claimed (vnodes m) ks (m_hashMap m) \<and>
   set (m_keys (foldl Map_addNode m ks)) = set (m_keys m) \<union> (\<Union>k\<in>set ks. vnodes m k)"
proof (induction ks arbitrary: m)
  case Nil
  then show ?case by simp
next
  case (Cons k ks)
  have "vnodes (Map_addNode m k) = vnodes m"
    by (rule ext, rule vnodes_cong) (simp_all add: Map_addNode_eqs)
  with Cons [of "Map_addNode m k"] show ?case
    by (simp add: Map_addNode_eqs Un_assoc)
qed

lemma Map_Add_eqs:
  "m_hash (Map_Add m ks) = m_hash m" "m_replicas (Map_Add m ks) = m_replicas m"
  "m_hashMap (Map_Add m ks) = claimed (vnodes m) ks (m_hashMap m)"
  "set (m_keys (Map_Add m ks)) = set (m_keys m) \<union> (\<Union>k\<in>set ks. vnodes m k)"
  "sorted (m_keys (Map_Add m ks))"
  using addNodes_eqs [of m ks] by (simp_all add: Map_Add_def Let_def)

lemma claimed_other: "\<forall>k\<in>set ks. h \<notin> vs k \<Longrightarrow> claimed vs ks f h = f h"
  by (induction ks arbitrary: f) auto

lemma claimed_some: "\<exists>k\<in>set ks. h \<in> vs k \<Longrightarrow> \<exists>k\<in>set ks. h \<in> vs k \<and> claimed vs ks f h = Some k"
proof (induction ks arbitrary: f)
  case (Cons k ks)
  show ?case
  proof (cases "\<exists>k\<in>set ks. h \<in> vs k")
    case True
    from Cons.IH [OF this] show ?thesis by auto
  next
    case False
    with Cons.prems have "h \<in> vs k" by simp
    with False show ?thesis by (simp add: claimed_other)
  qed
qed simp

lemma claimed_dom: "dom (claimed vs ks f) = dom f \<union> (\<Union>k\<in>set ks. vs k)"
  by (induction ks arbitrary: f) (auto split: if_splits)

lemma Map_inv_New: "Map_inv (Map_New r fn)"
  by (simp add: Map_inv_def Map_New_def)

lemma Map_nodes_New: "Map_nodes (Map_New r fn) = {}"
  by (simp add: Map_nodes_def Map_New_def)

lemma Map_inv_Add: "Map_inv m \<Longrightarrow> Map_inv (Map_Add m ks)"
  by (simp add: Map_inv_def Map_Add_eqs claimed_dom)

lemma hashMap_get_in: "Map_inv m \<Longrightarrow> h \<in> set (m_keys m) \<Longrightarrow> m_hashMap m h = Some (hashMap_get m h)"
  by (auto simp: Map_inv_def hashMap_get_def)

lemma Map_Remove_eqs:
  assumes "Map_inv m"
  shows "m_hash (Map_Remove m k) = m_hash m" "m_replicas (Map_Remove m k) = m_replicas m"
    "set (m_keys (Map_Remove m k)) = {h. \<exists>n. m_hashMap m h = Some n \<and> n \<noteq> k}"
    "m_hashMap (Map_Remove m k) h = (if m_hashMap m h = Some k then None else m_hashMap m h)"
  using assms by (auto simp: Map_Remove_def Map_inv_def hashMap_get_def dom_def split: option.splits)

lemma Map_inv_Remove: "Map_inv m \<Longrightarrow> Map_inv (Map_Remove m k)"
  using Map_Remove_eqs(3,4) [of m k]
  by (auto simp: Map_inv_def dom_def) (simp add: Map_Remove_def sorted_wrt_filter)

lemma Map_nodes_Remove: "Map_inv m \<Longrightarrow> Map_nodes (Map_Remove m k) = Map_nodes m - {k}"
  by (auto simp: Map_nodes_def ran_def Map_Remove_eqs split: if_splits) (metis option.inject)

lemma Map_nodes_Add: "Map_nodes (Map_Add m ks) \<subseteq> Map_nodes m \<union> set ks"
proof
  fix n assume "n \<in> Map_nodes (Map_Add m ks)"
  then obtain h where h: "claimed (vnodes m) ks (m_hashMap m) h = Some n"
    by (auto simp: Map_nodes_def ran_def Map_Add_eqs)
  show "n \<in> Map_nodes m \<union> set ks"
  proof (cases "\<exists>k\<in>set ks. h \<in> vnodes m k")
    case True
    from claimed_some [OF this, of "m_hashMap m"] h show ?thesis by auto
  next
    case False
    with claimed_other [of ks h "vnodes m" "m_hashMap m"] h show ?thesis
      by (auto simp: Map_nodes_def ran_def)
  qed
qed

lemma Map_IsEmpty_iff: "Map_IsEmpty m \<longleftrightarrow> m_keys m = []"
  by (simp add: Map_IsEmpty_def len_def)

lemma Map_IsEmpty_nodes: "Map_inv m \<Longrightarrow> Map_IsEmpty m \<longleftrightarrow> Map_nodes m = {}"
  using set_empty [of "m_keys m"]
  by (auto simp: Map_IsEmpty_iff Map_inv_def Map_nodes_def ran_def dom_def)

text \<open>\<open>Get\<close> is the owner of the successor position.\<close>

lemma Map_Get_successor:
  assumes "Map_inv m" and "\<not> Map_IsEmpty m"
  shows "m_hashMap m (successor (set (m_keys m)) (uint (m_hash m k))) = Some (Map_Get m k)"
proof -
  have ne: "m_keys m \<noteq> []" using assms(2) by (simp add: Map_IsEmpty_iff)
  have "sorted (m_keys m)" using assms(1) by (simp add: Map_inv_def)
  from search_successor [OF this ne, of "uint (m_hash m k)"] ne
  have "Map_Get m k = hashMap_get m (successor (set (m_keys m)) (uint (m_hash m k)))"
    by (simp add: Map_Get_def Let_def len_def)
  with hashMap_get_in [OF assms(1) successor_in] ne show ?thesis by simp
qed

lemma Map_Get_empty: "Map_IsEmpty m \<Longrightarrow> Map_Get m k = []"
  by (simp add: Map_IsEmpty_def Map_Get_def)

lemma Map_Get_member: "Map_inv m \<Longrightarrow> \<not> Map_IsEmpty m \<Longrightarrow> Map_Get m k \<in> Map_nodes m"
  using Map_Get_successor by (auto simp: Map_nodes_def ran_def)

lemma Map_Add_moves:
  assumes "Map_inv m"
  shows "Map_Get (Map_Add m ks) k = Map_Get m k \<or> Map_Get (Map_Add m ks) k \<in> set ks"
proof (cases "Map_IsEmpty (Map_Add m ks)")
  case True
  then have "Map_IsEmpty m" using Map_Add_eqs(4) [of m ks] by (simp add: Map_IsEmpty_iff)
  with True show ?thesis by (simp add: Map_Get_empty)
next
  case False
  let ?h = "uint (m_hash m k)" and ?P = "set (m_keys (Map_Add m ks))"
  let ?s = "successor ?P ?h"
  have own: "claimed (vnodes m) ks (m_hashMap m) ?s = Some (Map_Get (Map_Add m ks) k)"
    using Map_Get_successor [OF Map_inv_Add [OF assms] False, of k] by (simp add: Map_Add_eqs)
  show ?thesis
  proof (cases "\<exists>n\<in>set ks. ?s \<in> vnodes m n")
    case True
    from claimed_some [OF this, of "m_hashMap m"] own show ?thesis by auto
  next
    case False
    then have old: "m_hashMap m ?s = Some (Map_Get (Map_Add m ks) k)"
      using own claimed_other [of ks ?s "vnodes m" "m_hashMap m"] by simp
    then have mem: "?s \<in> set (m_keys m)" using assms by (auto simp: Map_inv_def)
    then have "successor (set (m_keys m)) ?h = ?s"
      by (intro successor_subset) (simp_all del: Map_Add_eqs(4), simp add: Map_Add_eqs)
    moreover have "\<not> Map_IsEmpty m" using mem by (auto simp: Map_IsEmpty_iff)
    ultimately show ?thesis using Map_Get_successor [OF assms, of k] old by simp
  qed
qed

lemma Map_Remove_keeps:
  assumes "Map_inv m" and "Map_Get m k \<noteq> n"
  shows "Map_Get (Map_Remove m n) k = Map_Get m k"
proof (cases "Map_IsEmpty m")
  case True
  then have "Map_IsEmpty (Map_Remove m n)" by (simp add: Map_IsEmpty_iff Map_Remove_def)
  with True show ?thesis by (simp add: Map_Get_empty)
next
  case False
  let ?h = "uint (m_hash m k)" and ?Q = "set (m_keys (Map_Remove m n))"
  let ?s = "successor (set (m_keys m)) ?h"
  note own = Map_Get_successor [OF assms(1) False, of k]
  have mem: "?s \<in> ?Q" using own assms(2) by (simp add: Map_Remove_eqs [OF assms(1)])
  have "?Q \<subseteq> set (m_keys m)" by (auto simp: Map_Remove_def)
  from successor_subset [OF _ this mem] have "successor ?Q ?h = ?s" by simp
  moreover have "\<not> Map_IsEmpty (Map_Remove m n)" using mem by (auto simp: Map_IsEmpty_iff)
  ultimately show ?thesis
    using Map_Get_successor [OF Map_inv_Remove [OF assms(1)], of n k] own assms(2)
    by (simp add: Map_Remove_eqs [OF assms(1)])
qed

section \<open>The contract of a ring\<close>

text \<open>
  What \<open>HTTPPool\<close> relies on: lookups answer members, a node that joins takes keys only for
  itself, and one that leaves gives up only its own.
\<close>

datatype ring_event = Join "string list" | Leave string

text \<open>A sequence of joins and departures, and the names that are in after it.\<close>

fun ring_run ::
  "('r \<Rightarrow> string list \<Rightarrow> 'r) \<Rightarrow> ('r \<Rightarrow> string \<Rightarrow> 'r) \<Rightarrow> 'r \<Rightarrow> ring_event list \<Rightarrow> 'r" where
  "ring_run add remove r [] = r"
| "ring_run add remove r (Join ns # es) = ring_run add remove (add r ns) es"
| "ring_run add remove r (Leave n # es) = ring_run add remove (remove r n) es"

fun live :: "string set \<Rightarrow> ring_event list \<Rightarrow> string set" where
  "live S [] = S"
| "live S (Join ns # es) = live (S \<union> set ns) es"
| "live S (Leave n # es) = live (S - {n}) es"

locale hash_ring =
  fixes get :: "'r \<Rightarrow> string \<Rightarrow> string"
    and add :: "'r \<Rightarrow> string list \<Rightarrow> 'r"
    and remove :: "'r \<Rightarrow> string \<Rightarrow> 'r"
    and isEmpty :: "'r \<Rightarrow> bool"
    and nodes :: "'r \<Rightarrow> string set"
    and invar :: "'r \<Rightarrow> bool"
  assumes add_invar: "invar r \<Longrightarrow> invar (add r ns)"
    and remove_invar: "invar r \<Longrightarrow> invar (remove r n)"
    and empty_nodes: "invar r \<Longrightarrow> isEmpty r \<longleftrightarrow> nodes r = {}"
    and get_empty: "isEmpty r \<Longrightarrow> get r k = []"
    and get_member: "invar r \<Longrightarrow> \<not> isEmpty r \<Longrightarrow> get r k \<in> nodes r"
    and add_nodes: "nodes (add r ns) \<subseteq> nodes r \<union> set ns"
    and remove_nodes: "invar r \<Longrightarrow> nodes (remove r n) = nodes r - {n}"
    and add_moves: "invar r \<Longrightarrow> get (add r ns) k = get r k \<or> get (add r ns) k \<in> set ns"
    and remove_keeps: "invar r \<Longrightarrow> get r k \<noteq> n \<Longrightarrow> get (remove r n) k = get r k"
begin

lemma run_invar: "invar r \<Longrightarrow> invar (ring_run add remove r es)"
proof (induction es arbitrary: r)
  case (Cons e es)
  then show ?case by (cases e) (auto intro: add_invar remove_invar)
qed simp

lemma run_nodes: "invar r \<Longrightarrow> nodes r \<subseteq> S \<Longrightarrow> nodes (ring_run add remove r es) \<subseteq> live S es"
proof (induction es arbitrary: r S)
  case (Cons e es)
  show ?case
  proof (cases e)
    case (Join ns)
    have "nodes (add r ns) \<subseteq> S \<union> set ns" using add_nodes [of r ns] Cons.prems(2) by blast
    with Cons.IH [OF add_invar] Cons.prems(1) Join show ?thesis by simp
  next
    case (Leave n)
    have "nodes (remove r n) \<subseteq> S - {n}" using remove_nodes [of r n] Cons.prems by blast
    with Cons.IH [OF remove_invar] Cons.prems(1) Leave show ?thesis by simp
  qed
qed simp

lemma run_get_live:
  assumes "invar r" and "\<not> isEmpty (ring_run add remove r es)"
  shows "get (ring_run add remove r es) k \<in> live (nodes r) es"
  using get_member [OF run_invar [OF assms(1)] assms(2)] run_nodes [OF assms(1) order_refl] by blast

lemma joins_take:
  assumes "invar r"
  shows "get (ring_run add remove r (map Join nss)) k = get r k \<or>
    get (ring_run add remove r (map Join nss)) k \<in> \<Union> (set ` set nss)"
  using assms
proof (induction nss arbitrary: r)
  case (Cons ns nss)
  show ?case using Cons.IH [OF add_invar [OF Cons.prems], of ns] add_moves [OF Cons.prems, of ns k]
    by auto
qed simp

lemma leaves_keep:
  assumes "invar r" and "get r k \<notin> set ns"
  shows "get (ring_run add remove r (map Leave ns)) k = get r k"
  using assms
proof (induction ns arbitrary: r)
  case (Cons n ns)
  then have "get (remove r n) k = get r k" by (intro remove_keeps) auto
  with Cons.IH [OF remove_invar [OF Cons.prems(1)]] Cons.prems(2) show ?case by simp
qed simp

lemma removed_not_chosen: "invar r \<Longrightarrow> \<not> isEmpty (remove r n) \<Longrightarrow> get (remove r n) k \<noteq> n"
  using get_member [OF remove_invar, of r n k] remove_nodes [of r n] by auto

end

interpretation ring: hash_ring Map_Get Map_Add Map_Remove Map_IsEmpty Map_nodes Map_inv
proof (unfold_locales, goal_cases)
  case (1 r ns) then show ?case by (rule Map_inv_Add)
next
  case (2 r n) then show ?case by (rule Map_inv_Remove)
next
  case (3 r) then show ?case by (rule Map_IsEmpty_nodes)
next
  case (4 r k) then show ?case by (rule Map_Get_empty)
next
  case (5 r k) then show ?case by (rule Map_Get_member)
next
  case (6 r ns) then show ?case by (rule Map_nodes_Add)
next
  case (7 r n) then show ?case by (rule Map_nodes_Remove)
next
  case (8 r ns k) then show ?case by (rule Map_Add_moves)
next
  case (9 r k n) then show ?case by (rule Map_Remove_keeps)
qed

section \<open>Properties\<close>

text \<open>No position is claimed by two of the nodes.\<close>

definition collision_free :: "Map \<Rightarrow> string set \<Rightarrow> bool" where
  "collision_free m S \<longleftrightarrow> (\<forall>a\<in>S. \<forall>b\<in>S. a \<noteq> b \<longrightarrow> vnodes m a \<inter> vnodes m b = {})"

lemma claimed_collision_free:
  assumes "collision_free m (set ks)" and "k \<in> set ks" and "h \<in> vnodes m k"
  shows "claimed (vnodes m) ks f h = Some k"
proof -
  from assms(2,3) have "\<exists>k\<in>set ks. h \<in> vnodes m k" by blast
  from claimed_some [OF this, of f] assms show ?thesis by (force simp: collision_free_def)
qed

lemma claimed_set:
  assumes "collision_free m (set ks)" and "set ks = set ks'"
  shows "claimed (vnodes m) ks f = claimed (vnodes m) ks' f"
proof
  fix h
  show "claimed (vnodes m) ks f h = claimed (vnodes m) ks' f h"
  proof (cases "\<exists>k\<in>set ks. h \<in> vnodes m k")
    case True
    then show ?thesis using claimed_collision_free [of m ks] claimed_collision_free [of m ks'] assms
      by metis
  next
    case False
    then show ?thesis using assms(2) by (simp add: claimed_other)
  qed
qed

lemma Map_Get_cong:
  assumes "Map_inv m" and "Map_inv m'" and "m_hash m = m_hash m'" and "m_hashMap m = m_hashMap m'"
  shows "Map_Get m k = Map_Get m' k"
proof -
  have s: "set (m_keys m) = set (m_keys m')" using assms by (simp add: Map_inv_def)
  then have e: "Map_IsEmpty m = Map_IsEmpty m'" by (auto simp: Map_IsEmpty_iff)
  show ?thesis
  proof (cases "Map_IsEmpty m")
    case True
    with e show ?thesis by (simp add: Map_Get_empty)
  next
    case False
    with e Map_Get_successor [OF assms(1), of k] Map_Get_successor [OF assms(2), of k] assms(3,4) s
    show ?thesis by simp
  qed
qed

text \<open>A sequence of joins claims the positions in the order of all their nodes.\<close>

lemma claimed_append: "claimed vs (ks @ ks') f = claimed vs ks' (claimed vs ks f)"
  by (induction ks arbitrary: f) simp_all

lemma ring_joins:
  "m_hash (ring_run Map_Add Map_Remove m (map Join nss)) = m_hash m \<and>
   m_hashMap (ring_run Map_Add Map_Remove m (map Join nss)) =
     claimed (vnodes m) (concat nss) (m_hashMap m)"
proof (induction nss arbitrary: m)
  case (Cons ns nss)
  have "vnodes (Map_Add m ns) = vnodes m"
    by (rule ext, rule vnodes_cong) (simp_all add: Map_Add_eqs)
  with Cons [of "Map_Add m ns"] show ?case by (simp add: Map_Add_eqs claimed_append)
qed simp

lemma Map_Add_Remove_keys:
  assumes "Map_inv m" and "\<And>h. m_hashMap m h \<noteq> Some n" and "vnodes m n \<inter> set (m_keys m) = {}"
  shows "m_keys (Map_Remove (Map_Add m [n]) n) = m_keys m"
proof -
  let ?hs = "map (\<lambda>i. uint (m_hash m (Itoa i @ n))) [0..m_replicas m - 1]"
  let ?keep = "\<lambda>h. hashMap_get (Map_Add m [n]) h \<noteq> n"
  have set: "set ?hs = vnodes m n" by (auto simp: vnodes_def)
  have keys: "m_keys (Map_Add m [n]) = sort (m_keys m @ ?hs)"
    by (simp add: Map_Add_def Map_addNode_def Map_place_fold Let_def)
  have "hashMap_get (Map_Add m [n]) h = (if h \<in> vnodes m n then n else hashMap_get m h)" for h
    by (simp add: hashMap_get_def Map_Add_eqs)
  moreover have "hashMap_get m h \<noteq> n" if "h \<in> set (m_keys m)" for h
    using hashMap_get_in [OF assms(1) that] assms(2) by metis
  ultimately have "filter ?keep (m_keys m @ ?hs) = m_keys m"
    using assms(3) set by (auto simp: filter_id_conv filter_empty_conv)
  then have "filter ?keep (sort (m_keys m @ ?hs)) = sort (m_keys m)"
    by (simp only: filter_sort)
  then show ?thesis using assms(1) by (simp add: Map_Remove_def keys Map_inv_def sorted_sort_id)
qed

text \<open>
  A ring for the examples, with the sum of the bytes as its hash: node \<open>a\<close> sits at 145, 146 and
  147, node \<open>k\<close> at 155, 156 and 157.
\<close>

definition ex_hash :: "bytes \<Rightarrow> 32 word" where
  "ex_hash data = of_nat (sum_list (map of_char data))"

definition ex_ring :: Map where
  "ex_ring = Map_Add (Map_New 3 (Some ex_hash)) [''a'', ''k'']"

lemma ex_ring_inv: "Map_inv ex_ring" and ex_ring_nonempty: "\<not> Map_IsEmpty ex_ring"
  by (simp add: ex_ring_def Map_inv_Add Map_inv_New) code_simp

text \<open>
  C21: On a ring that is not empty, \<open>Get\<close> answers the node that owns the first position
  clockwise from the key's hash: the least position not below it, or the least of all when there
  is none. The binary search and the wrap-around by \<open>mod\<close> compute exactly that.
\<close>

theorem ring_get_successor:
  assumes "Map_inv m" and "\<not> Map_IsEmpty m"
  shows "\<exists>p\<in>set (m_keys m). m_hashMap m p = Some (Map_Get m key) \<and>
    (if \<exists>q\<in>set (m_keys m). uint (m_hash m key) \<le> q
     then uint (m_hash m key) \<le> p \<and> (\<forall>q\<in>set (m_keys m). uint (m_hash m key) \<le> q \<longrightarrow> p \<le> q)
     else (\<forall>q\<in>set (m_keys m). p \<le> q))"
proof -
  let ?P = "set (m_keys m)" and ?h = "uint (m_hash m key)"
  have ne: "?P \<noteq> {}" using assms(2) by (simp add: Map_IsEmpty_iff)
  have "if \<exists>q\<in>?P. ?h \<le> q
     then ?h \<le> successor ?P ?h \<and> (\<forall>q\<in>?P. ?h \<le> q \<longrightarrow> successor ?P ?h \<le> q)
     else (\<forall>q\<in>?P. successor ?P ?h \<le> q)"
    by (rule successor_least) (use ne in auto)
  with Map_Get_successor [OF assms, of key] successor_in [OF _ ne] show ?thesis by blast
qed

theorem ring_get_successor_witness:
  "Map_inv ex_ring \<and> \<not> Map_IsEmpty ex_ring \<and> Map_Get ex_ring ''AW'' = ''k'' \<and>
   (\<exists>p\<in>set (m_keys ex_ring). m_hashMap ex_ring p = Some (Map_Get ex_ring ''AW''))"
proof -
  have "Map_Get ex_ring ''AW'' = ''k''" by code_simp
  with ring_get_successor [OF ex_ring_inv ex_ring_nonempty, of "''AW''"]
    ex_ring_inv ex_ring_nonempty show ?thesis by auto
qed

text \<open>
  C22: After any sequence of joins and departures the ring is well-formed, and \<open>Get\<close> answers a
  node that has joined and not left since, or the empty string when the ring is empty.
\<close>

theorem ring_get_live:
  shows "Map_inv (ring_run Map_Add Map_Remove (Map_New r fn) es) \<and>
    (if Map_IsEmpty (ring_run Map_Add Map_Remove (Map_New r fn) es)
     then Map_Get (ring_run Map_Add Map_Remove (Map_New r fn) es) key = []
     else Map_Get (ring_run Map_Add Map_Remove (Map_New r fn) es) key \<in> live {} es)"
proof -
  from Map_nodes_New [of r fn] ring.run_invar [OF Map_inv_New] ring.run_get_live [OF Map_inv_New, of r fn es key]
    ring.get_empty show ?thesis by auto
qed

text \<open>
  C23: Joining nodes move keys only to themselves: after any number of joins the owner of a key is
  the old one or one of the nodes that joined. Departures move only the keys of the departed:
  while the owner of a key stays, it remains the owner, and a node that left owns nothing.
\<close>

theorem ring_minimal_disruption:
  assumes "Map_inv m"
  shows "(Map_Get (ring_run Map_Add Map_Remove m (map Join nss)) key = Map_Get m key \<or>
      Map_Get (ring_run Map_Add Map_Remove m (map Join nss)) key \<in> \<Union> (set ` set nss)) \<and>
    (Map_Get m key \<notin> set ns \<longrightarrow>
      Map_Get (ring_run Map_Add Map_Remove m (map Leave ns)) key = Map_Get m key) \<and>
    (\<not> Map_IsEmpty (Map_Remove m n) \<longrightarrow> Map_Get (Map_Remove m n) key \<noteq> n)"
  using ring.joins_take [OF assms] ring.leaves_keep [OF assms] ring.removed_not_chosen [OF assms]
  by blast

theorem ring_minimal_disruption_witness:
  "Map_inv ex_ring \<and> Map_Get ex_ring ''c'' = ''a'' \<and>
   Map_Get (ring_run Map_Add Map_Remove ex_ring (map Leave [''k''])) ''c'' = ''a'' \<and>
   Map_Get (Map_Remove ex_ring ''a'') ''c'' \<noteq> ''a''"
proof -
  have "Map_Get ex_ring ''c'' = ''a''" by code_simp
  moreover from this have "Map_Get ex_ring ''c'' \<notin> set [''k'']" by simp
  moreover have "\<not> Map_IsEmpty (Map_Remove ex_ring ''a'')" by code_simp
  ultimately show ?thesis using ring_minimal_disruption [OF ex_ring_inv] ex_ring_inv by metis
qed

text \<open>
  Members agree: when no two nodes hash to the same position, two rings built from the same
  set of nodes send every key to the same node, in whatever order, in however many calls of
  \<open>Add\<close>, and however often each member listed them.
\<close>

theorem ring_members_agree:
  assumes "collision_free (Map_New r fn) (set (concat nss))" and "set (concat nss) = set (concat nss')"
  shows "Map_Get (ring_run Map_Add Map_Remove (Map_New r fn) (map Join nss)) key =
    Map_Get (ring_run Map_Add Map_Remove (Map_New r fn) (map Join nss')) key"
proof -
  have "collision_free (Map_New r fn) (set (concat nss'))" using assms by simp
  with assms ring_joins [of "Map_New r fn"] show ?thesis
    by (intro Map_Get_cong) (simp_all add: ring.run_invar Map_inv_New claimed_set)
qed

theorem ring_members_agree_witness:
  "collision_free (Map_New 3 (Some ex_hash)) (set (concat [[''a'', ''k'']])) \<and>
   Map_Get (ring_run Map_Add Map_Remove (Map_New 3 (Some ex_hash)) (map Join [[''a'', ''k'']])) ''AW''
     = Map_Get (ring_run Map_Add Map_Remove (Map_New 3 (Some ex_hash))
         (map Join [[''k''], [''a'', ''k'']])) ''AW''"
proof -
  have "vnodes (Map_New 3 (Some ex_hash)) ''a'' \<inter> vnodes (Map_New 3 (Some ex_hash)) ''k'' = {}"
    by code_simp
  then have cf: "collision_free (Map_New 3 (Some ex_hash)) (set (concat [[''a'', ''k'']]))"
    by (simp add: collision_free_def Int_commute)
  have "set (concat [[''a'', ''k'']]) = set (concat [[''k''], [''a'', ''k'']])" by auto
  from ring_members_agree [OF cf this] cf show ?thesis by blast
qed

text \<open>
  A node that joins without colliding with a position in use and leaves again leaves no
  trace: the ring is the one it was.
\<close>

theorem ring_add_remove:
  assumes "Map_inv m" and "n \<notin> Map_nodes m" and "vnodes m n \<inter> set (m_keys m) = {}"
  shows "Map_Remove (Map_Add m [n]) n = m"
proof -
  have map: "m_hashMap (Map_Add m [n]) = (\<lambda>h. if h \<in> vnodes m n then Some n else m_hashMap m h)"
    by (simp add: Map_Add_eqs)
  have none: "m_hashMap m h = None" if "h \<in> vnodes m n" for h
    using that assms(1,3) by (auto simp: Map_inv_def)
  have other: "m_hashMap m h \<noteq> Some n" for h using assms(2) by (auto simp: Map_nodes_def ran_def)
  have "m_hashMap (Map_Remove (Map_Add m [n]) n) = m_hashMap m"
    using none other by (auto simp: Map_Remove_eqs [OF Map_inv_Add [OF assms(1)]] map fun_eq_iff)
  moreover have "m_keys (Map_Remove (Map_Add m [n]) n) = m_keys m"
    using Map_Add_Remove_keys [OF assms(1) other assms(3)] .
  moreover have "m_hash (Map_Remove (Map_Add m [n]) n) = m_hash m"
    "m_replicas (Map_Remove (Map_Add m [n]) n) = m_replicas m"
    by (simp_all add: Map_Remove_def Map_Add_eqs)
  ultimately show ?thesis by (intro Map.equality) simp_all
qed

theorem ring_add_remove_witness:
  "Map_inv ex_ring \<and> ''t'' \<notin> Map_nodes ex_ring \<and> vnodes ex_ring ''t'' \<inter> set (m_keys ex_ring) = {} \<and>
   Map_Remove (Map_Add ex_ring [''t'']) ''t'' = ex_ring"
proof -
  have "''t'' \<notin> Map_nodes ex_ring"
    using Map_nodes_Add [of "Map_New 3 (Some ex_hash)" "[''a'', ''k'']"]
    by (auto simp: ex_ring_def Map_nodes_New)
  moreover have "vnodes ex_ring ''t'' \<inter> set (m_keys ex_ring) = {}" by code_simp
  ultimately show ?thesis using ring_add_remove [OF ex_ring_inv] ex_ring_inv by blast
qed

end
