(* ===== verification/Registry.thy ===== *)
theory Registry
  imports GC_Prelude
begin

text \<open>
  \<open>registry/etcd.go\<close>: registration of a member under a lease and its upkeep. The etcd client is the
  parameter \<open>etcd\<close>, functions on the state of the world \<open>'w\<close>; \<open>KeepAlive\<close> answers a channel, which has
  a number. \<open>maintainLease\<close> is a state machine: a step is what the goroutine does on one event
  of its two \<open>select\<close> statements. A registry with its goroutines is a system of actions, in which
  callers and goroutines are interleaved.
\<close>

section \<open>The client and the registry\<close>

record 'w etcd =
  e_Grant :: "int \<Rightarrow> 'w \<Rightarrow> (error + int) \<times> 'w"
  e_Put :: "string \<Rightarrow> string \<Rightarrow> int option \<Rightarrow> 'w \<Rightarrow> error option \<times> 'w"
  e_KeepAlive :: "int \<Rightarrow> 'w \<Rightarrow> (error + int) \<times> 'w"
  e_Get :: "string \<Rightarrow> 'w \<Rightarrow> (error + (string \<times> string) list) \<times> 'w"
  e_Revoke :: "int \<Rightarrow> 'w \<Rightarrow> error option \<times> 'w"
  e_Close :: "'w \<Rightarrow> error option \<times> 'w"

text \<open>
  \<open>r_client\<close> says that the pointer is not \<open>nil\<close>, \<open>r_stop\<close> that \<open>stopCtx\<close> and \<open>stopCancel\<close>
  (assigned together) are not.
\<close>

record EtcdRegistry =
  r_client :: bool
  r_leaseID :: int
  r_regKey :: string
  r_regVal :: string
  r_regTTL :: int
  r_stop :: bool

definition second :: duration where
  "second = 10 ^ 9"

definition defaultMaxBackoff :: duration where
  "defaultMaxBackoff = 30 * second"

text \<open>\<open>log.Fatalf\<close> ends the process when the client cannot be made: no registry results.\<close>

definition NewEtcdRegistry :: "error option \<Rightarrow> EtcdRegistry option" where
  "NewEtcdRegistry dial =
     (case dial of
        Some err \<Rightarrow> None
      | None \<Rightarrow> Some \<lparr>r_client = True, r_leaseID = 0, r_regKey = [], r_regVal = [], r_regTTL = 0,
                  r_stop = False\<rparr>)"

section \<open>Registration\<close>

definition registerOnce ::
  "'w etcd \<Rightarrow> EtcdRegistry \<times> 'w \<Rightarrow> (error + int) \<times> EtcdRegistry \<times> 'w" where
  "registerOnce E = (\<lambda>(r, w).
     if \<not> r_client r then (Inl (Errorf ''registry: client closed''), r, w)
     else
       (case e_Grant E (r_regTTL r) w of
          (Inl err, w1) \<Rightarrow> (Inl err, r, w1)
        | (Inr lease, w1) \<Rightarrow>
            (case e_Put E (r_regKey r) (r_regVal r) (Some lease) w1 of
               (Some err, w2) \<Rightarrow> (Inl err, r, w2)
             | (None, w2) \<Rightarrow>
                 (case e_KeepAlive E lease w2 of
                    (Inl err, w3) \<Rightarrow> (Inl err, r, w3)
                  | (Inr ch, w3) \<Rightarrow> (Inr ch, r\<lparr>r_leaseID := lease\<rparr>, w3)))))"

text \<open>The goroutine of \<open>maintainLease\<close>.\<close>

datatype lease_phase = Consuming | Waiting | Exited

record lease_loop =
  l_phase :: lease_phase
  l_cur :: int
  l_backoff :: duration

definition maintain_start :: "int \<Rightarrow> lease_loop" where
  "maintain_start ch = \<lparr>l_phase = Consuming, l_cur = ch, l_backoff = second\<rparr>"

definition next_backoff :: "duration \<Rightarrow> duration" where
  "next_backoff backoff =
     (if backoff < defaultMaxBackoff
      then (let b = backoff * 2 in if b > defaultMaxBackoff then defaultMaxBackoff else b)
      else backoff)"

datatype lease_event = KeepAliveMsg | KeepAliveClosed | TimerFired | CtxDone

definition maintainLease ::
  "'w etcd \<Rightarrow> lease_event \<Rightarrow> lease_loop \<times> EtcdRegistry \<times> 'w \<Rightarrow> lease_loop \<times> EtcdRegistry \<times> 'w" where
  "maintainLease E ev = (\<lambda>(l, r, w).
     case (l_phase l, ev) of
       (Exited, _) \<Rightarrow> (l, r, w)
     | (_, CtxDone) \<Rightarrow> (l\<lparr>l_phase := Exited\<rparr>, r, w)
     | (Consuming, KeepAliveClosed) \<Rightarrow> (l\<lparr>l_phase := Waiting\<rparr>, r, w)
     | (Waiting, TimerFired) \<Rightarrow>
         (case registerOnce E (r, w) of
            (Inl err, r1, w1) \<Rightarrow>
              (l\<lparr>l_phase := Consuming, l_backoff := next_backoff (l_backoff l)\<rparr>, r1, w1)
          | (Inr nch, r1, w1) \<Rightarrow>
              (l\<lparr>l_phase := Consuming, l_cur := nch, l_backoff := second\<rparr>, r1, w1))
     | _ \<Rightarrow> (l, r, w))"

text \<open>\<open>Register\<close> answers the goroutine it has started.\<close>

definition Register ::
  "'w etcd \<Rightarrow> string \<Rightarrow> string \<Rightarrow> int \<Rightarrow> EtcdRegistry \<times> 'w \<Rightarrow> (error + lease_loop) \<times> EtcdRegistry \<times> 'w" where
  "Register E key val ttl = (\<lambda>(r, w).
     if r_stop r then (Inl (Errorf ''registry: already registered''), r, w)
     else
       (case registerOnce E (r\<lparr>r_regKey := key, r_regVal := val, r_regTTL := ttl, r_stop := True\<rparr>, w) of
          (Inl err, r1, w1) \<Rightarrow> (Inl err, r1\<lparr>r_stop := False\<rparr>, w1)
        | (Inr ch, r1, w1) \<Rightarrow> (Inr (maintain_start ch), r1, w1)))"

section \<open>Keys\<close>

definition PutKV ::
  "'w etcd \<Rightarrow> string \<Rightarrow> string \<Rightarrow> EtcdRegistry \<times> 'w \<Rightarrow> error option \<times> EtcdRegistry \<times> 'w" where
  "PutKV E key val = (\<lambda>(r, w).
     if \<not> r_client r then (Some (Errorf ''registry: client closed''), r, w)
     else (case e_Put E key val None w of (err, w1) \<Rightarrow> (err, r, w1)))"

definition GetServices ::
  "'w etcd \<Rightarrow> string \<Rightarrow> EtcdRegistry \<times> 'w \<Rightarrow> ((error + string list) \<times> EtcdRegistry \<times> 'w) outcome" where
  "GetServices E prefix = (\<lambda>(r, w).
     if \<not> r_client r then Panics ''nil pointer dereference''
     else
       (case e_Get E prefix w of
          (Inl err, w1) \<Rightarrow> Done (Inl err, r, w1)
        | (Inr kvs, w1) \<Rightarrow> Done (Inr (map snd kvs), r, w1)))"

section \<open>Watching\<close>

text \<open>
  The goroutines of \<open>Watch\<close> and \<open>WatchPrefix\<close> call the handler for what their channels deliver.
  \<open>WatchPrefix\<close> has read a response, a closed channel or the end of its context; it goes on while
  the context lives and there is a client, and starts to watch again after an error.
\<close>

definition Watch :: "('ev list \<Rightarrow> 's \<Rightarrow> 's) \<Rightarrow> 'ev list list \<Rightarrow> 's \<Rightarrow> 's" where
  "Watch handler responses s = fold handler responses s"

datatype 'ev watch_input = WResp "error option" "'ev list" | WChanClosed | WCtxDone

definition WatchPrefix_step ::
  "('ev list \<Rightarrow> 's \<Rightarrow> 's) \<Rightarrow> bool \<Rightarrow> 'ev watch_input \<Rightarrow> bool \<times> 's \<Rightarrow> bool \<times> 's" where
  "WatchPrefix_step handler client inp = (\<lambda>(running, s).
     if \<not> running then (False, s)
     else
       (case inp of
          WCtxDone \<Rightarrow> (False, s)
        | WChanClosed \<Rightarrow> (client, s)
        | WResp (Some err) evs \<Rightarrow> (client, s)
        | WResp None evs \<Rightarrow> (True, if evs \<noteq> [] then handler evs s else s)))"

definition WatchPrefix ::
  "('ev list \<Rightarrow> 's \<Rightarrow> 's) \<Rightarrow> bool \<Rightarrow> 'ev watch_input list \<Rightarrow> 's \<Rightarrow> bool \<times> 's" where
  "WatchPrefix handler client inps s = fold (WatchPrefix_step handler client) inps (client, s)"

section \<open>Shutdown\<close>

text \<open>
  The wait for the goroutines, bounded by two timeouts, changes nothing. The first component of
  the result says whether the context of the goroutines was cancelled.
\<close>

definition RevokeAndClose ::
  "'w etcd \<Rightarrow> EtcdRegistry \<times> 'w \<Rightarrow> bool \<times> error option \<times> EtcdRegistry \<times> 'w" where
  "RevokeAndClose E = (\<lambda>(r0, w).
     let cancel = r_stop r0; r = r0\<lparr>r_stop := False\<rparr> in
     if \<not> r_client r then (cancel, None, r, w)
     else
       (case (if r_leaseID r \<noteq> 0 then e_Revoke E (r_leaseID r) w else (None, w)) of
          (Some err, w1) \<Rightarrow> (cancel, Some err, r, w1)
        | (None, w1) \<Rightarrow>
            (case e_Close E w1 of
               (err, w2) \<Rightarrow> (cancel, err, r\<lparr>r_leaseID := 0, r_client := False\<rparr>, w2))))"

section \<open>The registry and its goroutines\<close>

datatype action =
    ARegister string string int
  | ALease nat lease_event
  | APut string string
  | AClose

type_synonym 'w system = "lease_loop list \<times> EtcdRegistry \<times> 'w"

text \<open>A cancelled context reaches a goroutine as the event \<open>CtxDone\<close>, at any later time.\<close>

fun act :: "'w etcd \<Rightarrow> action \<Rightarrow> 'w system \<Rightarrow> 'w system" where
  "act E (ARegister key val ttl) (ls, r, w) =
     (case Register E key val ttl (r, w) of
        (Inl err, r1, w1) \<Rightarrow> (ls, r1, w1)
      | (Inr l, r1, w1) \<Rightarrow> (ls @ [l], r1, w1))"
| "act E (ALease i ev) (ls, r, w) =
     (if i < length ls
      then (case maintainLease E ev (ls ! i, r, w) of (l, r1, w1) \<Rightarrow> (ls[i := l], r1, w1))
      else (ls, r, w))"
| "act E (APut key val) (ls, r, w) = (case PutKV E key val (r, w) of (_, r1, w1) \<Rightarrow> (ls, r1, w1))"
| "act E AClose (ls, r, w) = (case RevokeAndClose E (r, w) of (_, _, r1, w1) \<Rightarrow> (ls, r1, w1))"

inductive reachable :: "'w etcd \<Rightarrow> 'w system \<Rightarrow> 'w system \<Rightarrow> bool" for E :: "'w etcd" and s0 :: "'w system" where
  reach_init: "reachable E s0 s0"
| reach_step: "reachable E s0 s \<Longrightarrow> reachable E s0 (act E a s)"

section \<open>Lemmas\<close>

text \<open>
  What a client sees of etcd: the keys with their values and leases, the leases that exist, and the
  lease that each channel of \<open>KeepAlive\<close> stands for, for which keep-alive requests are sent.
\<close>

record etcd_view =
  v_kv :: "string \<Rightarrow> (string \<times> int option) option"
  v_leases :: "int set"
  v_kept :: "int \<Rightarrow> int option"

text \<open>What the client is documented to do. A call that fails may yet have had its effect on etcd.\<close>

definition etcd_ok :: "'w etcd \<Rightarrow> ('w \<Rightarrow> etcd_view) \<Rightarrow> bool" where
  "etcd_ok E view \<longleftrightarrow>
     (\<forall>ttl w l w'. e_Grant E ttl w = (Inr l, w') \<longrightarrow>
        l \<noteq> 0 \<and> l \<notin> v_leases (view w) \<and> view w' = (view w)\<lparr>v_leases := insert l (v_leases (view w))\<rparr>) \<and>
     (\<forall>ttl w err w'. e_Grant E ttl w = (Inl err, w') \<longrightarrow> v_kv (view w') = v_kv (view w) \<and> v_kept (view w') = v_kept (view w)) \<and>
     (\<forall>k v l w w'. e_Put E k v l w = (None, w') \<longrightarrow> view w' = (view w)\<lparr>v_kv := (v_kv (view w))(k \<mapsto> (v, l))\<rparr>) \<and>
     (\<forall>k v l w err w'. e_Put E k v l w = (Some err, w') \<longrightarrow>
        (\<forall>k'. k' \<noteq> k \<longrightarrow> v_kv (view w') k' = v_kv (view w) k') \<and> v_kept (view w') = v_kept (view w)) \<and>
     (\<forall>l w ch w'. e_KeepAlive E l w = (Inr ch, w') \<longrightarrow> view w' = (view w)\<lparr>v_kept := (v_kept (view w))(ch \<mapsto> l)\<rparr>) \<and>
     (\<forall>l w err w'. e_KeepAlive E l w = (Inl err, w') \<longrightarrow> view w' = view w)"

lemma etcd_okD:
  assumes "etcd_ok E view"
  shows "e_Grant E ttl w = (Inr l, w') \<Longrightarrow>
      l \<noteq> 0 \<and> l \<notin> v_leases (view w) \<and> view w' = (view w)\<lparr>v_leases := insert l (v_leases (view w))\<rparr>"
    "e_Grant E ttl w = (Inl err, w') \<Longrightarrow> v_kv (view w') = v_kv (view w) \<and> v_kept (view w') = v_kept (view w)"
    "e_Put E k v m w = (None, w') \<Longrightarrow> view w' = (view w)\<lparr>v_kv := (v_kv (view w))(k \<mapsto> (v, m))\<rparr>"
    "e_Put E k v m w = (Some err, w') \<Longrightarrow>
      (\<forall>k'. k' \<noteq> k \<longrightarrow> v_kv (view w') k' = v_kv (view w) k') \<and> v_kept (view w') = v_kept (view w)"
    "e_KeepAlive E l w = (Inr ch, w') \<Longrightarrow> view w' = (view w)\<lparr>v_kept := (v_kept (view w))(ch \<mapsto> l)\<rparr>"
    "e_KeepAlive E l w = (Inl err, w') \<Longrightarrow> view w' = view w"
  using assms unfolding etcd_ok_def by (elim conjE; metis)+

text \<open>The calls that a successful and a failing registration have made.\<close>

lemma registerOnce_calls:
  assumes "registerOnce E (r, w) = (Inr ch, r', w')"
  obtains lease w1 w2 where "r_client r" "e_Grant E (r_regTTL r) w = (Inr lease, w1)"
    "e_Put E (r_regKey r) (r_regVal r) (Some lease) w1 = (None, w2)" "e_KeepAlive E lease w2 = (Inr ch, w')"
    "r' = r\<lparr>r_leaseID := lease\<rparr>"
  using assms by (auto simp: registerOnce_def split: if_splits sum.splits option.splits prod.splits)

lemma registerOnce_ok:
  assumes "etcd_ok E view" and "registerOnce E (r, w) = (Inr ch, r', w')"
  shows "\<exists>lease. r_client r \<and> lease \<noteq> 0 \<and> lease \<notin> v_leases (view w) \<and> r' = r\<lparr>r_leaseID := lease\<rparr> \<and>
    view w' = (view w)\<lparr>v_kv := (v_kv (view w))(r_regKey r \<mapsto> (r_regVal r, Some lease)),
      v_leases := insert lease (v_leases (view w)), v_kept := (v_kept (view w))(ch \<mapsto> lease)\<rparr>"
proof -
  obtain lease w1 w2 where c: "r_client r" "e_Grant E (r_regTTL r) w = (Inr lease, w1)"
    "e_Put E (r_regKey r) (r_regVal r) (Some lease) w1 = (None, w2)" "e_KeepAlive E lease w2 = (Inr ch, w')"
    "r' = r\<lparr>r_leaseID := lease\<rparr>"
    by (rule registerOnce_calls [OF assms(2)])
  with etcd_okD(1,3,5) [OF assms(1)] show ?thesis by (intro exI [of _ lease]) simp
qed

lemma registerOnce_fail:
  assumes "registerOnce E (r, w) = (Inl err, r', w')"
  shows "r' = r" and "etcd_ok E view \<Longrightarrow> k \<noteq> r_regKey r \<Longrightarrow> v_kv (view w') k = v_kv (view w) k"
    and "etcd_ok E view \<Longrightarrow> v_kept (view w') = v_kept (view w)" and "\<not> r_client r \<Longrightarrow> w' = w"
proof -
  show "r' = r" and "\<not> r_client r \<Longrightarrow> w' = w"
    using assms by (auto simp: registerOnce_def split: if_splits sum.splits option.splits prod.splits)
  assume ok: "etcd_ok E view"
  note d = etcd_okD [OF ok]
  have "(k \<noteq> r_regKey r \<longrightarrow> v_kv (view w') k = v_kv (view w) k) \<and> v_kept (view w') = v_kept (view w)"
  proof (cases "r_client r")
    case True
    obtain g w1 where g: "e_Grant E (r_regTTL r) w = (g, w1)" by fastforce
    show ?thesis
    proof (cases g)
      case (Inl a)
      with assms g True d(2) show ?thesis by (auto simp: registerOnce_def)
    next
      case (Inr lease)
      obtain p w2 where p: "e_Put E (r_regKey r) (r_regVal r) (Some lease) w1 = (p, w2)" by fastforce
      obtain a w3 where a: "e_KeepAlive E lease w2 = (a, w3)" by fastforce
      have v1: "v_kv (view w1) = v_kv (view w)" "v_kept (view w1) = v_kept (view w)" using d(1) g Inr by simp_all
      have v2: "k \<noteq> r_regKey r \<longrightarrow> v_kv (view w2) k = v_kv (view w1) k" "v_kept (view w2) = v_kept (view w1)"
        using d(3,4) p by (cases p; auto)+
      show ?thesis using assms g True Inr p a v1 v2 d(6) by (auto simp: registerOnce_def split: option.splits sum.splits)
    qed
  qed (use assms in \<open>simp add: registerOnce_def\<close>)
  then show "k \<noteq> r_regKey r \<Longrightarrow> v_kv (view w') k = v_kv (view w) k" "v_kept (view w') = v_kept (view w)" by blast+
qed

lemma next_backoff_bounds:
  "second \<le> b \<Longrightarrow> b \<le> defaultMaxBackoff \<Longrightarrow>
   second \<le> next_backoff b \<and> next_backoff b \<le> defaultMaxBackoff"
  by (auto simp: next_backoff_def Let_def second_def)

lemma next_backoff_double:
  "0 < x \<Longrightarrow> next_backoff (min x defaultMaxBackoff) = min (2 * x) defaultMaxBackoff"
  by (auto simp: next_backoff_def min_def Let_def defaultMaxBackoff_def second_def)

lemma next_backoff_min: "next_backoff (min (2 ^ n * second) defaultMaxBackoff) =
    min (2 ^ Suc n * second) defaultMaxBackoff"
  using next_backoff_double [of "2 ^ n * second"] by (simp add: second_def mult.assoc)

lemma maintainLease_backoff:
  assumes "maintainLease E ev (l, r, w) = (l', r', w')"
    and "second \<le> l_backoff l" and "l_backoff l \<le> defaultMaxBackoff"
  shows "second \<le> l_backoff l' \<and> l_backoff l' \<le> defaultMaxBackoff"
  using assms next_backoff_bounds [of "l_backoff l"]
  by (cases "l_phase l"; cases ev)
    (auto simp: maintainLease_def second_def defaultMaxBackoff_def split: prod.splits sum.splits)

definition loops_ok :: "'w system \<Rightarrow> bool" where
  "loops_ok s \<longleftrightarrow> (\<forall>l\<in>set (fst s). second \<le> l_backoff l \<and> l_backoff l \<le> defaultMaxBackoff)"

lemma act_loops_ok:
  assumes "loops_ok s"
  shows "loops_ok (act E a s)"
proof -
  obtain ls r w where s: "s = (ls, r, w)" by (cases s)
  show ?thesis
  proof (cases a)
    case (ARegister k v t)
    obtain res r1 w1 where reg: "Register E k v t (r, w) = (res, r1, w1)" by (metis surj_pair)
    then have "second \<le> l_backoff l \<and> l_backoff l \<le> defaultMaxBackoff" if "res = Inr l" for l
      using that by (auto simp: Register_def maintain_start_def second_def defaultMaxBackoff_def
          split: if_splits prod.splits sum.splits)
    with assms s ARegister reg show ?thesis by (auto simp: loops_ok_def split: sum.splits)
  next
    case (ALease i ev)
    show ?thesis
    proof (cases "i < length ls")
      case True
      obtain l r1 w1 where m: "maintainLease E ev (ls ! i, r, w) = (l, r1, w1)" by (metis surj_pair)
      have "second \<le> l_backoff l \<and> l_backoff l \<le> defaultMaxBackoff"
        using maintainLease_backoff [OF m] assms s True by (auto simp: loops_ok_def)
      with assms s ALease True m show ?thesis
        by (auto simp: loops_ok_def dest!: set_update_subset_insert [THEN subsetD])
    qed (use assms s ALease in simp)
  qed (use assms s in \<open>auto simp: loops_ok_def split: prod.splits\<close>)
qed

text \<open>Without a client nothing reaches etcd.\<close>

lemma act_closed:
  assumes "\<not> r_client r" and "\<not> r_stop r" and "act E a (ls, r, w) = (ls', r', w')"
  shows "w' = w \<and> \<not> r_client r' \<and> \<not> r_stop r'"
proof (cases a)
  case (ALease i ev)
  show ?thesis
  proof (cases "i < length ls")
    case True
    obtain l r1 w1 where m: "maintainLease E ev (ls ! i, r, w) = (l, r1, w1)" by (metis surj_pair)
    then have "r1 = r \<and> w1 = w"
      using assms(1)
      by (cases "l_phase (ls ! i)"; cases ev)
        (auto simp: maintainLease_def registerOnce_def split: prod.splits sum.splits)
    with assms ALease True m show ?thesis by simp
  qed (use assms ALease in simp)
qed (use assms in \<open>auto simp: Register_def registerOnce_def PutKV_def RevokeAndClose_def Let_def\<close>)

lemma reachable_closed:
  "reachable E (ls0, r0, w0) s \<Longrightarrow> \<not> r_client r0 \<Longrightarrow> \<not> r_stop r0 \<Longrightarrow>
   \<exists>ls r. s = (ls, r, w0) \<and> \<not> r_client r \<and> \<not> r_stop r"
proof (induction rule: reachable.induct)
  case (reach_step s a)
  then obtain ls r where s: "s = (ls, r, w0)" "\<not> r_client r" "\<not> r_stop r" by blast
  obtain ls' r' w' where a: "act E a (ls, r, w0) = (ls', r', w')" by (metis surj_pair)
  from act_closed [OF s(2,3) a] s(1) a show ?case by simp
qed simp

text \<open>
  Runs of callers and goroutines, and how often goroutine \<open>i\<close> has failed in a row at their end: since it
  was started or has last succeeded.
\<close>

fun acts :: "'w etcd \<Rightarrow> action list \<Rightarrow> 'w system \<Rightarrow> 'w system" where
  "acts E [] s = s"
| "acts E (a # as) s = acts E as (act E a s)"

definition tries :: "nat \<Rightarrow> action \<Rightarrow> 'w system \<Rightarrow> bool" where
  "tries i a s \<longleftrightarrow> a = ALease i TimerFired \<and> i < length (fst s) \<and> l_phase (fst s ! i) = Waiting"

fun failures :: "'w etcd \<Rightarrow> nat \<Rightarrow> action list \<Rightarrow> 'w system \<Rightarrow> nat \<Rightarrow> nat" where
  "failures E i [] s n = n"
| "failures E i (a # as) s n = failures E i as (act E a s)
     (if tries i a s then (case fst (registerOnce E (snd s)) of Inl err \<Rightarrow> Suc n | Inr ch \<Rightarrow> 0) else n)"

lemma acts_reachable: "reachable E s0 s \<Longrightarrow> reachable E s0 (acts E as s)"
  by (induction as arbitrary: s) (simp_all only: acts.simps reach_step)

lemma maintainLease_backoff_eq:
  "l_backoff (fst (maintainLease E ev (l, r, w))) =
    (if l_phase l = Waiting \<and> ev = TimerFired
     then (case fst (registerOnce E (r, w)) of Inl err \<Rightarrow> next_backoff (l_backoff l) | Inr ch \<Rightarrow> second)
     else l_backoff l)"
  by (cases "l_phase l"; cases ev) (auto simp: maintainLease_def split: prod.splits sum.splits)

lemma act_length: "length ls \<le> length (fst (act E a (ls, r, w)))"
  by (cases a) (auto split: prod.splits sum.splits)

text \<open>One step of the system for the wait of goroutine \<open>i\<close>.\<close>

lemma act_backoff:
  assumes "i < length ls"
  shows "l_backoff (fst (act E a (ls, r, w)) ! i) =
    (if tries i a (ls, r, w)
     then (case fst (registerOnce E (r, w)) of Inl err \<Rightarrow> next_backoff (l_backoff (ls ! i)) | Inr ch \<Rightarrow> second)
     else l_backoff (ls ! i))"
proof (cases a)
  case (ALease k ev)
  show ?thesis
  proof (cases "k = i")
    case True
    with ALease assms maintainLease_backoff_eq [of E ev "ls ! i" r w] show ?thesis
      by (auto simp: tries_def split: prod.splits)
  next
    case False
    with ALease assms show ?thesis by (auto simp: tries_def split: prod.splits)
  qed
qed (use assms in \<open>auto simp: tries_def nth_append split: prod.splits sum.splits\<close>)

lemma act_started:
  assumes "length ls \<le> i" and "i < length (fst (act E a (ls, r, w)))"
  shows "l_backoff (fst (act E a (ls, r, w)) ! i) = second"
  using assms
  by (cases a) (auto simp: Register_def maintain_start_def nth_append split: prod.splits sum.splits if_splits)

text \<open>The wait is a function of the failures in a row.\<close>

lemma acts_backoff:
  assumes "\<And>i. i < length (fst s) \<Longrightarrow> l_backoff (fst s ! i) = min (2 ^ n i * second) defaultMaxBackoff"
    and "\<And>i. length (fst s) \<le> i \<Longrightarrow> n i = 0" and "i < length (fst (acts E as s))"
  shows "l_backoff (fst (acts E as s) ! i) = min (2 ^ failures E i as s (n i) * second) defaultMaxBackoff"
  using assms
proof (induction as arbitrary: s n)
  case (Cons a as)
  obtain ls r w where s: "s = (ls, r, w)" by (cases s)
  let ?n = "\<lambda>i. if tries i a s then (case fst (registerOnce E (snd s)) of Inl err \<Rightarrow> Suc (n i) | Inr ch \<Rightarrow> 0) else n i"
  have one: "second = min (2 ^ 0 * second) defaultMaxBackoff" by (simp add: second_def defaultMaxBackoff_def)
  have "l_backoff (fst (act E a s) ! k) = min (2 ^ ?n k * second) defaultMaxBackoff" if "k < length (fst (act E a s))" for k
  proof (cases "k < length ls")
    case True
    have "l_backoff (ls ! k) = min (2 ^ n k * second) defaultMaxBackoff" using Cons.prems(1) [of k] True s by simp
    with act_backoff [OF True, of E a r w] one show ?thesis by (simp add: s next_backoff_min split: sum.split)
  next
    case False
    then have "\<not> tries k a s" "n k = 0" using Cons.prems(2) [of k] s by (simp_all add: tries_def)
    with act_started [of ls k E a r w] that False one show ?thesis by (simp add: s)
  qed
  moreover have "?n k = 0" if "length (fst (act E a s)) \<le> k" for k
  proof -
    have "length ls \<le> k" using that act_length [of ls E a r w] s by simp
    then show ?thesis using Cons.prems(2) [of k] s by (simp add: tries_def)
  qed
  ultimately show ?case using Cons.IH [of "act E a s" ?n] Cons.prems(3) by simp
qed simp

section \<open>An etcd in memory\<close>

text \<open>The world is the key space and the next lease, or \<open>None\<close> when etcd is down.\<close>

type_synonym etcd_world = "((string \<times> string \<times> int option) list \<times> int \<times> int list) option"

definition mem_etcd :: "etcd_world etcd" where
  "mem_etcd =
     \<lparr>e_Grant = (\<lambda>ttl w. case w of None \<Rightarrow> (Inl (Errorf ''unavailable''), None)
                    | Some (kvs, n, ks) \<Rightarrow> (Inr (max 1 n), Some (kvs, max 1 n + 1, ks))),
      e_Put = (\<lambda>k v l w. case w of None \<Rightarrow> (Some (Errorf ''unavailable''), None)
                    | Some (kvs, n, ks) \<Rightarrow> (None, Some ((k, v, l) # kvs, n, ks))),
      e_KeepAlive = (\<lambda>l w. case w of None \<Rightarrow> (Inl (Errorf ''unavailable''), None)
                    | Some (kvs, n, ks) \<Rightarrow> (Inr (int (length ks)), Some (kvs, n, ks @ [l]))),
      e_Get = (\<lambda>p w. case w of None \<Rightarrow> (Inl (Errorf ''unavailable''), None)
                    | Some (kvs, n, ks) \<Rightarrow> (Inr (map (\<lambda>(k, v, l). (k, v)) (filter (\<lambda>(k, _). take (length p) k = p) kvs)),
                        Some (kvs, n, ks))),
      e_Revoke = (\<lambda>l w. case w of None \<Rightarrow> (Some (Errorf ''unavailable''), None)
                    | Some (kvs, n, ks) \<Rightarrow> (None, Some (filter (\<lambda>(_, _, l'). l' \<noteq> Some l) kvs, n, ks))),
      e_Close = (\<lambda>w. (None, w))\<rparr>"

definition mem_view :: "etcd_world \<Rightarrow> etcd_view" where
  "mem_view w =
     (case w of
        None \<Rightarrow> \<lparr>v_kv = Map.empty, v_leases = {}, v_kept = Map.empty\<rparr>
      | Some (kvs, n, ks) \<Rightarrow>
          \<lparr>v_kv = map_of kvs, v_leases = {1..<n},
           v_kept = (\<lambda>ch. if 0 \<le> ch \<and> nat ch < length ks then Some (ks ! nat ch) else None)\<rparr>)"

lemma mem_etcd_ok: "etcd_ok mem_etcd mem_view"
proof -
  have "e_Grant mem_etcd ttl w = (Inr l, w') \<Longrightarrow> l \<noteq> 0 \<and> l \<notin> v_leases (mem_view w) \<and>
      mem_view w' = (mem_view w)\<lparr>v_leases := insert l (v_leases (mem_view w))\<rparr>" for ttl w l w'
    by (auto simp: mem_etcd_def mem_view_def split: option.splits prod.splits)
  moreover have "e_KeepAlive mem_etcd l w = (Inr ch, w') \<Longrightarrow>
      mem_view w' = (mem_view w)\<lparr>v_kept := (v_kept (mem_view w))(ch \<mapsto> l)\<rparr>" for l w ch w'
    by (auto simp: mem_etcd_def mem_view_def nth_append fun_eq_iff split: option.splits prod.splits)
  moreover have "e_Grant mem_etcd ttl w = (Inl err, w') \<Longrightarrow> mem_view w' = mem_view w"
    "e_Put mem_etcd k v m w = (None, w') \<Longrightarrow> mem_view w' = (mem_view w)\<lparr>v_kv := (v_kv (mem_view w))(k \<mapsto> (v, m))\<rparr>"
    "e_Put mem_etcd k v m w = (Some err, w') \<Longrightarrow> mem_view w' = mem_view w"
    "e_KeepAlive mem_etcd l w = (Inl err, w') \<Longrightarrow> mem_view w' = mem_view w" for ttl k v m l w err w'
    by (simp_all add: mem_etcd_def mem_view_def split: option.splits prod.splits) auto
  ultimately show ?thesis unfolding etcd_ok_def by (intro conjI allI impI) metis+
qed

definition ex_registry :: EtcdRegistry where
  "ex_registry = the (NewEtcdRegistry None)"

section \<open>Properties\<close>

text \<open>
  C38: Registering is all or nothing. When \<open>Register\<close> succeeds, it has been granted a lease that did not
  exist before, the key is bound to the value under this lease, the lease is kept alive through the
  channel that the goroutine it starts listens to, and the registry remembers the lease. When it
  fails, the registry is as ready to register as before, no other key was touched and no lease is kept
  alive that was not before; a second registration is refused without any effect.
\<close>

theorem registry_register:
  assumes "etcd_ok E view" and "Register E key val ttl (r, w) = (res, r', w')"
  shows "(\<forall>l. res = Inr l \<longrightarrow>
      \<not> r_stop r \<and> r_client r \<and> r_stop r' \<and> r_client r' \<and> r_leaseID r' \<noteq> 0 \<and> r_leaseID r' \<notin> v_leases (view w) \<and>
      v_leases (view w') = insert (r_leaseID r') (v_leases (view w)) \<and>
      v_kv (view w') = (v_kv (view w))(key \<mapsto> (val, Some (r_leaseID r'))) \<and>
      (\<exists>ch. l = maintain_start ch \<and> v_kept (view w') = (v_kept (view w))(ch \<mapsto> r_leaseID r'))) \<and>
    (\<forall>err. res = Inl err \<longrightarrow>
      r_stop r' = r_stop r \<and> r_client r' = r_client r \<and> r_leaseID r' = r_leaseID r \<and>
      (\<forall>k. k \<noteq> key \<longrightarrow> v_kv (view w') k = v_kv (view w) k) \<and> v_kept (view w') = v_kept (view w)) \<and>
    (r_stop r \<longrightarrow> res = Inl (Errorf ''registry: already registered'') \<and> r' = r \<and> w' = w)"
proof (cases "r_stop r")
  case True
  with assms(2) show ?thesis by (auto simp: Register_def)
next
  case False
  let ?r = "r\<lparr>r_regKey := key, r_regVal := val, r_regTTL := ttl, r_stop := True\<rparr>"
  obtain x r1 w1 where o: "registerOnce E (?r, w) = (x, r1, w1)" by (metis surj_pair)
  show ?thesis
  proof (cases x)
    case (Inl err)
    note f = registerOnce_fail [OF o [unfolded Inl]]
    have "v_kv (view w1) k = v_kv (view w) k" if "k \<noteq> key" for k using f(2) [OF assms(1)] that by simp
    with assms(2) False o Inl f(1) f(3) [OF assms(1)] show ?thesis by (auto simp: Register_def)
  next
    case (Inr ch)
    with assms(2) False o registerOnce_ok [OF assms(1) o [unfolded Inr]] show ?thesis
      by (auto simp: Register_def)
  qed
qed

theorem registry_register_witness:
  "\<exists>l r' w'. Register mem_etcd ''/geecache/nodes/a'' ''a'' 10 (ex_registry, Some ([], 0, [])) = (Inr l, r', w') \<and>
     v_kv (mem_view w') ''/geecache/nodes/a'' = Some (''a'', Some (r_leaseID r')) \<and>
     v_kept (mem_view w') (l_cur l) = Some (r_leaseID r')"
proof -
  obtain res r' w' where e: "Register mem_etcd ''/geecache/nodes/a'' ''a'' 10 (ex_registry, Some ([], 0, [])) = (res, r', w')"
    by (metis surj_pair)
  have "fst (Register mem_etcd ''/geecache/nodes/a'' ''a'' 10 (ex_registry, Some ([], 0, [])))
    = Inr (maintain_start 0)" by code_simp
  with e registry_register [OF mem_etcd_ok e] show ?thesis by (auto simp: maintain_start_def)
qed

text \<open>
  C39: The upkeep of the lease backs off within bounds: in whatever order callers and goroutines act, a
  goroutine that has failed \<open>n\<close> times in a row, since it was started or has last succeeded, waits exactly
  \<open>2 ^ n\<close> seconds or half a minute, whichever is less, before it tries again; so the wait is between
  one second and half a minute. When it then succeeds, it goes on with the channel of the new lease and
  the shortest wait, and the new lease is the one to revoke.
\<close>

theorem registry_backoff:
  assumes "acts E as ([], r0, w0) = (ls, r, w)" and "i < length ls"
  shows "l_backoff (ls ! i) = min (2 ^ failures E i as ([], r0, w0) 0 * second) defaultMaxBackoff \<and>
    second \<le> l_backoff (ls ! i) \<and> l_backoff (ls ! i) \<le> defaultMaxBackoff \<and>
    (\<forall>ch r1 w1. l_phase (ls ! i) = Waiting \<and> registerOnce E (r, w) = (Inr ch, r1, w1) \<longrightarrow>
       act E (ALease i TimerFired) (ls, r, w) = (ls[i := maintain_start ch], r1, w1) \<and>
       (\<exists>w2 w3. e_KeepAlive E (r_leaseID r1) w2 = (Inr ch, w3)))"
proof -
  have "l_backoff (ls ! i) = min (2 ^ failures E i as ([], r0, w0) 0 * second) defaultMaxBackoff"
    using acts_backoff [of "([], r0, w0)" "\<lambda>_. 0" i E as] assms by simp
  moreover have "loops_ok s" if "reachable E ([], r0, w0) s" for s
    using that by (induction rule: reachable.induct) (simp add: loops_ok_def, rule act_loops_ok)
  from this [OF acts_reachable [OF reach_init, of E "([], r0, w0)" as]] assms
  have "second \<le> l_backoff (ls ! i) \<and> l_backoff (ls ! i) \<le> defaultMaxBackoff" by (simp add: loops_ok_def)
  moreover have "\<exists>w2 w3. e_KeepAlive E (r_leaseID r1) w2 = (Inr ch, w3)" if "registerOnce E (r, w) = (Inr ch, r1, w1)" for ch r1 w1
    by (rule registerOnce_calls [OF that]) auto
  moreover have "l\<lparr>l_phase := Consuming, l_cur := ch, l_backoff := second\<rparr> = maintain_start ch" for l ch
    by (cases l) (simp add: maintain_start_def)
  ultimately show ?thesis using assms(2) by (auto simp: maintainLease_def)
qed

text \<open>A member is registered and closed, and a goroutine that is still there tries three times.\<close>

definition ex_acts :: "action list" where
  "ex_acts = ARegister ''k'' ''v'' 10 # AClose # concat (replicate 3 [ALease 0 KeepAliveClosed, ALease 0 TimerFired])"

theorem registry_backoff_witness:
  "\<exists>ls r w. acts mem_etcd ex_acts ([], ex_registry, Some ([], 0, [])) = (ls, r, w) \<and> l_backoff (ls ! 0) = 8 * second"
proof -
  obtain ls r w where e: "acts mem_etcd ex_acts ([], ex_registry, Some ([], 0, [])) = (ls, r, w)" by (metis surj_pair)
  have "length (fst (acts mem_etcd ex_acts ([], ex_registry, Some ([], 0, [])))) = 1"
    "failures mem_etcd 0 ex_acts ([], ex_registry, Some ([], 0, [])) 0 = 3" by code_simp+
  then have l: "0 < length ls" and n: "failures mem_etcd 0 ex_acts ([], ex_registry, Some ([], 0, [])) 0 = 3" using e by simp_all
  from registry_backoff [OF e l] n have "l_backoff (ls ! 0) = 8 * second" by (simp add: second_def defaultMaxBackoff_def)
  with e show ?thesis by blast
qed

text \<open>
  A closed registry is silent: once \<open>RevokeAndClose\<close> has closed the client, no sequence of
  registrations, writes, lease events and further shutdowns reaches etcd again, and no goroutine
  that was still running can register the member anew. When the lease cannot be revoked, the client
  stays open and the lease remembered, so that the shutdown can be repeated.
\<close>

theorem registry_closed_silent:
  assumes "RevokeAndClose E (r, w) = (cancel, err, r1, w1)" and "reachable E (ls, r1, w1) (ls', r', w')"
  shows "(err = None \<or> \<not> r_client r1 \<longrightarrow> w' = w1 \<and> \<not> r_client r' \<and> \<not> r_stop r') \<and>
    (err \<noteq> None \<and> r_client r1 \<longrightarrow> r1 = r\<lparr>r_stop := False\<rparr> \<and> r_leaseID r1 \<noteq> 0) \<and> cancel = r_stop r"
proof -
  have r1: "\<not> r_stop r1" "err = None \<longrightarrow> \<not> r_client r1" "cancel = r_stop r"
    "err \<noteq> None \<and> r_client r1 \<longrightarrow> r1 = r\<lparr>r_stop := False\<rparr> \<and> r_leaseID r1 \<noteq> 0"
    using assms(1) by (auto simp: RevokeAndClose_def Let_def split: if_splits option.splits prod.splits)
  with reachable_closed [OF assms(2)] show ?thesis by auto
qed

theorem registry_closed_silent_witness:
  "\<exists>cancel r1 w1. RevokeAndClose mem_etcd (ex_registry\<lparr>r_leaseID := 3\<rparr>, Some ([(''k'', ''v'', Some 3)], 4, []))
       = (cancel, None, r1, w1) \<and>
     (\<exists>ls r. act mem_etcd (ARegister ''k'' ''v'' 10) ([], r1, w1) = (ls, r, w1))"
proof -
  obtain cancel err r1 w1 where
    c: "RevokeAndClose mem_etcd (ex_registry\<lparr>r_leaseID := 3\<rparr>, Some ([(''k'', ''v'', Some 3)], 4, [])) = (cancel, err, r1, w1)"
    by (metis surj_pair)
  have e: "err = None"
    using c by (simp add: RevokeAndClose_def mem_etcd_def ex_registry_def NewEtcdRegistry_def)
  obtain ls r w where a: "act mem_etcd (ARegister ''k'' ''v'' 10) ([], r1, w1) = (ls, r, w)"
    by (metis surj_pair)
  then have "reachable mem_etcd ([], r1, w1) (ls, r, w)"
    using reach_step [OF reach_init, of mem_etcd "([], r1, w1)" "ARegister ''k'' ''v'' 10"] by simp
  from registry_closed_silent [OF c this] e have "w = w1" by simp
  with a c e show ?thesis by blast
qed

end
