(* ===== verification/GoList.thy ===== *)
theory GoList
  imports GC_Prelude
begin

text \<open>
  Go's \<open>container/list\<close> as the packages \<open>lru\<close> uses it, together with the pattern that
  \<open>lru/cache.go\<close> and \<open>lru/arc.go\<close> build on it five times: a doubly linked list of
  elements and a map from keys to elements. An element is a reference (a \<open>nat\<close>, fresh
  for every \<open>PushFront\<close>) paired with the value it carries; the list is kept front first.
  \<open>indexed\<close> is the invariant that ties the map to the list, and the lemmas say how the
  list operations, done together with the matching map update, keep it.
\<close>

section \<open>Operations of container/list\<close>

type_synonym ele = nat
type_synonym 'a golist = "(ele \<times> 'a) list"

text \<open>\<open>e.Value\<close> of an element of the list.\<close>

definition list_Value :: "'a golist \<Rightarrow> ele \<Rightarrow> 'a option" where
  "list_Value l e = map_of l e"

definition list_Remove :: "ele \<Rightarrow> 'a golist \<Rightarrow> 'a golist" where
  "list_Remove e l = filter (\<lambda>x. fst x \<noteq> e) l"

definition list_PushFront :: "ele \<Rightarrow> 'a \<Rightarrow> 'a golist \<Rightarrow> 'a golist" where
  "list_PushFront e v l = (e, v) # l"

definition list_MoveToFront :: "ele \<Rightarrow> 'a golist \<Rightarrow> 'a golist" where
  "list_MoveToFront e l =
     (case map_of l e of None \<Rightarrow> l | Some v \<Rightarrow> (e, v) # list_Remove e l)"

definition list_Back :: "'a golist \<Rightarrow> (ele \<times> 'a) option" where
  "list_Back l = (if l = [] then None else Some (last l))"

text \<open>Assignment through the pointer an element carries (\<open>e.Value.(*T).f = v\<close>).\<close>

definition list_SetValue :: "ele \<Rightarrow> 'a \<Rightarrow> 'a golist \<Rightarrow> 'a golist" where
  "list_SetValue e v l = map (\<lambda>x. if fst x = e then (e, v) else x) l"

section \<open>Lists with a key index\<close>

text \<open>The values of the list, front first: what the list means to its client.\<close>

definition vals :: "'a golist \<Rightarrow> 'a list" where
  "vals l = map snd l"

text \<open>
  \<open>indexed key l m n\<close>: elements and keys of \<open>l\<close> are distinct, \<open>m\<close> maps exactly the
  keys of \<open>l\<close> to their elements, and every element was allocated before \<open>n\<close>.
\<close>

definition indexed :: "('a \<Rightarrow> string) \<Rightarrow> 'a golist \<Rightarrow> (string \<Rightarrow> ele option) \<Rightarrow> nat \<Rightarrow> bool" where
  "indexed key l m n \<longleftrightarrow>
     distinct (map fst l) \<and> distinct (map key (vals l)) \<and>
     m = map_of (map (\<lambda>x. (key (snd x), fst x)) l) \<and> (\<forall>x\<in>set l. fst x < n)"

definition keys_of :: "('a \<Rightarrow> string) \<Rightarrow> 'a golist \<Rightarrow> string set" where
  "keys_of key l = key ` set (vals l)"

lemma indexedD:
  assumes "indexed key l m n"
  shows "distinct (map fst l)" "distinct (map key (vals l))"
    "distinct (map (\<lambda>x. key (snd x)) l)" "\<And>x. x \<in> set l \<Longrightarrow> fst x < n"
  using assms by (auto simp: indexed_def vals_def comp_def)

lemma indexed_empty [simp, intro]: "indexed key [] (\<lambda>_. None) n"
  by (simp add: indexed_def vals_def)

lemma indexed_lookup:
  assumes "indexed key l m n"
  shows "m k = Some e \<longleftrightarrow> (\<exists>v. (e, v) \<in> set l \<and> key v = k)"
proof -
  let ?p = "\<lambda>x. (key (snd x), fst x)"
  have d: "distinct (map fst (map ?p l))"
    using assms by (simp add: indexed_def vals_def comp_def)
  have "m k = Some e \<longleftrightarrow> (k, e) \<in> set (map ?p l)"
    using assms map_of_eq_Some_iff [OF d] by (simp add: indexed_def)
  then show ?thesis by force
qed

lemma indexed_None:
  assumes "indexed key l m n"
  shows "m k = None \<longleftrightarrow> k \<notin> keys_of key l"
proof -
  have "m k = None \<longleftrightarrow> k \<notin> fst ` set (map (\<lambda>x. (key (snd x), fst x)) l)"
    using assms by (simp add: indexed_def map_of_eq_None_iff del: set_map)
  then show ?thesis by (simp add: keys_of_def vals_def image_comp comp_def)
qed

lemma indexed_dom: "indexed key l m n \<Longrightarrow> dom m = keys_of key l"
  using indexed_None [of key l m n] by (auto simp: dom_def)

lemma indexed_Value:
  assumes "indexed key l m n" and "m k = Some e"
  obtains v where "list_Value l e = Some v" "(e, v) \<in> set l" "key v = k"
proof -
  from assms obtain v where v: "(e, v) \<in> set l" "key v = k"
    using indexed_lookup by blast
  then have "list_Value l e = Some v"
    using indexedD(1) [OF assms(1)] by (simp add: list_Value_def)
  from this v show thesis by (rule that)
qed

lemma distinct_map_filterI: "distinct (map f xs) \<Longrightarrow> distinct (map f (filter P xs))"
  by (induction xs) auto

lemma map_of_del_key: "map_of (filter (\<lambda>x. fst x \<noteq> k) xs) = (map_of xs)(k := None)"
  by (induction xs) (auto simp: fun_upd_twist)

lemma indexed_unique:
  assumes "indexed key l m n" and "x \<in> set l" and "y \<in> set l"
  shows "fst x = fst y \<longleftrightarrow> x = y" and "key (snd x) = key (snd y) \<longleftrightarrow> x = y"
  using indexedD(1,3) [OF assms(1)] assms(2,3) by (auto simp: distinct_map inj_on_def)

text \<open>Removing the element of a key, from the list and from the map.\<close>

lemma indexed_Remove_eq:
  assumes "indexed key l m n" and "(e, v) \<in> set l"
  shows "list_Remove e l = filter (\<lambda>x. key (snd x) \<noteq> key v) l"
  unfolding list_Remove_def
  using indexed_unique [OF assms(1) _ assms(2)] by (intro filter_cong) auto

lemma indexed_Remove:
  assumes "indexed key l m n" and "(e, v) \<in> set l" and "k = key v"
  shows "indexed key (list_Remove e l) (m(k := None)) n"
proof -
  let ?p = "\<lambda>x. (key (snd x), fst x)"
  have eq: "list_Remove e l = filter (\<lambda>x. key (snd x) \<noteq> k) l"
    using indexed_Remove_eq [OF assms(1,2)] assms(3) by simp
  have m: "m = map_of (map ?p l)" using assms(1) by (simp add: indexed_def)
  have "m(k := None) = map_of (map ?p (filter (\<lambda>x. key (snd x) \<noteq> k) l))"
    unfolding m using map_of_del_key [of k "map ?p l"] by (simp add: filter_map comp_def)
  then show ?thesis
    using assms(1) unfolding eq
    by (auto simp: indexed_def vals_def distinct_map_filterI comp_def)
qed

lemma indexed_PushFront:
  assumes "indexed key l m n" and "key v \<notin> keys_of key l" and "k = key v"
  shows "indexed key (list_PushFront n v l) (m(k \<mapsto> n)) (Suc n)"
  using assms by (force simp: indexed_def list_PushFront_def keys_of_def vals_def)

lemma indexed_mono: "indexed key l m n \<Longrightarrow> n \<le> n' \<Longrightarrow> indexed key l m n'"
  by (force simp: indexed_def)

text \<open>Moving an element to the front changes only the order.\<close>

lemma list_MoveToFront_eq:
  assumes "indexed key l m n" and "(e, v) \<in> set l"
  shows "list_MoveToFront e l = (e, v) # list_Remove e l"
  using assms indexedD(1) [OF assms(1)] by (simp add: list_MoveToFront_def)

lemma map_of_move_front:
  assumes "distinct (map fst xs)" and "(k, v) \<in> set xs"
  shows "map_of ((k, v) # filter (\<lambda>x. fst x \<noteq> k) xs) = map_of xs"
proof
  fix j
  have "j \<noteq> k \<Longrightarrow> map_of (filter (\<lambda>x. fst x \<noteq> k) xs) j = map_of xs j"
    by (induction xs) auto
  with assms show "map_of ((k, v) # filter (\<lambda>x. fst x \<noteq> k) xs) j = map_of xs j" by simp
qed

lemma indexed_MoveToFront:
  assumes "indexed key l m n" and "(e, v) \<in> set l"
  shows "indexed key (list_MoveToFront e l) m n"
proof -
  let ?p = "\<lambda>x. (key (snd x), fst x)"
  let ?r = "filter (\<lambda>x. key (snd x) \<noteq> key v) l"
  have eq: "list_MoveToFront e l = (e, v) # ?r"
    using list_MoveToFront_eq [OF assms] indexed_Remove_eq [OF assms] by simp
  have "map_of (map ?p ((e, v) # ?r))
      = map_of ((key v, e) # filter (\<lambda>x. fst x \<noteq> key v) (map ?p l))"
    by (simp add: filter_map comp_def)
  also have "\<dots> = map_of (map ?p l)"
    using indexedD(3) [OF assms(1)] assms(2)
    by (intro map_of_move_front) (force simp: comp_def)+
  also have "\<dots> = m" using assms(1) by (simp add: indexed_def)
  finally have "m = map_of (map ?p ((e, v) # ?r))" ..
  moreover have "e \<notin> fst ` set ?r"
    using indexed_unique(1) [OF assms(1) _ assms(2)] by fastforce
  ultimately show ?thesis
    using assms unfolding eq
    by (auto simp: indexed_def vals_def distinct_map_filterI comp_def)
qed

lemma set_MoveToFront:
  assumes "indexed key l m n" and "(e, v) \<in> set l"
  shows "set (list_MoveToFront e l) = set l"
  using assms(2) indexed_unique(1) [OF assms(1) _ assms(2)]
  unfolding list_MoveToFront_eq [OF assms] by (auto simp: list_Remove_def)

text \<open>Writing through the pointer of an element, its key unchanged.\<close>

lemma indexed_SetValue:
  assumes "indexed key l m n" and "(e, v) \<in> set l" and "key w = key v"
  shows "indexed key (list_SetValue e w l) m n"
proof -
  have k: "map (\<lambda>x. (key (snd x), fst x)) (list_SetValue e w l)
      = map (\<lambda>x. (key (snd x), fst x)) l"
    using assms(3) indexed_unique(1) [OF assms(1) _ assms(2)]
    by (auto simp: list_SetValue_def)
  have f: "map fst (list_SetValue e w l) = map fst l"
    by (auto simp: list_SetValue_def)
  have "map key (vals (list_SetValue e w l)) = map key (vals l)"
    using arg_cong [OF k, of "map fst"] by (simp add: vals_def comp_def)
  moreover have "\<forall>x\<in>set (list_SetValue e w l). fst x < n"
    using assms(1) arg_cong [OF f, of set] by (force simp: indexed_def)
  ultimately show ?thesis
    using assms(1) k f by (simp add: indexed_def)
qed

text \<open>The back element.\<close>

lemma list_Back_None [simp]: "list_Back l = None \<longleftrightarrow> l = []"
  by (simp add: list_Back_def)

lemma list_Back_Some: "list_Back l = Some (e, v) \<Longrightarrow> l = butlast l @ [(e, v)]"
  by (auto simp: list_Back_def split: if_splits) (metis append_butlast_last_id)

lemma indexed_Remove_Back:
  assumes "indexed key l m n" and "list_Back l = Some (e, v)"
  shows "list_Remove e l = butlast l"
proof -
  have l: "l = butlast l @ [(e, v)]" using assms(2) by (rule list_Back_Some)
  have "distinct (map fst (butlast l @ [(e, v)]))"
    using indexedD(1) [OF assms(1)] l by simp
  then have "filter (\<lambda>x. fst x \<noteq> e) (butlast l) = butlast l"
    by (intro filter_True) auto
  then have "list_Remove e (butlast l @ [(e, v)]) = butlast l"
    by (simp add: list_Remove_def)
  with l show ?thesis by simp
qed

lemma list_Back_in: "list_Back l = Some (e, v) \<Longrightarrow> (e, v) \<in> set l"
  by (auto simp: list_Back_def split: if_splits) (metis last_in_set)

lemma vals_simps [simp]:
  "vals [] = []" "vals (x # l) = snd x # vals l" "vals (l @ l') = vals l @ vals l'" "vals (butlast l) = butlast (vals l)"
  "vals (list_PushFront e v l) = v # vals l" "length (vals l) = length l"
  by (simp_all add: vals_def list_PushFront_def map_butlast)

lemma vals_Back: "list_Back l = Some (e, v) \<Longrightarrow> vals l = butlast (vals l) @ [v]"
  by (metis append_butlast_last_id last_map list_Back_def map_is_Nil_conv
      option.distinct(1) option.inject snd_conv vals_def)

lemma vals_Remove:
  assumes "indexed key l m n" and "(e, v) \<in> set l"
  shows "vals (list_Remove e l) = filter (\<lambda>w. key w \<noteq> key v) (vals l)"
  using indexed_Remove_eq [OF assms] by (simp add: vals_def filter_map comp_def)

lemma vals_MoveToFront:
  assumes "indexed key l m n" and "(e, v) \<in> set l"
  shows "vals (list_MoveToFront e l) = v # filter (\<lambda>w. key w \<noteq> key v) (vals l)"
  using vals_Remove [OF assms] by (simp add: list_MoveToFront_eq [OF assms])

lemma keys_of_simps [simp]:
  "keys_of key [] = {}" "keys_of key (x # l) = insert (key (snd x)) (keys_of key l)"
  "keys_of key (list_PushFront e v l) = insert (key v) (keys_of key l)"
  by (simp_all add: keys_of_def)

lemma keys_of_Remove:
  assumes "indexed key l m n" and "(e, v) \<in> set l"
  shows "keys_of key (list_Remove e l) = keys_of key l - {key v}"
  by (auto simp: keys_of_def vals_Remove [OF assms])

lemma keys_of_MoveToFront:
  assumes "indexed key l m n" and "(e, v) \<in> set l"
  shows "keys_of key (list_MoveToFront e l) = keys_of key l"
  by (simp add: keys_of_def vals_def set_MoveToFront [OF assms])

lemma in_keys_of: "(e, v) \<in> set l \<Longrightarrow> key v \<in> keys_of key l"
  by (force simp: keys_of_def vals_def)

section \<open>Indexed lists with a byte count\<close>

text \<open>An indexed list together with a counter that holds the sizes of its values.\<close>

definition part ::
  "('a \<Rightarrow> string) \<Rightarrow> ('a \<Rightarrow> int) \<Rightarrow> 'a golist \<Rightarrow> (string \<Rightarrow> ele option) \<Rightarrow> int \<Rightarrow> nat \<Rightarrow> bool"
  where
  "part key sz l m t n \<longleftrightarrow> indexed key l m n \<and> t = (\<Sum>v\<leftarrow>vals l. sz v)"

lemma part_empty [simp, intro]: "part key sz [] (\<lambda>_. None) 0 n"
  by (simp add: part_def)

lemma part_indexed: "part key sz l m t n \<Longrightarrow> indexed key l m n"
  by (simp add: part_def)

lemma part_total: "part key sz l m t n \<Longrightarrow> t = (\<Sum>v\<leftarrow>vals l. sz v)"
  by (simp add: part_def)

lemma part_nonneg: "part key sz l m t n \<Longrightarrow> (\<And>v. 0 \<le> sz v) \<Longrightarrow> 0 \<le> t"
  by (simp add: part_def sum_list_nonneg_int)

lemma part_mono: "part key sz l m t n \<Longrightarrow> n \<le> n' \<Longrightarrow> part key sz l m t n'"
  by (auto simp: part_def intro: indexed_mono)

lemma part_Remove:
  assumes "part key sz l m t n" and "(e, v) \<in> set l" and "k = key v" and "t' = t - sz v"
  shows "part key sz (list_Remove e l) (m(k := None)) t' n"
proof -
  note ix = part_indexed [OF assms(1)]
  have "v \<in> set (vals l)" using assms(2) by (force simp: vals_def)
  then have "(\<Sum>w\<leftarrow>vals (list_Remove e l). sz w) = (\<Sum>w\<leftarrow>vals l. sz w) - sz v"
    using sum_list_filter_remove [OF indexedD(2) [OF ix], of v sz]
    by (simp add: vals_Remove [OF ix assms(2)])
  with assms indexed_Remove [OF ix assms(2,3)] show ?thesis by (simp add: part_def)
qed

lemma part_PushFront:
  assumes "part key sz l m t n" and "key v \<notin> keys_of key l" and "k = key v" and "t' = t + sz v"
  shows "part key sz (list_PushFront n v l) (m(k \<mapsto> n)) t' (Suc n)"
  using assms indexed_PushFront [of key l m n v k] by (simp add: part_def)

lemma part_hit:
  assumes "part key sz l m t n" and "m k = Some e"
  obtains v where "list_Value l e = Some v" "(e, v) \<in> set l" "key v = k"
  using indexed_Value [OF part_indexed [OF assms(1)] assms(2)] by blast

lemma part_dom: "part key sz l m t n \<Longrightarrow> m k \<noteq> None \<longleftrightarrow> k \<in> keys_of key l"
  by (simp add: indexed_None [OF part_indexed])

lemma part_None: "part key sz l m t n \<Longrightarrow> m k = None \<longleftrightarrow> k \<notin> keys_of key l"
  by (simp add: indexed_None [OF part_indexed])

lemma length_Remove: "(e, v) \<in> set l \<Longrightarrow> length (list_Remove e l) < length l"
  unfolding list_Remove_def by (rule length_filter_less) auto

end
