(* ===== verification/ByteView.thy ===== *)
theory ByteView
  imports GC_Prelude
begin

text \<open>
  The value types of the cache: \<open>geecache/byteview.go\<close>, \<open>geecache/ttl.go\<close> and the
  interface \<open>Value\<close> of \<open>lru/cache.go\<close>.

  \<open>ByteView\<close> promises that nobody outside can change what a view holds. That is a claim
  about aliasing, so the first part models the functions on a memory of byte arrays, where a
  slice is the address of its array, and proves the promise against any client. The second
  part is the same code on values, which is what the other components use; the last lemmas
  tie the two together.
\<close>

section \<open>Byte slices in memory\<close>

type_synonym slice = nat

record memory =
  arrays :: "slice \<Rightarrow> bytes option"
  brk :: nat

definition valid_mem :: "memory \<Rightarrow> bool" where
  "valid_mem m \<longleftrightarrow> (\<forall>a\<ge>brk m. arrays m a = None)"

text \<open>The bytes of a slice; the nil slice and an unallocated one have none.\<close>

definition content :: "memory \<Rightarrow> slice \<Rightarrow> bytes" where
  "content m a = (case arrays m a of None \<Rightarrow> [] | Some bs \<Rightarrow> bs)"

definition mem_make :: "nat \<Rightarrow> memory \<Rightarrow> slice \<times> memory" where
  "mem_make n m =
     (brk m, m\<lparr>arrays := (arrays m)(brk m \<mapsto> replicate n (CHR 0x00)), brk := Suc (brk m)\<rparr>)"

text \<open>The built-in \<open>copy\<close>: \<open>min (len dst) (len src)\<close> bytes.\<close>

definition go_copy :: "bytes \<Rightarrow> bytes \<Rightarrow> bytes" where
  "go_copy dst src = take (length dst) src @ drop (length src) dst"

definition mem_copy :: "slice \<Rightarrow> slice \<Rightarrow> memory \<Rightarrow> memory" where
  "mem_copy dst src m =
     m\<lparr>arrays := (arrays m)(dst \<mapsto> go_copy (content m dst) (content m src))\<rparr>"

text \<open>\<open>a[i] = x\<close>; an index out of range panics and changes nothing.\<close>

definition mem_write :: "slice \<Rightarrow> nat \<Rightarrow> char \<Rightarrow> memory \<Rightarrow> memory" where
  "mem_write a i x m =
     (case arrays m a of None \<Rightarrow> m
      | Some bs \<Rightarrow> if i < length bs then m\<lparr>arrays := (arrays m)(a \<mapsto> bs[i := x])\<rparr> else m)"

definition cloneBytes_mem :: "slice \<Rightarrow> memory \<Rightarrow> slice \<times> memory" where
  "cloneBytes_mem b m =
     (let (c, m1) = mem_make (length (content m b)) m in (c, mem_copy c b m1))"

record ByteView_mem =
  b_mem :: slice

definition NewByteView_mem :: "slice \<Rightarrow> memory \<Rightarrow> ByteView_mem \<times> memory" where
  "NewByteView_mem b m = (let (c, m1) = cloneBytes_mem b m in (\<lparr>b_mem = c\<rparr>, m1))"

definition ByteSlice_mem :: "ByteView_mem \<Rightarrow> memory \<Rightarrow> slice \<times> memory" where
  "ByteSlice_mem v m = cloneBytes_mem (b_mem v) m"

definition String_mem :: "ByteView_mem \<Rightarrow> memory \<Rightarrow> string" where
  "String_mem v m = content m (b_mem v)"

lemma go_copy_same: "length dst = length src \<Longrightarrow> go_copy dst src = src"
  by (simp add: go_copy_def)

text \<open>What \<open>cloneBytes\<close> does to memory: one fresh array with the same bytes.\<close>

lemma cloneBytes_mem_eq:
  assumes "valid_mem m" and "b < brk m"
  shows "cloneBytes_mem b m =
    (brk m, m\<lparr>arrays := (arrays m)(brk m \<mapsto> content m b), brk := Suc (brk m)\<rparr>)"
  using assms
  by (auto simp: cloneBytes_mem_def mem_make_def mem_copy_def content_def go_copy_same)

lemma valid_mem_clone:
  "valid_mem m \<Longrightarrow> b < brk m \<Longrightarrow> valid_mem (snd (cloneBytes_mem b m))"
  by (simp add: cloneBytes_mem_eq) (simp add: valid_mem_def)

lemma content_clone:
  assumes "valid_mem m" and "b < brk m" and "a < brk m"
  shows "content (snd (cloneBytes_mem b m)) a = content m a"
  using assms by (simp add: cloneBytes_mem_eq content_def)

lemma clone_fresh [simp]:
  "fst (cloneBytes_mem b m) = brk m" "brk (snd (cloneBytes_mem b m)) = Suc (brk m)"
  by (simp_all add: cloneBytes_mem_def mem_make_def mem_copy_def)

text \<open>
  A client of a view. It holds some slices (everything allocated before the view was made,
  and whatever it was handed since) and may write through them, ask the view for its bytes,
  or allocate. It is never given the array inside the view.
\<close>

inductive client :: "ByteView_mem \<Rightarrow> memory \<times> slice set \<Rightarrow> memory \<times> slice set \<Rightarrow> bool"
  for v where
  cl_write: "a \<in> own \<Longrightarrow> client v (m, own) (mem_write a i x m, own)"
| cl_slice: "ByteSlice_mem v m = (s, m') \<Longrightarrow> client v (m, own) (m', insert s own)"
| cl_alloc: "mem_make n m = (s, m') \<Longrightarrow> client v (m, own) (m', insert s own)"

definition client_inv :: "ByteView_mem \<Rightarrow> bytes \<Rightarrow> memory \<times> slice set \<Rightarrow> bool" where
  "client_inv v bs s \<longleftrightarrow> (case s of (m, own) \<Rightarrow>
     valid_mem m \<and> b_mem v < brk m \<and> b_mem v \<notin> own \<and> content m (b_mem v) = bs)"

lemma client_inv_step: "client v s t \<Longrightarrow> client_inv v bs s \<Longrightarrow> client_inv v bs t"
proof (induction rule: client.induct)
  case (cl_write a own m i x)
  then show ?case
    by (auto simp: client_inv_def valid_mem_def content_def mem_write_def split: option.splits)
next
  case (cl_slice m s m' own)
  then show ?case
    using valid_mem_clone [of m "b_mem v"] content_clone [of m "b_mem v" "b_mem v"]
    by (auto simp: client_inv_def ByteSlice_mem_def prod_eq_iff)
next
  case (cl_alloc n m s m' own)
  then show ?case
    by (auto simp: client_inv_def mem_make_def valid_mem_def content_def)
qed

lemma client_inv_steps: "(client v)\<^sup>*\<^sup>* s t \<Longrightarrow> client_inv v bs s \<Longrightarrow> client_inv v bs t"
  by (induction rule: rtranclp_induct) (auto intro: client_inv_step)

lemma NewByteView_client_inv:
  assumes "valid_mem m" and "b < brk m" and "NewByteView_mem b m = (v, m1)"
  shows "client_inv v (content m b) (m1, {a. a < brk m})"
  using assms valid_mem_clone [OF assms(1,2)]
  by (auto simp: client_inv_def NewByteView_mem_def cloneBytes_mem_eq content_def)

section \<open>The same code on values\<close>

record ByteView =
  bv_b :: bytes

definition cloneBytes :: "bytes \<Rightarrow> bytes" where
  "cloneBytes b = go_copy (replicate (length b) (CHR 0x00)) b"

definition NewByteView :: "bytes \<Rightarrow> ByteView" where
  "NewByteView b = \<lparr>bv_b = cloneBytes b\<rparr>"

definition ByteView_Len :: "ByteView \<Rightarrow> int" where
  "ByteView_Len v = len (bv_b v)"

definition ByteSlice :: "ByteView \<Rightarrow> bytes" where
  "ByteSlice v = cloneBytes (bv_b v)"

definition ByteView_String :: "ByteView \<Rightarrow> string" where
  "ByteView_String v = bv_b v"

definition ByteView_Equal :: "ByteView \<Rightarrow> ByteView \<Rightarrow> bool" where
  "ByteView_Equal v other \<longleftrightarrow> ByteView_String v = ByteView_String other"

record ttlEntry =
  view :: ByteView
  until :: time

definition ttlEntry_Len :: "ttlEntry \<Rightarrow> int" where
  "ttlEntry_Len e = ByteView_Len (view e)"

text \<open>
  The interface \<open>Value\<close>: the types of the repository that implement it and are stored in a
  cache are \<open>ByteView\<close> and \<open>ttlEntry\<close>, and \<open>Len\<close> is dispatched on them.
\<close>

datatype Value = VView ByteView | VTtl ttlEntry

fun Value_Len :: "Value \<Rightarrow> int" where
  "Value_Len (VView v) = ByteView_Len v"
| "Value_Len (VTtl e) = ttlEntry_Len e"

lemma cloneBytes_id [simp]: "cloneBytes b = b"
  by (simp add: cloneBytes_def go_copy_same)

lemma NewByteView_simps [simp]:
  "bv_b (NewByteView b) = b" "ByteSlice (NewByteView b) = b"
  "ByteView_String (NewByteView b) = b" "ByteView_Len (NewByteView b) = len b"
  by (simp_all add: NewByteView_def ByteSlice_def ByteView_String_def ByteView_Len_def)

lemma ByteSlice_id [simp]: "ByteSlice v = bv_b v"
  by (simp add: ByteSlice_def)

lemma NewByteView_id [simp]: "NewByteView (bv_b v) = v"
  by (simp add: NewByteView_def)

lemma Value_Len_nonneg [simp]: "0 \<le> Value_Len v"
  by (cases v) (simp_all add: ByteView_Len_def ttlEntry_Len_def)

text \<open>The value-level code computes what the code on memory leaves there.\<close>

lemma NewByteView_refines:
  assumes "valid_mem m" and "b < brk m" and "NewByteView_mem b m = (v, m1)"
  shows "NewByteView (content m b) = \<lparr>bv_b = content m1 (b_mem v)\<rparr>"
  using assms by (auto simp: NewByteView_mem_def cloneBytes_mem_eq content_def NewByteView_def)

lemma ByteSlice_refines:
  assumes "valid_mem m" and "b_mem v < brk m" and "ByteSlice_mem v m = (s, m1)"
  shows "ByteSlice \<lparr>bv_b = content m (b_mem v)\<rparr> = content m1 s"
  using assms by (auto simp: ByteSlice_mem_def cloneBytes_mem_eq content_def)

section \<open>Immutability\<close>

definition mem_example :: memory where
  "mem_example = \<lparr>arrays = [0 \<mapsto> ''tom''], brk = 1\<rparr>"

text \<open>
  C32: A view made of a slice keeps reading as the bytes the slice had at that moment, whatever a
  client does afterwards: overwrite the slice it passed in, ask for \<open>ByteSlice\<close> any number of
  times and overwrite what it was handed, or allocate.
\<close>

theorem byteview_immutable:
  assumes "valid_mem m" and "b < brk m" and "NewByteView_mem b m = (v, m1)"
    and "(client v)\<^sup>*\<^sup>* (m1, {a. a < brk m}) (m2, own)"
  shows "String_mem v m2 = content m b"
  using client_inv_steps [OF assms(4) NewByteView_client_inv [OF assms(1-3)]]
  by (simp add: client_inv_def String_mem_def)

theorem byteview_immutable_witness:
  "case NewByteView_mem 0 mem_example of (v, m1) \<Rightarrow>
     (case ByteSlice_mem v (mem_write 0 0 (CHR ''r'') m1) of (s, m2) \<Rightarrow>
        content (mem_write s 1 (CHR ''i'') m2) 0 = ''rom'' \<and>
        content (mem_write s 1 (CHR ''i'') m2) s = ''tim'' \<and>
        String_mem v (mem_write s 1 (CHR ''i'') m2) = ''tom'')"
proof -
  obtain v m1 where new: "NewByteView_mem 0 mem_example = (v, m1)" by fastforce
  obtain s m2 where sl: "ByteSlice_mem v (mem_write 0 0 (CHR ''r'') m1) = (s, m2)" by fastforce
  have "valid_mem mem_example" by (auto simp: mem_example_def valid_mem_def)
  moreover have "0 < brk mem_example" by (simp add: mem_example_def)
  moreover have "(client v)\<^sup>*\<^sup>* (m1, {a. a < brk mem_example})
      (mem_write s 1 (CHR ''i'') m2, insert s {a. a < brk mem_example})"
  proof -
    let ?o = "{a. a < brk mem_example}" and ?m = "mem_write 0 0 (CHR ''r'') m1"
    have "client v (m1, ?o) (?m, ?o)" by (rule cl_write) (simp add: mem_example_def)
    moreover have "client v (?m, ?o) (m2, insert s ?o)" using sl by (rule cl_slice)
    moreover have "client v (m2, insert s ?o) (mem_write s 1 (CHR ''i'') m2, insert s ?o)"
      by (rule cl_write) simp
    ultimately show ?thesis
      by (meson converse_rtranclp_into_rtranclp r_into_rtranclp)
  qed
  ultimately have "String_mem v (mem_write s 1 (CHR ''i'') m2) = content mem_example 0"
    using byteview_immutable [OF _ _ new] by blast
  moreover have "content mem_example 0 = ''tom''" by code_simp
  moreover have "case NewByteView_mem 0 mem_example of (v, m1) \<Rightarrow>
     (case ByteSlice_mem v (mem_write 0 0 (CHR ''r'') m1) of (s, m2) \<Rightarrow>
        content (mem_write s 1 (CHR ''i'') m2) 0 = ''rom'' \<and>
        content (mem_write s 1 (CHR ''i'') m2) s = ''tim'')" by code_simp
  ultimately show ?thesis using new sl by simp
qed

end
