(* ===== verification/CacheStore.thy ===== *)
theory CacheStore
  imports ByteView
begin

text \<open>
  The interface \<open>lru.CacheStore\<close> of \<open>lru/policy.go\<close>: what a byte-bounded cache promises to
  \<open>geecache.Group\<close>, whichever eviction policy is behind it. The locale names the three
  methods, an invariant, the finite map a store stands for (\<open>entries\<close>) and the condition
  under which an insertion is admitted. The client's lemma, proved once here, is that a
  store run through any sequence of operations is a lossy map: it may forget, but it never
  answers with anything but the value an unbounded map would hold.

  \<open>lru/cache.go\<close>, \<open>lru/lfu.go\<close> and \<open>lru/arc.go\<close> are the three providers; each theory
  interprets the locale on its own definitions.
\<close>

section \<open>Operations and runs\<close>

text \<open>The calls of \<open>onEvicted\<close>, in order.\<close>

type_synonym evictions = "(string \<times> Value) list"

datatype store_op = OpGet string | OpAdd string Value | OpRemove string

text \<open>A run of operations; \<open>None\<close> if some \<open>Add\<close> never returns.\<close>

fun run_ops ::
  "('s \<Rightarrow> string \<Rightarrow> Value option \<times> 's) \<Rightarrow>
   ('s \<Rightarrow> string \<Rightarrow> Value \<Rightarrow> ('s \<times> evictions) option) \<Rightarrow>
   ('s \<Rightarrow> string \<Rightarrow> bool \<times> 's) \<Rightarrow> 's \<Rightarrow> store_op list \<Rightarrow> 's option" where
  "run_ops get add remove s [] = Some s"
| "run_ops get add remove s (OpGet k # xs) = run_ops get add remove (snd (get s k)) xs"
| "run_ops get add remove s (OpAdd k v # xs) =
     (case add s k v of None \<Rightarrow> None | Some (s', _) \<Rightarrow> run_ops get add remove s' xs)"
| "run_ops get add remove s (OpRemove k # xs) = run_ops get add remove (snd (remove s k)) xs"

text \<open>Every insertion of the run is admitted in the state it meets.\<close>

fun admitted ::
  "('s \<Rightarrow> string \<Rightarrow> Value option \<times> 's) \<Rightarrow>
   ('s \<Rightarrow> string \<Rightarrow> Value \<Rightarrow> ('s \<times> evictions) option) \<Rightarrow>
   ('s \<Rightarrow> string \<Rightarrow> bool \<times> 's) \<Rightarrow> ('s \<Rightarrow> string \<Rightarrow> Value \<Rightarrow> bool) \<Rightarrow>
   's \<Rightarrow> store_op list \<Rightarrow> bool" where
  "admitted get add remove adm s [] = True"
| "admitted get add remove adm s (OpGet k # xs) =
     admitted get add remove adm (snd (get s k)) xs"
| "admitted get add remove adm s (OpAdd k v # xs) =
     (adm s k v \<and>
      (case add s k v of None \<Rightarrow> True | Some (s', _) \<Rightarrow> admitted get add remove adm s' xs))"
| "admitted get add remove adm s (OpRemove k # xs) =
     admitted get add remove adm (snd (remove s k)) xs"

text \<open>The unbounded map with the same interface.\<close>

fun ideal_run :: "(string \<Rightarrow> Value option) \<Rightarrow> store_op list \<Rightarrow> (string \<Rightarrow> Value option)" where
  "ideal_run m [] = m"
| "ideal_run m (OpGet k # xs) = ideal_run m xs"
| "ideal_run m (OpAdd k v # xs) = ideal_run (m(k \<mapsto> v)) xs"
| "ideal_run m (OpRemove k # xs) = ideal_run (m(k := None)) xs"

lemma ideal_run_mono: "m \<subseteq>\<^sub>m m' \<Longrightarrow> ideal_run m xs \<subseteq>\<^sub>m ideal_run m' xs"
proof (induction xs arbitrary: m m')
  case Nil
  then show ?case by simp
next
  case (Cons x xs)
  have "ideal_run m [x] \<subseteq>\<^sub>m ideal_run m' [x]"
    using Cons.prems by (cases x) (auto simp: map_le_def)
  moreover have "ideal_run q (x # xs) = ideal_run (ideal_run q [x]) xs" for q
    by (cases x) auto
  ultimately show ?case using Cons.IH by metis
qed

text \<open>Concrete values and operations for the examples of the three policies.\<close>

definition ex_view :: "string \<Rightarrow> Value" where
  "ex_view s = VView \<lparr>bv_b = s\<rparr>"

definition ex_ops :: "store_op list" where
  "ex_ops = [OpAdd ''a'' (ex_view ''0123456789''), OpAdd ''b'' (ex_view ''0123456789''), OpGet ''a'']"

section \<open>The contract\<close>

locale cache_store =
  fixes get :: "'s \<Rightarrow> string \<Rightarrow> Value option \<times> 's"
    and add :: "'s \<Rightarrow> string \<Rightarrow> Value \<Rightarrow> ('s \<times> evictions) option"
    and remove :: "'s \<Rightarrow> string \<Rightarrow> bool \<times> 's"
    and invar :: "'s \<Rightarrow> bool"
    and entries :: "'s \<Rightarrow> string \<Rightarrow> Value option"
    and admits :: "'s \<Rightarrow> string \<Rightarrow> Value \<Rightarrow> bool"
    and notifies :: "'s \<Rightarrow> bool"
  assumes get_value: "invar s \<Longrightarrow> fst (get s k) = entries s k"
    and get_entries: "invar s \<Longrightarrow> entries (snd (get s k)) = entries s"
    and get_invar: "invar s \<Longrightarrow> invar (snd (get s k))"
    and remove_entries: "invar s \<Longrightarrow> entries (snd (remove s k)) = (entries s)(k := None)"
    and remove_found: "invar s \<Longrightarrow> entries s k \<noteq> None \<Longrightarrow> fst (remove s k)"
    and remove_invar: "invar s \<Longrightarrow> invar (snd (remove s k))"
    and add_returns: "invar s \<Longrightarrow> admits s k v \<Longrightarrow> add s k v \<noteq> None"
    and add_invar: "invar s \<Longrightarrow> admits s k v \<Longrightarrow> add s k v = Some (s', ev) \<Longrightarrow> invar s'"
    and add_stored:
      "invar s \<Longrightarrow> admits s k v \<Longrightarrow> add s k v = Some (s', ev) \<Longrightarrow> entries s' k = Some v"
    and add_others:
      "invar s \<Longrightarrow> admits s k v \<Longrightarrow> add s k v = Some (s', ev) \<Longrightarrow> j \<noteq> k \<Longrightarrow>
       entries s' j = entries s j \<or> entries s' j = None"
    and add_evicted:
      "invar s \<Longrightarrow> admits s k v \<Longrightarrow> add s k v = Some (s', ev) \<Longrightarrow> notifies s \<Longrightarrow>
       (j, w) \<in> set ev \<longleftrightarrow> j \<noteq> k \<and> entries s j = Some w \<and> entries s' j = None"
begin

lemma add_lossy:
  assumes "invar s" and "admits s k v" and "add s k v = Some (s', ev)"
  shows "entries s' \<subseteq>\<^sub>m (entries s)(k \<mapsto> v)"
  unfolding map_le_def
proof
  fix j assume "j \<in> dom (entries s')"
  then show "entries s' j = ((entries s)(k \<mapsto> v)) j"
    using add_stored [OF assms] add_others [OF assms, of j] by (cases "j = k") auto
qed

text \<open>One operation: it returns, keeps the invariant, and stays below the unbounded map.\<close>

lemma step_lossy:
  assumes "invar s" and "admitted get add remove admits s [x]"
  shows "\<exists>s'. run_ops get add remove s [x] = Some s' \<and> invar s' \<and>
    entries s' \<subseteq>\<^sub>m ideal_run (entries s) [x]"
proof (cases x)
  case (OpAdd k v)
  with assms have adm: "admits s k v" by simp
  obtain s' ev where a: "add s k v = Some (s', ev)"
    using add_returns [OF assms(1) adm] by fastforce
  then show ?thesis
    using OpAdd add_invar [OF assms(1) adm a] add_lossy [OF assms(1) adm a] by simp
qed (use assms in \<open>simp_all add: get_entries get_invar remove_entries remove_invar\<close>)

lemma run_Cons:
  "run_ops get add remove s (x # xs) =
    Option.bind (run_ops get add remove s [x]) (\<lambda>t. run_ops get add remove t xs)"
  by (cases x) (auto split: option.splits)

lemma admitted_Cons:
  "admitted get add remove adm s (x # xs) \<longleftrightarrow>
    admitted get add remove adm s [x] \<and>
    (\<forall>t. run_ops get add remove s [x] = Some t \<longrightarrow> admitted get add remove adm t xs)"
  by (cases x) (auto split: option.splits)

theorem run_lossy:
  assumes "invar s" and "admitted get add remove admits s xs"
  shows "\<exists>s'. run_ops get add remove s xs = Some s' \<and> invar s' \<and>
    entries s' \<subseteq>\<^sub>m ideal_run (entries s) xs"
  using assms
proof (induction xs arbitrary: s)
  case Nil
  then show ?case by simp
next
  case (Cons x xs)
  from Cons.prems admitted_Cons [of admits s x xs]
  have ax: "admitted get add remove admits s [x]" by blast
  from step_lossy [OF Cons.prems(1) ax] obtain t where
    t: "run_ops get add remove s [x] = Some t" "invar t"
      "entries t \<subseteq>\<^sub>m ideal_run (entries s) [x]" by blast
  have "admitted get add remove admits t xs"
    using Cons.prems(2) t(1) admitted_Cons [of admits s x xs] by blast
  from Cons.IH [OF t(2) this] obtain u where
    u: "run_ops get add remove t xs = Some u" "invar u"
      "entries u \<subseteq>\<^sub>m ideal_run (entries t) xs" by blast
  have "ideal_run (entries t) xs \<subseteq>\<^sub>m ideal_run (entries s) (x # xs)"
    using ideal_run_mono [OF t(3), of xs] by (cases x) auto
  with t(1) u show ?case by (auto simp: run_Cons [of s x xs] intro: map_le_trans)
qed

text \<open>A hit after a run returns the value the unbounded map holds.\<close>

corollary run_get_fresh:
  assumes "invar s" and "admitted get add remove admits s xs"
    and "run_ops get add remove s xs = Some s'" and "fst (get s' k) = Some v"
  shows "ideal_run (entries s) xs k = Some v"
  using run_lossy [OF assms(1,2)] assms(3,4) get_value by (auto simp: map_le_def dom_def)

end

end
