(* ===== verification/LRU.thy ===== *)
theory LRU
  imports GoList CacheStore
begin

text \<open>
  \<open>lru/cache.go\<close>: the byte-bounded LRU cache. The record \<open>Cache\<close> has the struct's fields;
  the list \<open>ll\<close> and the map \<open>cache\<close> are kept apart as in the code, and \<open>next\<close> allocates
  list elements. Every method runs under the mutex, so each is one step. A method that
  calls \<open>onEvicted\<close> returns the calls it made, in order; \<open>Add\<close> returns \<open>None\<close> when its
  eviction loop never ends.

  The abstract specification is a recency list of key/value pairs; the refinement lemmas say
  that the pointer structure implements it operation by operation.
\<close>

section \<open>State\<close>

record Node =
  n_key :: string
  n_value :: Value

record Cache =
  c_maxBytes :: int
  c_usedBytes :: int
  c_ll :: "Node golist"
  c_cache :: "string \<Rightarrow> ele option"
  c_onEvicted :: bool \<comment> \<open>whether a callback is set\<close>
  c_next :: nat

definition Cache_New :: "int \<Rightarrow> bool \<Rightarrow> Cache" where
  "Cache_New maxBytes onEvicted =
     \<lparr>c_maxBytes = maxBytes, c_usedBytes = 0, c_ll = [], c_cache = (\<lambda>_. None),
      c_onEvicted = onEvicted, c_next = 0\<rparr>"

section \<open>Operations\<close>

text \<open>\<open>evictOneLocked\<close> drops the back element and reports it; on an empty list it does nothing.\<close>

fun Cache_evictOneLocked :: "Cache \<times> evictions \<Rightarrow> Cache \<times> evictions" where
  "Cache_evictOneLocked (c, ev) =
     (case list_Back (c_ll c) of
        None \<Rightarrow> (c, ev)
      | Some (ele, node) \<Rightarrow>
          (c\<lparr>c_ll := list_Remove ele (c_ll c),
             c_cache := (c_cache c)(n_key node := None),
             c_usedBytes := c_usedBytes c - (len (n_key node) + Value_Len (n_value node))\<rparr>,
           if c_onEvicted c then ev @ [(n_key node, n_value node)] else ev))"

declare Cache_evictOneLocked.simps [simp del]

text \<open>\<open>for c.usedBytes + need > c.maxBytes { c.evictOneLocked() }\<close>\<close>

definition Cache_evictLoop :: "int \<Rightarrow> Cache \<times> evictions \<Rightarrow> (Cache \<times> evictions) option" where
  "Cache_evictLoop need =
     go_for (\<lambda>s. c_usedBytes (fst s) + need > c_maxBytes (fst s))
       (\<lambda>s. Some (Cache_evictOneLocked s))"

text \<open>
  An element the map points to is in the list in every state the methods produce
  (\<open>Cache_inv\<close>); the branch for a dangling element is there to make the function total.
\<close>

definition Cache_Add :: "Cache \<Rightarrow> string \<Rightarrow> Value \<Rightarrow> (Cache \<times> evictions) option" where
  "Cache_Add c key value =
     (case c_cache c key of
        Some ele \<Rightarrow>
          (case list_Value (c_ll c) ele of
             None \<Rightarrow> None
           | Some node \<Rightarrow>
               Option.bind
                 (Cache_evictLoop (Value_Len value)
                   (c\<lparr>c_ll := list_MoveToFront ele (c_ll c),
                      c_usedBytes := c_usedBytes c - Value_Len (n_value node)\<rparr>, []))
                 (\<lambda>(c1, ev). Some
                   (c1\<lparr>c_ll := list_SetValue ele (node\<lparr>n_value := value\<rparr>) (c_ll c1),
                       c_usedBytes := c_usedBytes c1 + Value_Len value\<rparr>, ev)))
      | None \<Rightarrow>
          Option.bind (Cache_evictLoop (len key + Value_Len value) (c, []))
            (\<lambda>(c1, ev). Some
              (c1\<lparr>c_ll := list_PushFront (c_next c1) \<lparr>n_key = key, n_value = value\<rparr> (c_ll c1),
                  c_cache := (c_cache c1)(key \<mapsto> c_next c1),
                  c_usedBytes := c_usedBytes c1 + (len key + Value_Len value),
                  c_next := Suc (c_next c1)\<rparr>, ev)))"

definition Cache_Remove :: "Cache \<Rightarrow> string \<Rightarrow> bool \<times> Cache" where
  "Cache_Remove c key =
     (case c_cache c key of
        None \<Rightarrow> (False, c)
      | Some ele \<Rightarrow>
          (case list_Value (c_ll c) ele of
             None \<Rightarrow> (False, c)
           | Some node \<Rightarrow>
               (True, c\<lparr>c_ll := list_Remove ele (c_ll c),
                        c_cache := (c_cache c)(n_key node := None),
                        c_usedBytes := c_usedBytes c
                          - (len (n_key node) + Value_Len (n_value node))\<rparr>)))"

definition Cache_Get :: "Cache \<Rightarrow> string \<Rightarrow> Value option \<times> Cache" where
  "Cache_Get c key =
     (case c_cache c key of
        None \<Rightarrow> (None, c)
      | Some ele \<Rightarrow>
          (map_option n_value (list_Value (c_ll c) ele),
           c\<lparr>c_ll := list_MoveToFront ele (c_ll c)\<rparr>))"

section \<open>Invariant and abstraction\<close>

definition node_size :: "Node \<Rightarrow> int" where
  "node_size n = len (n_key n) + Value_Len (n_value n)"

definition nodes_size :: "Node list \<Rightarrow> int" where
  "nodes_size ns = (\<Sum>n\<leftarrow>ns. node_size n)"

lemma node_size_nonneg [simp]: "0 \<le> node_size n"
  by (simp add: node_size_def)

lemma nodes_size_nonneg [simp]: "0 \<le> nodes_size ns"
  by (simp add: nodes_size_def sum_list_nonneg_int)

lemma nodes_size_simps [simp]:
  "nodes_size [] = 0" "nodes_size (n # ns) = node_size n + nodes_size ns"
  "nodes_size (ns @ ms) = nodes_size ns + nodes_size ms"
  by (simp_all add: nodes_size_def)

lemma nodes_size_filter:
  assumes "distinct (map n_key ns)" and "n \<in> set ns"
  shows "nodes_size (filter (\<lambda>m. n_key m \<noteq> n_key n) ns) = nodes_size ns - node_size n"
  using sum_list_filter_remove [OF assms, of node_size] by (simp add: nodes_size_def)

text \<open>The list and the map agree, and \<open>usedBytes\<close> is the size of what is stored.\<close>

definition Cache_wf :: "Cache \<Rightarrow> bool" where
  "Cache_wf c \<longleftrightarrow> indexed n_key (c_ll c) (c_cache c) (c_next c) \<and>
     c_usedBytes c = nodes_size (vals (c_ll c))"

definition Cache_inv :: "Cache \<Rightarrow> bool" where
  "Cache_inv c \<longleftrightarrow> Cache_wf c \<and> c_usedBytes c \<le> c_maxBytes c"

text \<open>The recency list the cache stands for, most recent first, and its map.\<close>

definition recency :: "Cache \<Rightarrow> (string \<times> Value) list" where
  "recency c = map (\<lambda>n. (n_key n, n_value n)) (vals (c_ll c))"

definition Cache_entries :: "Cache \<Rightarrow> string \<Rightarrow> Value option" where
  "Cache_entries c = map_of (recency c)"

section \<open>The specification: a bounded recency list\<close>

definition pair_size :: "string \<times> Value \<Rightarrow> int" where
  "pair_size p = len (fst p) + Value_Len (snd p)"

text \<open>Drop from the back until the rest fits in \<open>b\<close> bytes.\<close>

fun keep_fitting :: "int \<Rightarrow> (string \<times> Value) list \<Rightarrow> (string \<times> Value) list" where
  "keep_fitting b xs =
     (if xs = [] \<or> sum_list (map pair_size xs) \<le> b then xs else keep_fitting b (butlast xs))"

declare keep_fitting.simps [simp del]

definition spec_get :: "(string \<times> Value) list \<Rightarrow> string \<Rightarrow> (string \<times> Value) list" where
  "spec_get xs k =
     (case map_of xs k of None \<Rightarrow> xs | Some v \<Rightarrow> (k, v) # filter (\<lambda>p. fst p \<noteq> k) xs)"

definition spec_add ::
  "int \<Rightarrow> (string \<times> Value) list \<Rightarrow> string \<Rightarrow> Value \<Rightarrow> (string \<times> Value) list" where
  "spec_add b xs k v =
     (k, v) # keep_fitting (b - pair_size (k, v)) (filter (\<lambda>p. fst p \<noteq> k) xs)"

definition spec_remove :: "(string \<times> Value) list \<Rightarrow> string \<Rightarrow> (string \<times> Value) list" where
  "spec_remove xs k = filter (\<lambda>p. fst p \<noteq> k) xs"

section \<open>The eviction loop\<close>

abbreviation pairs :: "Node golist \<Rightarrow> (string \<times> Value) list" where
  "pairs l \<equiv> map (\<lambda>n. (n_key n, n_value n)) (vals l)"

lemma pairs_size: "sum_list (map pair_size (map (\<lambda>n. (n_key n, n_value n)) ns)) = nodes_size ns"
  by (simp add: nodes_size_def comp_def pair_size_def node_size_def)

lemma keep_fitting_fits: "sum_list (map pair_size xs) \<le> b \<Longrightarrow> keep_fitting b xs = xs"
  by (simp add: keep_fitting.simps [of b xs])

lemma keep_fitting_snoc:
  "b < sum_list (map pair_size (xs @ [x])) \<Longrightarrow> keep_fitting b (xs @ [x]) = keep_fitting b xs"
  by (subst keep_fitting.simps) simp

lemma keep_fitting_prefix: "\<exists>ys. xs = keep_fitting b xs @ ys"
proof (induction b xs rule: keep_fitting.induct)
  case (1 b xs)
  show ?case
  proof (cases "xs = [] \<or> sum_list (map pair_size xs) \<le> b")
    case True
    then show ?thesis by (subst keep_fitting.simps) simp
  next
    case False
    with 1 obtain ys where ys: "butlast xs = keep_fitting b (butlast xs) @ ys" by blast
    have "xs = butlast xs @ [last xs]" using False by simp
    also have "\<dots> = keep_fitting b (butlast xs) @ (ys @ [last xs])" using ys by simp
    finally have "\<exists>zs. xs = keep_fitting b (butlast xs) @ zs" by blast
    with False show ?thesis by (simp add: keep_fitting.simps [of b xs])
  qed
qed

lemma keep_fitting_size: "0 \<le> b \<Longrightarrow> sum_list (map pair_size (keep_fitting b xs)) \<le> b"
proof (induction b xs rule: keep_fitting.induct)
  case (1 b xs)
  then show ?case by (cases "xs = []") (auto simp: keep_fitting.simps [of b xs] keep_fitting.simps [of b "[]"])
qed

text \<open>One eviction on a list that ends in \<open>x\<close>.\<close>

lemma evictOne_snoc:
  assumes "indexed n_key (c_ll c) (c_cache c) (c_next c)" and "c_ll c = l @ [x]"
    and "c_usedBytes c = nodes_size (vals (c_ll c)) - d"
  shows "Cache_evictOneLocked (c, ev) =
     (c\<lparr>c_ll := l, c_cache := (c_cache c)(n_key (snd x) := None),
        c_usedBytes := nodes_size (vals l) - d\<rparr>,
      if c_onEvicted c then ev @ [(n_key (snd x), n_value (snd x))] else ev)
   \<and> indexed n_key l ((c_cache c)(n_key (snd x) := None)) (c_next c)"
proof -
  have b: "list_Back (c_ll c) = Some (fst x, snd x)"
    using assms(2) by (simp add: list_Back_def)
  have r: "list_Remove (fst x) (c_ll c) = l"
    using indexed_Remove_Back [OF assms(1) b] assms(2) by simp
  have "indexed n_key l ((c_cache c)(n_key (snd x) := None)) (c_next c)"
    using indexed_Remove [OF assms(1) list_Back_in [OF b] refl] r by simp
  then show ?thesis
    using assms(2,3) b r by (cases x) (simp add: Cache_evictOneLocked.simps node_size_def)
qed

text \<open>
  The loop, on a list \<open>fr @ xs\<close> whose part \<open>fr\<close> always fits: it drops the back of \<open>xs\<close>
  until the rest fits, and reports what it drops, last first. \<open>d\<close> is the part of the stored
  bytes that \<open>usedBytes\<close> does not count while the loop runs.
\<close>

lemma evictLoop_spec:
  assumes "indexed n_key (c_ll c) (c_cache c) (c_next c)" and "c_ll c = fr @ xs"
    and "c_usedBytes c = nodes_size (vals (c_ll c)) - d"
    and "nodes_size (vals fr) - d + need \<le> c_maxBytes c"
  shows "\<exists>ys zs m. xs = ys @ zs \<and>
     Cache_evictLoop need (c, ev) =
       Some (c\<lparr>c_ll := fr @ ys, c_cache := m, c_usedBytes := nodes_size (vals (fr @ ys)) - d\<rparr>,
             ev @ (if c_onEvicted c then rev (pairs zs) else [])) \<and>
     indexed n_key (fr @ ys) m (c_next c) \<and>
     nodes_size (vals (fr @ ys)) - d + need \<le> c_maxBytes c \<and>
     pairs ys = keep_fitting (c_maxBytes c - need + d - nodes_size (vals fr)) (pairs xs)"
  using assms
proof (induction xs arbitrary: c ev rule: rev_induct)
  case Nil
  then show ?case
    by (intro exI [of _ "[]"] exI [of _ "c_cache c"])
      (simp add: Cache_evictLoop_def go_for_stop keep_fitting.simps)
next
  case (snoc x xs)
  let ?b = "c_maxBytes c - need + d - nodes_size (vals fr)"
  have sz: "nodes_size (vals (fr @ xs @ [x])) = nodes_size (vals fr)
      + sum_list (map pair_size (pairs (xs @ [x])))"
    by (simp only: pairs_size) (simp add: vals_def)
  show ?case
  proof (cases "c_usedBytes c + need > c_maxBytes c")
    case False
    then have "keep_fitting ?b (pairs (xs @ [x])) = pairs (xs @ [x])"
      using snoc.prems(2,3) sz by (intro keep_fitting_fits) simp
    moreover from False have "Cache_evictLoop need (c, ev) = Some (c, ev)"
      by (simp add: Cache_evictLoop_def go_for_stop)
    ultimately show ?thesis
      using False snoc.prems by (intro exI [of _ "xs @ [x]"] exI [of _ "[]"] exI [of _ "c_cache c"]) simp
  next
    case True
    have l: "c_ll c = (fr @ xs) @ [x]" using snoc.prems(2) by simp
    let ?m = "(c_cache c)(n_key (snd x) := None)"
    let ?c = "c\<lparr>c_ll := fr @ xs, c_cache := ?m, c_usedBytes := nodes_size (vals (fr @ xs)) - d\<rparr>"
    let ?ev = "if c_onEvicted c then ev @ [(n_key (snd x), n_value (snd x))] else ev"
    note ev1 = evictOne_snoc [OF snoc.prems(1) l snoc.prems(3), of ev]
    have step: "Cache_evictLoop need (c, ev) = Cache_evictLoop need (?c, ?ev)"
      unfolding Cache_evictLoop_def using True ev1 by (intro go_for_cong_step) simp_all
    have "?b < sum_list (map pair_size (pairs (xs @ [x])))"
      using True snoc.prems(2,3) sz by simp
    then have keep: "keep_fitting ?b (pairs (xs @ [x])) = keep_fitting ?b (pairs xs)"
      by (simp add: vals_def keep_fitting_snoc)
    have "\<exists>ys zs m. xs = ys @ zs \<and>
       Cache_evictLoop need (?c, ?ev) =
         Some (?c\<lparr>c_ll := fr @ ys, c_cache := m, c_usedBytes := nodes_size (vals (fr @ ys)) - d\<rparr>,
               ?ev @ (if c_onEvicted ?c then rev (pairs zs) else [])) \<and>
       indexed n_key (fr @ ys) m (c_next ?c) \<and>
       nodes_size (vals (fr @ ys)) - d + need \<le> c_maxBytes ?c \<and>
       pairs ys = keep_fitting (c_maxBytes ?c - need + d - nodes_size (vals fr)) (pairs xs)"
      using ev1 snoc.prems(4) by (intro snoc.IH) (simp_all add: fun_upd_def)
    then obtain ys zs m where r: "xs = ys @ zs"
       "Cache_evictLoop need (?c, ?ev) =
         Some (?c\<lparr>c_ll := fr @ ys, c_cache := m, c_usedBytes := nodes_size (vals (fr @ ys)) - d\<rparr>,
               ?ev @ (if c_onEvicted ?c then rev (pairs zs) else []))"
       "indexed n_key (fr @ ys) m (c_next ?c)"
       "nodes_size (vals (fr @ ys)) - d + need \<le> c_maxBytes ?c"
       "pairs ys = keep_fitting (c_maxBytes ?c - need + d - nodes_size (vals fr)) (pairs xs)"
      by blast
    show ?thesis
      by (rule exI [of _ ys], rule exI [of _ "zs @ [x]"], rule exI [of _ m])
        (use r step keep in \<open>simp add: vals_def\<close>)
  qed
qed

text \<open>With nothing left to evict and no room, the loop never ends.\<close>

lemma evictLoop_diverges:
  assumes "c_ll c = []" and "c_usedBytes c + need > c_maxBytes c"
  shows "Cache_evictLoop need (c, ev) = None"
  unfolding Cache_evictLoop_def
  by (rule go_for_diverges
      [where P = "\<lambda>s. c_ll (fst s) = [] \<and> c_usedBytes (fst s) + need > c_maxBytes (fst s)"])
    (use assms in \<open>auto simp: list_Back_def Cache_evictOneLocked.simps\<close>)

section \<open>The methods implement the specification\<close>

lemma pairs_filter:
  "pairs (filter (\<lambda>x. n_key (snd x) \<noteq> k) l) = filter (\<lambda>p. fst p \<noteq> k) (pairs l)"
  by (simp add: vals_def filter_map comp_def)

lemma Cache_wfD:
  assumes "Cache_wf c"
  shows "indexed n_key (c_ll c) (c_cache c) (c_next c)"
    "c_usedBytes c = nodes_size (vals (c_ll c))" "distinct (map fst (recency c))"
proof -
  show i: "indexed n_key (c_ll c) (c_cache c) (c_next c)"
    "c_usedBytes c = nodes_size (vals (c_ll c))"
    using assms by (simp_all add: Cache_wf_def)
  show "distinct (map fst (recency c))"
    using indexedD(2) [OF i(1)] by (simp add: recency_def comp_def)
qed

lemma Cache_keys: "Cache_wf c \<Longrightarrow> c_cache c k = None \<longleftrightarrow> k \<notin> fst ` set (recency c)"
  using indexed_None [OF Cache_wfD(1)]
  by (simp add: keys_of_def recency_def image_comp comp_def)

lemma Cache_hit:
  assumes "Cache_wf c" and "c_cache c k = Some e"
  obtains v where "list_Value (c_ll c) e = Some v" "(e, v) \<in> set (c_ll c)" "n_key v = k"
    "Cache_entries c k = Some (n_value v)"
proof -
  obtain v where v: "list_Value (c_ll c) e = Some v" "(e, v) \<in> set (c_ll c)" "n_key v = k"
    using indexed_Value [OF Cache_wfD(1) [OF assms(1)] assms(2)] .
  have "(k, n_value v) \<in> set (recency c)"
    using v by (force simp: recency_def vals_def)
  then have "Cache_entries c k = Some (n_value v)"
    using Cache_wfD(3) [OF assms(1)] by (simp add: Cache_entries_def)
  from v this show thesis by (rule that)
qed

lemma Cache_miss: "Cache_wf c \<Longrightarrow> c_cache c k = None \<Longrightarrow> Cache_entries c k = None"
  by (simp add: Cache_entries_def map_of_eq_None_iff Cache_keys)

lemma filter_absent: "k \<notin> fst ` set xs \<Longrightarrow> filter (\<lambda>p. fst p \<noteq> k) xs = xs"
  by (induction xs) auto

text \<open>\<open>Get\<close>\<close>

lemma Cache_Get_spec:
  assumes "Cache_wf c"
  shows "fst (Cache_Get c k) = Cache_entries c k"
    and "recency (snd (Cache_Get c k)) = spec_get (recency c) k"
    and "Cache_wf (snd (Cache_Get c k))"
    and "c_maxBytes (snd (Cache_Get c k)) = c_maxBytes c"
    and "c_usedBytes (snd (Cache_Get c k)) = c_usedBytes c"
    and "c_onEvicted (snd (Cache_Get c k)) = c_onEvicted c"
proof -
  note ix = Cache_wfD(1) [OF assms]
  have "fst (Cache_Get c k) = Cache_entries c k \<and>
     recency (snd (Cache_Get c k)) = spec_get (recency c) k \<and>
     Cache_wf (snd (Cache_Get c k))"
  proof (cases "c_cache c k")
    case None
    then show ?thesis
      using Cache_miss [OF assms None] assms
      by (simp add: Cache_Get_def spec_get_def Cache_entries_def)
  next
    case (Some e)
    obtain v where v: "list_Value (c_ll c) e = Some v" "(e, v) \<in> set (c_ll c)" "n_key v = k"
      "Cache_entries c k = Some (n_value v)" using Cache_hit [OF assms Some] .
    note vm = vals_MoveToFront [OF ix v(2)]
    have "v \<in> set (vals (c_ll c))" using v(2) by (force simp: vals_def)
    then have sz: "nodes_size (vals (list_MoveToFront e (c_ll c))) = nodes_size (vals (c_ll c))"
      using nodes_size_filter [OF indexedD(2) [OF ix]] by (simp add: vm)
    have "recency (snd (Cache_Get c k)) = spec_get (recency c) k"
      using v(3,4) Some
      by (simp add: Cache_Get_def recency_def vm spec_get_def Cache_entries_def filter_map comp_def)
    moreover have "Cache_wf (snd (Cache_Get c k))"
      using assms Some indexed_MoveToFront [OF ix v(2)] sz by (simp add: Cache_Get_def Cache_wf_def)
    ultimately show ?thesis using v Some by (simp add: Cache_Get_def)
  qed
  then show "fst (Cache_Get c k) = Cache_entries c k"
    "recency (snd (Cache_Get c k)) = spec_get (recency c) k"
    "Cache_wf (snd (Cache_Get c k))" by blast+
qed (simp_all add: Cache_Get_def split: option.splits)

text \<open>\<open>Remove\<close>\<close>

lemma Cache_Remove_spec:
  assumes "Cache_wf c"
  shows "fst (Cache_Remove c k) \<longleftrightarrow> Cache_entries c k \<noteq> None"
    and "recency (snd (Cache_Remove c k)) = spec_remove (recency c) k"
    and "Cache_wf (snd (Cache_Remove c k))"
    and "c_maxBytes (snd (Cache_Remove c k)) = c_maxBytes c"
    and "c_usedBytes (snd (Cache_Remove c k)) \<le> c_usedBytes c"
    and "c_onEvicted (snd (Cache_Remove c k)) = c_onEvicted c"
proof -
  note ix = Cache_wfD(1) [OF assms]
  have "(fst (Cache_Remove c k) \<longleftrightarrow> Cache_entries c k \<noteq> None) \<and>
     recency (snd (Cache_Remove c k)) = spec_remove (recency c) k \<and>
     Cache_wf (snd (Cache_Remove c k))"
  proof (cases "c_cache c k")
    case None
    then have "k \<notin> fst ` set (recency c)" using Cache_keys [OF assms] by simp
    then show ?thesis
      using Cache_miss [OF assms None] assms None
      by (simp add: Cache_Remove_def spec_remove_def filter_absent)
  next
    case (Some e)
    obtain v where v: "list_Value (c_ll c) e = Some v" "(e, v) \<in> set (c_ll c)" "n_key v = k"
      "Cache_entries c k = Some (n_value v)" using Cache_hit [OF assms Some] .
    note vr = vals_Remove [OF ix v(2)]
    have "v \<in> set (vals (c_ll c))" using v(2) by (force simp: vals_def)
    then have sz: "nodes_size (vals (list_Remove e (c_ll c)))
        = nodes_size (vals (c_ll c)) - node_size v"
      using nodes_size_filter [OF indexedD(2) [OF ix]] by (simp add: vr)
    have "recency (snd (Cache_Remove c k)) = spec_remove (recency c) k"
      using v(1,3) Some
      by (simp add: Cache_Remove_def recency_def vr spec_remove_def filter_map comp_def)
    moreover have "Cache_wf (snd (Cache_Remove c k))"
      using v(1,3) Some Cache_wfD(2) [OF assms] indexed_Remove [OF ix v(2) refl] sz
      by (simp add: Cache_Remove_def Cache_wf_def node_size_def fun_upd_def)
    ultimately show ?thesis using v Some by (simp add: Cache_Remove_def)
  qed
  then show "fst (Cache_Remove c k) \<longleftrightarrow> Cache_entries c k \<noteq> None"
    "recency (snd (Cache_Remove c k)) = spec_remove (recency c) k"
    "Cache_wf (snd (Cache_Remove c k))" by blast+
  show "c_maxBytes (snd (Cache_Remove c k)) = c_maxBytes c"
    "c_usedBytes (snd (Cache_Remove c k)) \<le> c_usedBytes c"
    "c_onEvicted (snd (Cache_Remove c k)) = c_onEvicted c"
    by (auto simp: Cache_Remove_def node_size_def [symmetric] split: option.splits)
qed

text \<open>
  \<open>Add\<close> of an entry that fits: the entry comes to the front, the least recent others are
  dropped until the rest fits, and exactly those are reported, least recent first.
\<close>

definition add_result :: "Cache \<Rightarrow> string \<Rightarrow> Value \<Rightarrow> Cache \<Rightarrow> evictions \<Rightarrow> bool" where
  "add_result c k v c' ev \<longleftrightarrow>
     Cache_inv c' \<and> recency c' = spec_add (c_maxBytes c) (recency c) k v \<and>
     c_maxBytes c' = c_maxBytes c \<and> c_onEvicted c' = c_onEvicted c \<and>
     (c_onEvicted c \<longrightarrow> spec_remove (recency c) k = tl (recency c') @ rev ev)"

lemma Cache_Add_new:
  assumes "Cache_wf c" and fits: "len k + Value_Len v \<le> c_maxBytes c" and "c_cache c k = None"
  shows "\<exists>c' ev. Cache_Add c k v = Some (c', ev) \<and> add_result c k v c' ev"
proof -
  let ?need = "len k + Value_Len v"
  note ix = Cache_wfD(1) [OF assms(1)]
  have absent: "spec_remove (recency c) k = recency c"
    using Cache_keys [OF assms(1)] assms(3) by (simp add: spec_remove_def filter_absent)
  obtain ys zs m where r: "c_ll c = ys @ zs"
    "Cache_evictLoop ?need (c, []) =
       Some (c\<lparr>c_ll := ys, c_cache := m, c_usedBytes := nodes_size (vals ys)\<rparr>,
             if c_onEvicted c then rev (pairs zs) else [])"
    "indexed n_key ys m (c_next c)" "nodes_size (vals ys) + ?need \<le> c_maxBytes c"
    "pairs ys = keep_fitting (c_maxBytes c - ?need) (pairs (c_ll c))"
    using evictLoop_spec [OF ix, of "[]" "c_ll c" 0 ?need "[]"] Cache_wfD(2) [OF assms(1)] fits
    by auto
  let ?n = "\<lparr>n_key = k, n_value = v\<rparr>"
  let ?c = "c\<lparr>c_ll := list_PushFront (c_next c) ?n ys, c_cache := m(k \<mapsto> c_next c),
    c_usedBytes := nodes_size (vals ys) + ?need, c_next := Suc (c_next c)\<rparr>"
  have add: "Cache_Add c k v = Some (?c, if c_onEvicted c then rev (pairs zs) else [])"
    using assms(3) r(2) by (simp add: Cache_Add_def)
  have "k \<notin> keys_of n_key (c_ll c)" using indexed_None [OF ix] assms(3) by blast
  then have "k \<notin> keys_of n_key ys" by (auto simp: r(1) keys_of_def)
  then have "indexed n_key (list_PushFront (c_next c) ?n ys) (m(k \<mapsto> c_next c)) (Suc (c_next c))"
    using indexed_PushFront [OF r(3), of ?n k] by simp
  then have "Cache_inv ?c"
    using r(4) by (simp add: Cache_inv_def Cache_wf_def node_size_def fun_upd_def)
  moreover have "recency ?c = spec_add (c_maxBytes c) (recency c) k v"
    using absent r(5) by (simp add: recency_def spec_add_def pair_size_def spec_remove_def)
  moreover have "spec_remove (recency c) k = tl (recency ?c) @ pairs zs"
    unfolding absent using r(1) by (simp add: recency_def)
  ultimately have "add_result c k v ?c (if c_onEvicted c then rev (pairs zs) else [])"
    by (simp add: add_result_def)
  with add show ?thesis by blast
qed

lemma list_SetValue_front:
  "e \<notin> fst ` set l \<Longrightarrow> list_SetValue e w ((e, v) # l) = (e, w) # l"
  by (induction l) (auto simp: list_SetValue_def)

lemma Cache_Add_existing:
  assumes "Cache_wf c" and fits: "len k + Value_Len v \<le> c_maxBytes c" and hit: "c_cache c k = Some e"
  shows "\<exists>c' ev. Cache_Add c k v = Some (c', ev) \<and> add_result c k v c' ev"
proof -
  note ix = Cache_wfD(1) [OF assms(1)]
  obtain n where n: "list_Value (c_ll c) e = Some n" "(e, n) \<in> set (c_ll c)" "n_key n = k"
    using Cache_hit [OF assms(1) hit] by metis
  let ?l = "list_MoveToFront e (c_ll c)" and ?r = "list_Remove e (c_ll c)"
  let ?d = "Value_Len (n_value n)" and ?need = "Value_Len v"
  have l: "?l = [(e, n)] @ ?r" using list_MoveToFront_eq [OF ix n(2)] by simp
  have ixl: "indexed n_key ?l (c_cache c) (c_next c)" using indexed_MoveToFront [OF ix n(2)] .
  have "n \<in> set (vals (c_ll c))" using n(2) by (force simp: vals_def)
  then have sz: "nodes_size (vals ?l) = c_usedBytes c"
    using nodes_size_filter [OF indexedD(2) [OF ix]] Cache_wfD(2) [OF assms(1)]
    by (simp add: vals_MoveToFront [OF ix n(2)])
  let ?c0 = "c\<lparr>c_ll := ?l, c_usedBytes := c_usedBytes c - ?d\<rparr>"
  have "\<exists>ys zs m. ?r = ys @ zs \<and> Cache_evictLoop ?need (?c0, []) =
       Some (?c0\<lparr>c_ll := [(e, n)] @ ys, c_cache := m,
               c_usedBytes := nodes_size (vals ([(e, n)] @ ys)) - ?d\<rparr>,
             [] @ (if c_onEvicted ?c0 then rev (pairs zs) else [])) \<and>
     indexed n_key ([(e, n)] @ ys) m (c_next ?c0) \<and>
     nodes_size (vals ([(e, n)] @ ys)) - ?d + ?need \<le> c_maxBytes ?c0 \<and>
     pairs ys = keep_fitting (c_maxBytes ?c0 - ?need + ?d - nodes_size (vals [(e, n)])) (pairs ?r)"
    using ixl sz l fits n(3) by (intro evictLoop_spec) (simp_all add: node_size_def)
  then obtain ys zs m where r: "?r = ys @ zs"
    "Cache_evictLoop ?need (?c0, []) =
       Some (c\<lparr>c_ll := (e, n) # ys, c_cache := m,
               c_usedBytes := node_size n + nodes_size (vals ys) - ?d\<rparr>,
             if c_onEvicted c then rev (pairs zs) else [])"
    "indexed n_key ((e, n) # ys) m (c_next c)"
    "node_size n + nodes_size (vals ys) - ?d + ?need \<le> c_maxBytes c"
    "pairs ys = keep_fitting (c_maxBytes c - ?need + ?d - node_size n) (pairs ?r)"
    by auto
  let ?n = "n\<lparr>n_value := v\<rparr>"
  have fresh: "e \<notin> fst ` set ys" using indexedD(1) [OF r(3)] by simp
  let ?c = "c\<lparr>c_ll := (e, ?n) # ys, c_cache := m,
    c_usedBytes := node_size n + nodes_size (vals ys) - ?d + ?need\<rparr>"
  have add: "Cache_Add c k v = Some (?c, if c_onEvicted c then rev (pairs zs) else [])"
    using hit n(1) r(2) fresh by (simp add: Cache_Add_def list_SetValue_front)
  have ix': "indexed n_key ((e, ?n) # ys) m (c_next c)"
    using indexed_SetValue [OF r(3), of e n ?n] fresh by (simp add: list_SetValue_front)
  then have inv: "Cache_inv ?c"
    using r(4) by (simp add: Cache_inv_def Cache_wf_def node_size_def)
  have rem: "spec_remove (recency c) k = pairs ?r"
    using n(3) by (simp add: spec_remove_def recency_def vals_Remove [OF ix n(2)] filter_map comp_def)
  have rec: "recency ?c = spec_add (c_maxBytes c) (recency c) k v"
    using rem r(5) n(3) by (simp add: recency_def spec_add_def spec_remove_def pair_size_def
        node_size_def algebra_simps)
  have "spec_remove (recency c) k = tl (recency ?c) @ pairs zs"
    using rem r(1) by (simp add: recency_def)
  with inv rec have "add_result c k v ?c (if c_onEvicted c then rev (pairs zs) else [])"
    by (simp add: add_result_def)
  with add show ?thesis by blast
qed

lemma Cache_Add_spec:
  assumes "Cache_wf c" and "len k + Value_Len v \<le> c_maxBytes c"
  shows "\<exists>c' ev. Cache_Add c k v = Some (c', ev) \<and> add_result c k v c' ev"
  using Cache_Add_new [OF assms] Cache_Add_existing [OF assms] by (cases "c_cache c k") blast+

text \<open>\<open>Add\<close> of an entry that can never fit.\<close>

lemma Cache_evictOneLocked_wf:
  assumes "Cache_wf c"
  shows "\<exists>c' ev'. Cache_evictOneLocked (c, ev) = (c', ev') \<and> Cache_wf c' \<and>
    c_maxBytes c' = c_maxBytes c"
proof (cases "c_ll c" rule: rev_cases)
  case Nil
  then show ?thesis using assms by (simp add: Cache_evictOneLocked.simps list_Back_def)
next
  case (snoc l x)
  from evictOne_snoc [OF Cache_wfD(1) [OF assms] snoc, of 0 ev] Cache_wfD(2) [OF assms]
  show ?thesis by (simp add: Cache_wf_def fun_upd_def)
qed

lemma Cache_Add_oversize_diverges:
  assumes "Cache_wf c" and "c_cache c k = None" and "c_maxBytes c < len k + Value_Len v"
  shows "Cache_Add c k v = None"
proof -
  let ?need = "len k + Value_Len v"
  have "Cache_evictLoop ?need (c, []) = None"
    unfolding Cache_evictLoop_def
  proof (rule go_for_diverges [where P = "\<lambda>s. Cache_wf (fst s) \<and> c_maxBytes (fst s) < ?need"])
    show "Cache_wf (fst (c, [] :: evictions)) \<and> c_maxBytes (fst (c, [] :: evictions)) < ?need"
      using assms by simp
  next
    fix s :: "Cache \<times> evictions"
    assume *: "Cache_wf (fst s) \<and> c_maxBytes (fst s) < ?need"
    then have "0 \<le> c_usedBytes (fst s)" by (simp add: Cache_wf_def)
    with * show "c_maxBytes (fst s) < c_usedBytes (fst s) + ?need" by simp
  next
    fix s t :: "Cache \<times> evictions"
    assume "Cache_wf (fst s) \<and> c_maxBytes (fst s) < ?need"
      and "Some (Cache_evictOneLocked s) = Some t"
    then show "Cache_wf (fst t) \<and> c_maxBytes (fst t) < ?need"
      using Cache_evictOneLocked_wf [of "fst s" "snd s"] by auto
  qed
  with assms(2) show ?thesis by (simp add: Cache_Add_def)
qed

text \<open>
  \<open>Add\<close> of a value that does not fit, on a key that is present: when the loop ends at all it
  has evicted the entry being updated, whose old size it then has subtracted twice.
\<close>

lemma Cache_Add_oversize_update:
  assumes "Cache_wf c" and "Cache_entries c k = Some w"
    and "c_maxBytes c < len k + Value_Len v" and "Value_Len v - Value_Len w \<le> c_maxBytes c"
  shows "\<exists>c' ev. Cache_Add c k v = Some (c', ev) \<and> c_ll c' = [] \<and>
    c_usedBytes c' = Value_Len v - Value_Len w"
proof -
  note ix = Cache_wfD(1) [OF assms(1)]
  from assms(1,2) obtain e where hit: "c_cache c k = Some e"
    using Cache_miss by fastforce
  obtain n where n: "list_Value (c_ll c) e = Some n" "(e, n) \<in> set (c_ll c)" "n_key n = k"
    "n_value n = w" using Cache_hit [OF assms(1) hit] assms(2) by (metis option.inject)
  let ?l = "list_MoveToFront e (c_ll c)" and ?need = "Value_Len v" and ?d = "Value_Len w"
  have l: "?l = (e, n) # list_Remove e (c_ll c)" using list_MoveToFront_eq [OF ix n(2)] .
  have "n \<in> set (vals (c_ll c))" using n(2) by (force simp: vals_def)
  then have sz: "nodes_size (vals ?l) = c_usedBytes c"
    using nodes_size_filter [OF indexedD(2) [OF ix]] Cache_wfD(2) [OF assms(1)]
    by (simp add: vals_MoveToFront [OF ix n(2)])
  let ?c0 = "c\<lparr>c_ll := ?l, c_usedBytes := c_usedBytes c - ?d\<rparr>"
  have "\<exists>ys zs m. ?l = ys @ zs \<and> Cache_evictLoop ?need (?c0, []) =
       Some (?c0\<lparr>c_ll := [] @ ys, c_cache := m, c_usedBytes := nodes_size (vals ([] @ ys)) - ?d\<rparr>,
             [] @ (if c_onEvicted ?c0 then rev (pairs zs) else [])) \<and>
     indexed n_key ([] @ ys) m (c_next ?c0) \<and>
     nodes_size (vals ([] @ ys)) - ?d + ?need \<le> c_maxBytes ?c0 \<and>
     pairs ys = keep_fitting (c_maxBytes ?c0 - ?need + ?d - nodes_size (vals [])) (pairs ?l)"
    using indexed_MoveToFront [OF ix n(2)] sz assms(4) by (intro evictLoop_spec) simp_all
  then obtain ys zs m where r: "?l = ys @ zs" "nodes_size (vals ys) - ?d + ?need \<le> c_maxBytes c"
    "Cache_evictLoop ?need (?c0, []) =
       Some (c\<lparr>c_ll := ys, c_cache := m, c_usedBytes := nodes_size (vals ys) - ?d\<rparr>,
             if c_onEvicted c then rev (pairs zs) else [])" by auto
  have "ys = []"
  proof (cases ys)
    case (Cons y ys')
    with r(1) l have "y = (e, n)" by simp
    with Cons r(2) have "node_size n + nodes_size (vals ys') - ?d + ?need \<le> c_maxBytes c" by simp
    then have "node_size n - ?d + ?need \<le> c_maxBytes c"
      using nodes_size_nonneg [of "vals ys'"] by linarith
    with n assms(3) show ?thesis by (simp add: node_size_def)
  qed
  with r(3) hit n show ?thesis by (simp add: Cache_Add_def list_SetValue_def)
qed

section \<open>The LRU cache is a cache store\<close>

definition Cache_admits :: "Cache \<Rightarrow> string \<Rightarrow> Value \<Rightarrow> bool" where
  "Cache_admits c k v \<longleftrightarrow> len k + Value_Len v \<le> c_maxBytes c"

lemma map_of_filter_key:
  "map_of (filter (\<lambda>p. fst p \<noteq> k) xs) = (map_of xs)(k := None)"
  by (rule map_of_del_key)

lemma spec_get_map: "map_of (spec_get xs k) = map_of xs"
  by (auto simp: spec_get_def map_of_filter_key fun_eq_iff split: option.splits)

lemma Cache_Add_entries:
  assumes "Cache_inv c" and "Cache_admits c k v" and "Cache_Add c k v = Some (c', ev)"
  shows "Cache_inv c' \<and> Cache_entries c' k = Some v \<and>
    (j \<noteq> k \<longrightarrow> Cache_entries c' j = Cache_entries c j \<or> Cache_entries c' j = None) \<and>
    (c_onEvicted c \<longrightarrow>
      (j, w) \<in> set ev \<longleftrightarrow> j \<noteq> k \<and> Cache_entries c j = Some w \<and> Cache_entries c' j = None)"
proof -
  have wf: "Cache_wf c" using assms(1) by (simp add: Cache_inv_def)
  have res: "add_result c k v c' ev"
    using Cache_Add_spec [OF wf, of k v] assms(2,3) by (auto simp: Cache_admits_def)
  let ?b = "c_maxBytes c - pair_size (k, v)" and ?f = "spec_remove (recency c) k"
  have rec: "recency c' = (k, v) # keep_fitting ?b ?f"
    using res by (simp add: add_result_def spec_add_def spec_remove_def)
  obtain zs where zs: "?f = keep_fitting ?b ?f @ zs" using keep_fitting_prefix by blast
  have dist: "distinct (map fst (keep_fitting ?b ?f @ zs))"
    using Cache_wfD(3) [OF wf] by (simp flip: zs) (simp add: spec_remove_def distinct_map_filterI)
  have c: "map_of (keep_fitting ?b ?f @ zs) j = Cache_entries c j" if "j \<noteq> k"
    using that by (simp flip: zs) (simp add: spec_remove_def map_of_filter_key Cache_entries_def)
  have c': "Cache_entries c' j = map_of (keep_fitting ?b ?f) j" if "j \<noteq> k"
    using that by (simp add: Cache_entries_def rec)
  have k: "k \<notin> fst ` set ?f" by (auto simp: spec_remove_def)
  have ev: "c_onEvicted c \<Longrightarrow> set ev = set zs"
    using res rec zs by (simp add: add_result_def) (metis same_append_eq set_rev)
  have dropped: "(j, w) \<in> set zs \<longleftrightarrow> j \<noteq> k \<and> Cache_entries c j = Some w \<and> Cache_entries c' j = None"
  proof (cases "j = k")
    case True
    have "set zs \<subseteq> set ?f" using zs by (metis set_append sup_ge2)
    with True k show ?thesis by force
  next
    case False
    have "map_of zs j = Some w \<longleftrightarrow> (j, w) \<in> set zs" using dist by simp
    moreover have "map_of zs j = Some w \<Longrightarrow> map_of (keep_fitting ?b ?f) j = None"
      using dist by (auto simp: map_of_eq_None_iff dest!: map_of_SomeD) (metis IntI empty_iff image_eqI fst_conv)
    ultimately show ?thesis
      using False c c' by (auto simp: map_add_def split: option.splits)
  qed
  have "j \<noteq> k \<longrightarrow> Cache_entries c' j = Cache_entries c j \<or> Cache_entries c' j = None"
    using c c' by (auto simp: map_add_def split: option.splits)
  moreover have "Cache_entries c' k = Some v" by (simp add: Cache_entries_def rec)
  moreover have "Cache_inv c'" using res by (simp add: add_result_def)
  ultimately show ?thesis using dropped ev by simp
qed

interpretation lru: cache_store Cache_Get Cache_Add Cache_Remove Cache_inv Cache_entries
  Cache_admits c_onEvicted
proof (unfold_locales, goal_cases)
  case (1 s k) then show ?case by (simp add: Cache_inv_def Cache_Get_spec)
next
  case (2 s k) then show ?case
    by (simp add: Cache_inv_def Cache_entries_def Cache_Get_spec spec_get_map)
next
  case (3 s k) then show ?case by (simp add: Cache_inv_def Cache_Get_spec)
next
  case (4 s k) then show ?case
    by (simp add: Cache_inv_def Cache_entries_def Cache_Remove_spec spec_remove_def map_of_filter_key)
next
  case (5 s k) then show ?case by (simp add: Cache_inv_def Cache_Remove_spec)
next
  case (6 s k) then show ?case
    by (auto simp: Cache_inv_def Cache_Remove_spec(3,4) intro: order_trans [OF Cache_Remove_spec(5)])
next
  case (7 s k v) then show ?case
    using Cache_Add_spec [of s k v] by (auto simp: Cache_inv_def Cache_admits_def)
next
  case (8 s k v s' ev) then show ?case using Cache_Add_entries [of s k v s' ev] by simp
next
  case (9 s k v s' ev) then show ?case using Cache_Add_entries [of s k v s' ev] by simp
next
  case (10 s k v s' ev j) then show ?case using Cache_Add_entries [of s k v s' ev j] by simp
next
  case (11 s k v s' ev j w) then show ?case using Cache_Add_entries [of s k v s' ev j w] by simp
qed

section \<open>Properties\<close>

lemma keep_fitting_longest:
  "0 \<le> b \<Longrightarrow> xs = keep_fitting b xs @ y # ys \<Longrightarrow>
    b < sum_list (map pair_size (keep_fitting b xs @ [y]))"
proof (induction b xs arbitrary: ys rule: keep_fitting.induct)
  case (1 b xs)
  show ?case
  proof (cases "xs = [] \<or> sum_list (map pair_size xs) \<le> b")
    case True
    then have "keep_fitting b xs = xs" by (simp add: keep_fitting.simps [of b xs])
    with 1 show ?thesis by simp
  next
    case False
    then have eq: "keep_fitting b xs = keep_fitting b (butlast xs)"
      by (simp add: keep_fitting.simps [of b xs])
    show ?thesis
    proof (cases ys rule: rev_cases)
      case Nil
      with 1 eq have "xs = keep_fitting b (butlast xs) @ [y]" by simp
      with False eq show ?thesis by (metis linorder_not_le)
    next
      case (snoc zs z)
      with 1 eq have "xs = (keep_fitting b (butlast xs) @ y # zs) @ [z]" by simp
      then have "butlast xs = keep_fitting b (butlast xs) @ y # zs" by (metis butlast_snoc)
      with 1 False eq show ?thesis by (metis)
    qed
  qed
qed

lemma Cache_New_inv: "0 \<le> b \<Longrightarrow> Cache_inv (Cache_New b cb)"
  by (simp add: Cache_inv_def Cache_wf_def Cache_New_def)

lemma Cache_New_entries: "Cache_entries (Cache_New b cb) = Map.empty"
  by (simp add: Cache_entries_def recency_def Cache_New_def)

text \<open>A concrete cache for the examples below: two entries, the older one used again.\<close>

definition lru_example :: Cache where
  "lru_example =
     (case run_ops Cache_Get Cache_Add Cache_Remove (Cache_New 30 True) ex_ops of
        Some c \<Rightarrow> c | None \<Rightarrow> Cache_New 0 False)"

lemma lru_example_inv: "Cache_inv lru_example"
proof -
  have adm: "admitted Cache_Get Cache_Add Cache_Remove Cache_admits (Cache_New 30 True) ex_ops"
    by code_simp
  have "Cache_inv (Cache_New 30 True)" by (simp add: Cache_New_inv)
  from lru.run_lossy [OF this adm] show ?thesis by (auto simp: lru_example_def)
qed

lemma lru_example_eval:
  "c_maxBytes lru_example = 30" "c_onEvicted lru_example"
  "recency lru_example =
    [(''a'', ex_view ''0123456789''), (''b'', ex_view ''0123456789'')]"
  "c_cache lru_example ''c'' = None"
  by code_simp+

text \<open>
  C29: Inserting or updating an entry that fits into the capacity always returns, keeps the
  invariant (the list and the index agree, \<open>usedBytes\<close> is the size of the stored entries
  and at most \<open>maxBytes\<close>), and takes the recency list to the specified one: the entry in
  front, then the longest run of the most recent other entries that still fits. The
  callback is called on exactly the entries dropped, least recent first.
\<close>

theorem lru_add_refines:
  assumes "Cache_inv c" and "len k + Value_Len v \<le> c_maxBytes c"
  shows "\<exists>c' ev. Cache_Add c k v = Some (c', ev) \<and> Cache_inv c' \<and>
    recency c' = spec_add (c_maxBytes c) (recency c) k v \<and>
    (\<forall>y ys. spec_remove (recency c) k = tl (recency c') @ y # ys \<longrightarrow>
       c_maxBytes c < sum_list (map pair_size (recency c' @ [y]))) \<and>
    (c_onEvicted c \<longrightarrow> spec_remove (recency c) k = tl (recency c') @ rev ev)"
proof -
  have "Cache_wf c" using assms(1) by (simp add: Cache_inv_def)
  from Cache_Add_spec [OF this assms(2)] obtain c' ev
    where add: "Cache_Add c k v = Some (c', ev)" and res: "add_result c k v c' ev" by blast
  let ?b = "c_maxBytes c - pair_size (k, v)" and ?f = "spec_remove (recency c) k"
  have rec: "recency c' = (k, v) # keep_fitting ?b ?f"
    using res by (simp add: add_result_def spec_add_def spec_remove_def)
  have "c_maxBytes c < sum_list (map pair_size (recency c' @ [y]))"
    if "?f = tl (recency c') @ y # ys" for y ys
  proof -
    from that rec have "?f = keep_fitting ?b ?f @ y # ys" by simp
    then have "?b < sum_list (map pair_size (keep_fitting ?b ?f @ [y]))"
      using assms(2) by (intro keep_fitting_longest) (simp_all add: pair_size_def)
    then show ?thesis unfolding rec by simp
  qed
  with add res show ?thesis unfolding add_result_def by blast
qed

theorem lru_add_refines_witness:
  "Cache_inv lru_example \<and> len ''c'' + Value_Len (ex_view ''0123456789'') \<le> c_maxBytes lru_example \<and>
   (\<exists>c' ev. Cache_Add lru_example ''c'' (ex_view ''0123456789'') = Some (c', ev) \<and> Cache_inv c' \<and>
     recency c' = [(''c'', ex_view ''0123456789''), (''a'', ex_view ''0123456789'')])"
proof -
  have fits: "len ''c'' + Value_Len (ex_view ''0123456789'') \<le> c_maxBytes lru_example"
    by code_simp
  have "spec_add (c_maxBytes lru_example) (recency lru_example) ''c'' (ex_view ''0123456789'')
      = [(''c'', ex_view ''0123456789''), (''a'', ex_view ''0123456789'')]"
    by code_simp
  with lru_add_refines [OF lru_example_inv fits] lru_example_inv fits show ?thesis by auto
qed

text \<open>
  Lookup and removal agree with the recency list: a hit returns the stored value and moves
  the entry to the front, a miss changes nothing, removal deletes the key and reports whether
  it was there; both keep the invariant.
\<close>

theorem lru_get_remove_refine:
  assumes "Cache_inv c"
  shows "fst (Cache_Get c k) = map_of (recency c) k \<and>
    recency (snd (Cache_Get c k)) = spec_get (recency c) k \<and> Cache_inv (snd (Cache_Get c k)) \<and>
    (fst (Cache_Remove c k) \<longleftrightarrow> k \<in> fst ` set (recency c)) \<and>
    recency (snd (Cache_Remove c k)) = spec_remove (recency c) k \<and>
    Cache_inv (snd (Cache_Remove c k))"
proof -
  have wf: "Cache_wf c" using assms by (simp add: Cache_inv_def)
  have "Cache_entries c k \<noteq> None \<longleftrightarrow> k \<in> fst ` set (recency c)"
    by (simp add: Cache_entries_def map_of_eq_None_iff)
  with Cache_Get_spec [OF wf, of k] Cache_Remove_spec [OF wf, of k]
    lru.get_invar [OF assms, of k] lru.remove_invar [OF assms, of k]
  show ?thesis by (simp add: Cache_entries_def)
qed

theorem lru_get_remove_refine_witness:
  "Cache_inv lru_example \<and> fst (Cache_Get lru_example ''b'') = Some (ex_view ''0123456789'') \<and>
   recency (snd (Cache_Get lru_example ''b'')) =
     [(''b'', ex_view ''0123456789''), (''a'', ex_view ''0123456789'')]"
proof -
  have "map_of (recency lru_example) ''b'' = Some (ex_view ''0123456789'')"
    "spec_get (recency lru_example) ''b'' =
      [(''b'', ex_view ''0123456789''), (''a'', ex_view ''0123456789'')]"
    by code_simp+
  with lru_get_remove_refine [OF lru_example_inv, of "''b''"] lru_example_inv show ?thesis by simp
qed

text \<open>
  C33: Inserting a new key returns exactly when key and value fit into the capacity. Otherwise
  the eviction loop empties the cache and then runs forever, with the mutex held.
\<close>

theorem lru_add_new_returns_iff:
  assumes "Cache_inv c" and "k \<notin> fst ` set (recency c)"
  shows "(\<exists>r. Cache_Add c k v = Some r) \<longleftrightarrow> len k + Value_Len v \<le> c_maxBytes c"
proof -
  have wf: "Cache_wf c" using assms(1) by (simp add: Cache_inv_def)
  have none: "c_cache c k = None" using Cache_keys [OF wf] assms(2) by simp
  show ?thesis
    using Cache_Add_spec [OF wf, of k v] Cache_Add_oversize_diverges [OF wf none, of v]
    by (cases "len k + Value_Len v \<le> c_maxBytes c") auto
qed

theorem lru_add_new_returns_iff_witness:
  "Cache_inv lru_example \<and> ''c'' \<notin> fst ` set (recency lru_example) \<and>
   Cache_Add lru_example ''c'' (ex_view ''0123456789012345678901234567890123456789'') = None"
proof -
  have n: "''c'' \<notin> fst ` set (recency lru_example)" by (simp add: lru_example_eval)
  have "\<not> len ''c'' + Value_Len (ex_view ''0123456789012345678901234567890123456789'')
      \<le> c_maxBytes lru_example" by code_simp
  with lru_add_new_returns_iff [OF lru_example_inv n] n lru_example_inv show ?thesis
    by (metis not_Some_eq)
qed

text \<open>
  After any sequence of operations on a fresh LRU cache whose insertions all fit, the run has
  returned and a lookup that hits returns what an unbounded map would hold at that key.
\<close>

theorem lru_never_stale:
  assumes "0 \<le> b"
    and "admitted Cache_Get Cache_Add Cache_Remove Cache_admits (Cache_New b cb) xs"
  shows "\<exists>c. run_ops Cache_Get Cache_Add Cache_Remove (Cache_New b cb) xs = Some c \<and>
    Cache_inv c \<and>
    (\<forall>k v. fst (Cache_Get c k) = Some v \<longrightarrow> ideal_run Map.empty xs k = Some v)"
proof -
  note inv = Cache_New_inv [OF assms(1), of cb]
  from lru.run_lossy [OF inv assms(2)] obtain c where
    c: "run_ops Cache_Get Cache_Add Cache_Remove (Cache_New b cb) xs = Some c" "Cache_inv c"
    by blast
  with lru.run_get_fresh [OF inv assms(2) c(1)] show ?thesis by (auto simp: Cache_New_entries)
qed

theorem lru_never_stale_witness:
  "(0::int) \<le> 30 \<and>
   admitted Cache_Get Cache_Add Cache_Remove Cache_admits (Cache_New 30 True) ex_ops \<and>
   (\<exists>c. run_ops Cache_Get Cache_Add Cache_Remove (Cache_New 30 True) ex_ops = Some c \<and> Cache_inv c)"
proof -
  have adm: "admitted Cache_Get Cache_Add Cache_Remove Cache_admits (Cache_New 30 True) ex_ops"
    by code_simp
  have "(0::int) \<le> 30" by simp
  from lru_never_stale [OF this adm] adm show ?thesis by auto
qed

text \<open>
  Updating a present key with a value that does not fit, when the loop ends at all, evicts
  the entry being updated: the update is lost, the cache is empty, and \<open>usedBytes\<close> is left at
  the difference of the two lengths instead of 0.
\<close>

theorem lru_update_oversize_corrupts:
  assumes "Cache_inv c" and "map_of (recency c) k = Some w"
    and "c_maxBytes c < len k + Value_Len v" and "Value_Len v - Value_Len w \<le> c_maxBytes c"
  shows "\<exists>c' ev. Cache_Add c k v = Some (c', ev) \<and> recency c' = [] \<and>
    c_usedBytes c' = Value_Len v - Value_Len w"
  using Cache_Add_oversize_update [of c k w v] assms
  by (fastforce simp: Cache_inv_def Cache_entries_def recency_def)

theorem lru_update_oversize_corrupts_witness:
  "Cache_inv lru_example \<and>
   (\<exists>c' ev. Cache_Add lru_example ''a'' (ex_view ''0123456789012345678901234567890123456789'')
       = Some (c', ev) \<and> recency c' = [] \<and> c_usedBytes c' = 30)"
proof -
  let ?v = "ex_view ''0123456789012345678901234567890123456789''" and ?w = "ex_view ''0123456789''"
  have a: "map_of (recency lru_example) ''a'' = Some ?w" by (simp add: lru_example_eval)
  have b: "c_maxBytes lru_example < len ''a'' + Value_Len ?v"
    "Value_Len ?v - Value_Len ?w \<le> c_maxBytes lru_example" "Value_Len ?v - Value_Len ?w = 30"
    by code_simp+
  from lru_update_oversize_corrupts [OF lru_example_inv a b(1,2)] lru_example_inv b(3)
  show ?thesis by auto
qed

end
