(* ===== verification/LFU.thy ===== *)
theory LFU
  imports GoList CacheStore "HOL-Library.Multiset"
begin

text \<open>
  \<open>lru/lfu.go\<close>: the byte-bounded LFU cache. The Go map \<open>items\<close> is an association list whose
  order is the iteration order of the \<open>range\<close> loop that looks for the victim; Go leaves that
  order open, and \<open>lfu_victim_order\<close> shows that it does not matter. The entries are pointers
  in the code: the entry \<open>Add\<close> updates may have been evicted by the loop just before, and the
  write then reaches no entry of the map.
\<close>

section \<open>State\<close>

record lfuEnt =
  e_key :: string
  e_value :: Value
  e_freq :: int
  e_seq :: int

record LFU =
  f_maxBytes :: int
  f_usedBytes :: int
  f_items :: "(string \<times> lfuEnt) list"
  f_nextSeq :: int
  f_onEvicted :: bool

definition NewLFU :: "int \<Rightarrow> bool \<Rightarrow> LFU" where
  "NewLFU maxBytes onEvicted =
     \<lparr>f_maxBytes = maxBytes, f_usedBytes = 0, f_items = [], f_nextSeq = 0,
      f_onEvicted = onEvicted\<rparr>"

section \<open>Operations\<close>

text \<open>Writing through the pointer stored at a key, if it is still there.\<close>

definition items_set :: "string \<Rightarrow> lfuEnt \<Rightarrow> (string \<times> lfuEnt) list \<Rightarrow> (string \<times> lfuEnt) list" where
  "items_set k e xs = map (\<lambda>p. if fst p = k then (k, e) else p) xs"

definition items_delete :: "string \<Rightarrow> (string \<times> lfuEnt) list \<Rightarrow> (string \<times> lfuEnt) list" where
  "items_delete k xs = filter (\<lambda>p. fst p \<noteq> k) xs"

definition LFU_Get :: "LFU \<Rightarrow> string \<Rightarrow> Value option \<times> LFU" where
  "LFU_Get f key =
     (case map_of (f_items f) key of
        None \<Rightarrow> (None, f)
      | Some e \<Rightarrow>
          (Some (e_value e), f\<lparr>f_items := items_set key (e\<lparr>e_freq := e_freq e + 1\<rparr>) (f_items f)\<rparr>))"

text \<open>The \<open>range\<close> loop of \<open>evictOneLocked\<close>.\<close>

fun lfu_victim :: "lfuEnt option \<Rightarrow> lfuEnt list \<Rightarrow> lfuEnt option" where
  "lfu_victim victim [] = victim"
| "lfu_victim victim (e # es) =
     lfu_victim
       (case victim of
          None \<Rightarrow> Some e
        | Some w \<Rightarrow>
            if e_freq e < e_freq w \<or> (e_freq e = e_freq w \<and> e_seq e < e_seq w) then Some e
            else Some w) es"

definition LFU_evictOneLocked :: "LFU \<times> evictions \<Rightarrow> LFU \<times> evictions" where
  "LFU_evictOneLocked s =
     (let f = fst s; ev = snd s in
      if f_items f = [] then (f, ev)
      else case lfu_victim None (map snd (f_items f)) of
        None \<Rightarrow> (f, ev)
      | Some w \<Rightarrow>
          (f\<lparr>f_items := items_delete (e_key w) (f_items f),
             f_usedBytes := f_usedBytes f - (len (e_key w) + Value_Len (e_value w))\<rparr>,
           if f_onEvicted f then ev @ [(e_key w, e_value w)] else ev))"

definition LFU_evictLoop :: "int \<Rightarrow> LFU \<times> evictions \<Rightarrow> (LFU \<times> evictions) option" where
  "LFU_evictLoop need =
     go_for (\<lambda>s. f_usedBytes (fst s) + need > f_maxBytes (fst s))
       (\<lambda>s. Some (LFU_evictOneLocked s))"

definition LFU_Add :: "LFU \<Rightarrow> string \<Rightarrow> Value \<Rightarrow> (LFU \<times> evictions) option" where
  "LFU_Add f key value =
     (case map_of (f_items f) key of
        Some e \<Rightarrow>
          Option.bind
            (LFU_evictLoop (Value_Len value)
              (f\<lparr>f_usedBytes := f_usedBytes f - Value_Len (e_value e)\<rparr>, []))
            (\<lambda>(f1, ev). Some
              (f1\<lparr>f_items := items_set key (e\<lparr>e_value := value, e_freq := e_freq e + 1\<rparr>) (f_items f1),
                  f_usedBytes := f_usedBytes f1 + Value_Len value\<rparr>, ev))
      | None \<Rightarrow>
          Option.bind (LFU_evictLoop (len key + Value_Len value) (f, []))
            (\<lambda>(f1, ev). Some
              (f1\<lparr>f_nextSeq := f_nextSeq f1 + 1,
                  f_items := (key, \<lparr>e_key = key, e_value = value, e_freq = 1,
                                    e_seq = f_nextSeq f1 + 1\<rparr>) # f_items f1,
                  f_usedBytes := f_usedBytes f1 + (len key + Value_Len value)\<rparr>, ev)))"

definition LFU_Remove :: "LFU \<Rightarrow> string \<Rightarrow> bool \<times> LFU" where
  "LFU_Remove f key =
     (case map_of (f_items f) key of
        None \<Rightarrow> (False, f)
      | Some e \<Rightarrow>
          (True, f\<lparr>f_items := items_delete key (f_items f),
                   f_usedBytes := f_usedBytes f - (len (e_key e) + Value_Len (e_value e))\<rparr>))"

section \<open>Invariant and abstraction\<close>

definition ent_size :: "lfuEnt \<Rightarrow> int" where
  "ent_size e = len (e_key e) + Value_Len (e_value e)"

definition items_size :: "(string \<times> lfuEnt) list \<Rightarrow> int" where
  "items_size xs = (\<Sum>p\<leftarrow>xs. ent_size (snd p))"

text \<open>
  The order in which entries are given up: lower frequency first, then earlier insertion. It is the
  linear order of their ranks.
\<close>

datatype rank = Rank (r_freq: int) (r_seq: int)

instantiation rank :: linorder
begin

definition less_rank :: "rank \<Rightarrow> rank \<Rightarrow> bool" where
  "less_rank x y \<longleftrightarrow> r_freq x < r_freq y \<or> (r_freq x = r_freq y \<and> r_seq x < r_seq y)"

definition less_eq_rank :: "rank \<Rightarrow> rank \<Rightarrow> bool" where
  "less_eq_rank x y \<longleftrightarrow> r_freq x < r_freq y \<or> (r_freq x = r_freq y \<and> r_seq x \<le> r_seq y)"

instance
  by intro_classes (auto simp: less_rank_def less_eq_rank_def rank.expand)

end

definition rank_of :: "lfuEnt \<Rightarrow> rank" where
  "rank_of e = Rank (e_freq e) (e_seq e)"

definition before :: "lfuEnt \<Rightarrow> lfuEnt \<Rightarrow> bool" where
  "before x y \<longleftrightarrow> rank_of x < rank_of y"

text \<open>Keys and sequence numbers are distinct, and each entry is filed under its own key.\<close>

definition items_ok :: "(string \<times> lfuEnt) list \<Rightarrow> bool" where
  "items_ok xs \<longleftrightarrow> distinct (map fst xs) \<and> distinct (map (\<lambda>p. e_seq (snd p)) xs) \<and>
     (\<forall>p\<in>set xs. e_key (snd p) = fst p)"

definition LFU_wf :: "LFU \<Rightarrow> bool" where
  "LFU_wf f \<longleftrightarrow> items_ok (f_items f) \<and> (\<forall>p\<in>set (f_items f). e_seq (snd p) \<le> f_nextSeq f) \<and>
     f_usedBytes f = items_size (f_items f)"

definition LFU_inv :: "LFU \<Rightarrow> bool" where
  "LFU_inv f \<longleftrightarrow> LFU_wf f \<and> f_usedBytes f \<le> f_maxBytes f"

definition LFU_entries :: "LFU \<Rightarrow> string \<Rightarrow> Value option" where
  "LFU_entries f k = map_option e_value (map_of (f_items f) k)"

section \<open>The victim\<close>

lemma before_iff: "before x y \<longleftrightarrow> e_freq x < e_freq y \<or> (e_freq x = e_freq y \<and> e_seq x < e_seq y)"
  by (simp add: before_def rank_of_def less_rank_def)

lemma before_trans: "before x y \<Longrightarrow> before y z \<Longrightarrow> before x z"
  unfolding before_def by (rule less_trans)

lemma not_before_trans: "\<not> before y x \<Longrightarrow> \<not> before z y \<Longrightarrow> \<not> before z x"
  unfolding before_def not_less by (rule order_trans)

lemma before_irrefl [simp]: "\<not> before x x"
  by (simp add: before_def)

lemma before_total: "e_seq x \<noteq> e_seq y \<Longrightarrow> before x y \<or> before y x"
  unfolding before_def by (metis neqE rank_of_def rank.sel(2))

lemma lfu_victim_Some:
  "\<exists>w. lfu_victim (Some v) es = Some w \<and> w \<in> insert v (set es) \<and>
    (\<forall>e\<in>insert v (set es). \<not> before e w)"
proof (induction es arbitrary: v)
  case Nil
  then show ?case by simp
next
  case (Cons e es)
  let ?u = "if before e v then e else v"
  have eq: "lfu_victim (Some v) (e # es) = lfu_victim (Some ?u) es"
    by (auto simp: before_iff)
  obtain w where w: "lfu_victim (Some ?u) es = Some w" "w \<in> insert ?u (set es)"
    "\<forall>x\<in>insert ?u (set es). \<not> before x w" using Cons.IH by blast
  have "\<not> before e ?u" "\<not> before v ?u" by (auto simp: before_iff)
  then have "\<not> before e w" "\<not> before v w" using w(3) not_before_trans by blast+
  moreover have "w \<in> insert v (set (e # es))" using w(2) by (auto split: if_splits)
  ultimately show ?case using eq w by auto
qed

lemma lfu_victim_min:
  assumes "es \<noteq> []"
  shows "\<exists>w. lfu_victim None es = Some w \<and> w \<in> set es \<and> (\<forall>e\<in>set es. \<not> before e w)"
  using assms lfu_victim_Some [of "hd es" "tl es"] by (cases es) auto

text \<open>With distinct sequence numbers the minimum is unique.\<close>

lemma lfu_victim_unique:
  assumes "distinct (map e_seq es)" and "es \<noteq> []"
  shows "lfu_victim None es = Some w \<longleftrightarrow> w \<in> set es \<and> (\<forall>e\<in>set es. e \<noteq> w \<longrightarrow> before w e)"
proof -
  obtain m where m: "lfu_victim None es = Some m" "m \<in> set es" "\<forall>e\<in>set es. \<not> before e m"
    using lfu_victim_min [OF assms(2)] by blast
  have tot: "x \<in> set es \<Longrightarrow> y \<in> set es \<Longrightarrow> x \<noteq> y \<Longrightarrow> before x y \<or> before y x" for x y
    using assms(1) before_total by (auto simp: distinct_map inj_on_def)
  show ?thesis
  proof
    assume "lfu_victim None es = Some w"
    with m tot show "w \<in> set es \<and> (\<forall>e\<in>set es. e \<noteq> w \<longrightarrow> before w e)" by fastforce
  next
    assume "w \<in> set es \<and> (\<forall>e\<in>set es. e \<noteq> w \<longrightarrow> before w e)"
    with m show "lfu_victim None es = Some w" by metis
  qed
qed

section \<open>The eviction loop\<close>

lemma items_okD:
  assumes "items_ok xs"
  shows "distinct (map fst xs)" "distinct (map e_seq (map snd xs))"
    "\<And>p. p \<in> set xs \<Longrightarrow> e_key (snd p) = fst p"
    "\<And>p q. p \<in> set xs \<Longrightarrow> q \<in> set xs \<Longrightarrow> snd p = snd q \<longleftrightarrow> p = q"
proof -
  show *: "distinct (map fst xs)" "distinct (map e_seq (map snd xs))"
    "\<And>p. p \<in> set xs \<Longrightarrow> e_key (snd p) = fst p"
    using assms by (auto simp: items_ok_def comp_def)
  show "snd p = snd q \<longleftrightarrow> p = q" if "p \<in> set xs" "q \<in> set xs" for p q
    using *(3) [OF that(1)] *(3) [OF that(2)] by (auto simp: prod_eq_iff)
qed

lemma items_ok_filter: "items_ok xs \<Longrightarrow> items_ok (filter P xs)"
  by (auto simp: items_ok_def distinct_map_filterI)

lemma items_delete_eq:
  assumes "items_ok xs" and "w \<in> snd ` set xs"
  shows "items_delete (e_key w) xs = filter (\<lambda>p. snd p \<noteq> w) xs"
  unfolding items_delete_def
proof (rule filter_cong)
  fix p assume p: "p \<in> set xs"
  from assms(2) obtain q where q: "q \<in> set xs" "w = snd q" by blast
  have "inj_on fst (set xs)" using items_okD(1) [OF assms(1)] by (simp add: distinct_map)
  then have "fst p = fst q \<longleftrightarrow> p = q" using p q(1) by (auto dest: inj_onD)
  then show "fst p \<noteq> e_key w \<longleftrightarrow> snd p \<noteq> w"
    using p q items_okD(3,4) [OF assms(1)] by auto
qed simp

lemma items_size_simps [simp]:
  "items_size [] = 0" "items_size (p # xs) = ent_size (snd p) + items_size xs"
  by (simp_all add: items_size_def)

lemma ent_size_nonneg [simp]: "0 \<le> ent_size e"
  by (simp add: ent_size_def)

lemma items_size_nonneg [simp]: "0 \<le> items_size xs"
  by (simp add: items_size_def sum_list_nonneg_int)

lemma items_size_filter:
  assumes "items_ok xs" and "w \<in> snd ` set xs"
  shows "items_size (filter (\<lambda>p. snd p \<noteq> w) xs) = items_size xs - ent_size w"
proof -
  from assms(2) obtain q where q: "q \<in> set xs" "w = snd q" by blast
  have "filter (\<lambda>p. snd p \<noteq> w) xs = filter (\<lambda>p. fst p \<noteq> fst q) xs"
    using items_delete_eq [OF assms] items_okD(3) [OF assms(1) q(1)] q(2)
    by (simp add: items_delete_def)
  then show ?thesis
    using sum_list_filter_remove [OF items_okD(1) [OF assms(1)] q(1), of "\<lambda>p. ent_size (snd p)"]
    by (simp add: items_size_def q(2))
qed

lemma LFU_evictOne:
  assumes ok: "items_ok (f_items f)" and ne: "f_items f \<noteq> []"
    and used: "f_usedBytes f = items_size (f_items f) - d"
  obtains w where "w \<in> snd ` set (f_items f)"
    "\<forall>p\<in>set (f_items f). snd p \<noteq> w \<longrightarrow> before w (snd p)"
    "LFU_evictOneLocked (f, ev) =
      (f\<lparr>f_items := filter (\<lambda>p. snd p \<noteq> w) (f_items f),
         f_usedBytes := items_size (filter (\<lambda>p. snd p \<noteq> w) (f_items f)) - d\<rparr>,
       if f_onEvicted f then ev @ [(e_key w, e_value w)] else ev)"
proof -
  let ?es = "map snd (f_items f)"
  have "?es \<noteq> []" using ne by simp
  from lfu_victim_min [OF this] obtain w where w: "lfu_victim None ?es = Some w" by blast
  have min: "w \<in> set ?es" "\<forall>e\<in>set ?es. e \<noteq> w \<longrightarrow> before w e"
    using lfu_victim_unique [OF items_okD(2) [OF ok] \<open>?es \<noteq> []\<close>] w by blast+
  then have in_items: "w \<in> snd ` set (f_items f)" by simp
  show thesis
    using min ne w used items_delete_eq [OF ok in_items] items_size_filter [OF ok in_items]
    by (intro that [of w]) (auto simp: LFU_evictOneLocked_def Let_def ent_size_def)
qed

text \<open>
  What a run of the loop leaves: the entries it gave up form a list \<open>ds\<close> in the order
  \<open>before\<close>, each of them comes before every entry kept, what is kept fits, and the last entry
  given up had to go.
\<close>

definition evicted_lowest ::
  "(string \<times> lfuEnt) list \<Rightarrow> lfuEnt list \<Rightarrow> (string \<times> lfuEnt) list \<Rightarrow> bool" where
  "evicted_lowest xs ds ys \<longleftrightarrow>
     ys = filter (\<lambda>p. snd p \<notin> set ds) xs \<and> set ds \<subseteq> snd ` set xs \<and> sorted_wrt before ds \<and>
     (\<forall>d\<in>set ds. \<forall>p\<in>set ys. before d (snd p))"

lemma LFU_evictLoop_spec:
  assumes "items_ok (f_items f)" and "f_usedBytes f = items_size (f_items f) - d"
    and "need - d \<le> f_maxBytes f"
  shows "\<exists>ds ys. LFU_evictLoop need (f, ev) =
      Some (f\<lparr>f_items := ys, f_usedBytes := items_size ys - d\<rparr>,
            ev @ (if f_onEvicted f then map (\<lambda>e. (e_key e, e_value e)) ds else [])) \<and>
    evicted_lowest (f_items f) ds ys \<and> items_size ys - d + need \<le> f_maxBytes f \<and>
    (ds \<noteq> [] \<longrightarrow> f_maxBytes f < items_size ys + ent_size (last ds) - d + need)"
  using assms
proof (induction "length (f_items f)" arbitrary: f ev rule: less_induct)
  case less
  let ?xs = "f_items f"
  show ?case
  proof (cases "f_usedBytes f + need > f_maxBytes f")
    case False
    then have "LFU_evictLoop need (f, ev) = Some (f, ev)"
      by (simp add: LFU_evictLoop_def go_for_stop)
    then show ?thesis
      using less.prems(2) False
      by (intro exI [of _ "[]"] exI [of _ ?xs]) (simp add: evicted_lowest_def)
  next
    case True
    then have "?xs \<noteq> []" using less.prems(2,3) by auto
    obtain w where w: "w \<in> snd ` set ?xs"
      "\<forall>p\<in>set ?xs. snd p \<noteq> w \<longrightarrow> before w (snd p)"
      "LFU_evictOneLocked (f, ev) =
        (f\<lparr>f_items := filter (\<lambda>p. snd p \<noteq> w) ?xs,
           f_usedBytes := items_size (filter (\<lambda>p. snd p \<noteq> w) ?xs) - d\<rparr>,
         if f_onEvicted f then ev @ [(e_key w, e_value w)] else ev)"
      using LFU_evictOne [OF less.prems(1) \<open>?xs \<noteq> []\<close> less.prems(2), where ev = ev] .
    let ?zs = "filter (\<lambda>p. snd p \<noteq> w) ?xs"
    let ?f = "f\<lparr>f_items := ?zs, f_usedBytes := items_size ?zs - d\<rparr>"
    let ?ev = "if f_onEvicted f then ev @ [(e_key w, e_value w)] else ev"
    have step: "LFU_evictLoop need (f, ev) = LFU_evictLoop need (?f, ?ev)"
      unfolding LFU_evictLoop_def using True w(3) by (intro go_for_cong_step) simp_all
    have "length ?zs < length ?xs" using w(1) by (auto intro!: length_filter_less)
    then have "\<exists>ds ys. LFU_evictLoop need (?f, ?ev) =
        Some (?f\<lparr>f_items := ys, f_usedBytes := items_size ys - d\<rparr>,
            ?ev @ (if f_onEvicted ?f then map (\<lambda>e. (e_key e, e_value e)) ds else [])) \<and>
      evicted_lowest (f_items ?f) ds ys \<and> items_size ys - d + need \<le> f_maxBytes ?f \<and>
      (ds \<noteq> [] \<longrightarrow> f_maxBytes ?f < items_size ys + ent_size (last ds) - d + need)"
      using less.prems by (intro less.hyps) (simp_all add: items_ok_filter)
    then obtain ds ys where r: "LFU_evictLoop need (?f, ?ev) =
        Some (f\<lparr>f_items := ys, f_usedBytes := items_size ys - d\<rparr>,
            ?ev @ (if f_onEvicted f then map (\<lambda>e. (e_key e, e_value e)) ds else []))"
      "evicted_lowest ?zs ds ys" "items_size ys - d + need \<le> f_maxBytes f"
      "ds \<noteq> [] \<longrightarrow> f_maxBytes f < items_size ys + ent_size (last ds) - d + need" by auto
    have low: "evicted_lowest ?xs (w # ds) ys"
      using r(2) w(1,2) by (auto simp: evicted_lowest_def intro!: filter_cong)
    have "ds = [] \<Longrightarrow> ys = ?zs" using r(2) by (simp add: evicted_lowest_def)
    then have "f_maxBytes f < items_size ys + ent_size (last (w # ds)) - d + need"
      using r(4) True less.prems(2) items_size_filter [OF less.prems(1) w(1)] by auto
    with r low step show ?thesis by (intro exI [of _ "w # ds"] exI [of _ ys]) simp
  qed
qed

section \<open>The methods\<close>

lemma LFU_wfD:
  assumes "LFU_wf f"
  shows "items_ok (f_items f)" "f_usedBytes f = items_size (f_items f)"
    "\<And>p. p \<in> set (f_items f) \<Longrightarrow> e_seq (snd p) \<le> f_nextSeq f"
  using assms by (auto simp: LFU_wf_def)

lemma map_of_items_set:
  "map_of (items_set k e xs) = (if k \<in> fst ` set xs then (map_of xs)(k \<mapsto> e) else map_of xs)"
  unfolding items_set_def by (induction xs) (auto simp: fun_eq_iff split: if_splits)

lemma items_set_fst: "map fst (items_set k e xs) = map fst xs"
  by (auto simp: items_set_def)

lemma items_set_absent: "k \<notin> fst ` set xs \<Longrightarrow> items_set k e xs = xs"
  unfolding items_set_def by (intro map_idI) auto

lemma items_ok_set:
  assumes "items_ok xs" and "(k, e) \<in> set xs" and "e_key e' = k" and "e_seq e' = e_seq e"
  shows "items_ok (items_set k e' xs)"
    and "items_size (items_set k e' xs) = items_size xs - ent_size e + ent_size e'"
proof -
  have uniq: "p \<in> set xs \<Longrightarrow> fst p = k \<Longrightarrow> p = (k, e)" for p
    using items_okD(1) [OF assms(1)] assms(2) by (auto simp: distinct_map inj_on_def)
  have seqs: "map (\<lambda>p. e_seq (snd p)) (items_set k e' xs) = map (\<lambda>p. e_seq (snd p)) xs"
    using uniq assms(4) by (auto simp: items_set_def)
  show "items_ok (items_set k e' xs)"
    using assms(1,3) by (simp add: items_ok_def items_set_fst seqs) (auto simp: items_set_def)
  show "items_size (items_set k e' xs) = items_size xs - ent_size e + ent_size e'"
    using items_okD(1) [OF assms(1)] assms(2)
  proof (induction xs)
    case Nil
    then show ?case by simp
  next
    case (Cons p xs)
    show ?case
    proof (cases "fst p = k")
      case True
      with Cons.prems have "p = (k, e)" by (force simp: rev_image_eqI)
      moreover from True Cons.prems(1) have "items_set k e' xs = xs"
        by (intro items_set_absent) simp
      ultimately show ?thesis by (simp add: items_set_def)
    next
      case False
      then show ?thesis using Cons by (auto simp: items_set_def)
    qed
  qed
qed

lemma LFU_lookup:
  "LFU_wf f \<Longrightarrow> map_of (f_items f) k = Some e \<longleftrightarrow> (k, e) \<in> set (f_items f)"
  using items_okD(1) [OF LFU_wfD(1)] by simp

lemma LFU_Get_spec:
  assumes "LFU_wf f"
  shows "fst (LFU_Get f k) = LFU_entries f k"
    and "LFU_entries (snd (LFU_Get f k)) = LFU_entries f"
    and "LFU_wf (snd (LFU_Get f k))"
    and "f_usedBytes (snd (LFU_Get f k)) = f_usedBytes f"
    and "f_maxBytes (snd (LFU_Get f k)) = f_maxBytes f"
proof -
  show "LFU_wf (snd (LFU_Get f k))"
  proof (cases "map_of (f_items f) k")
    case (Some e)
    then have mem: "(k, e) \<in> set (f_items f)" by (rule map_of_SomeD)
    have "e_key (e\<lparr>e_freq := e_freq e + 1\<rparr>) = k" using items_okD(3) [OF LFU_wfD(1) [OF assms] mem] by simp
    from items_ok_set [OF LFU_wfD(1) [OF assms] mem this] Some mem LFU_wfD [OF assms]
    show ?thesis
      by (auto simp: LFU_Get_def LFU_wf_def ent_size_def items_set_def)
  qed (use assms in \<open>simp add: LFU_Get_def\<close>)
qed (auto simp: LFU_Get_def LFU_entries_def map_of_items_set fun_eq_iff split: option.splits)

lemma LFU_Remove_spec:
  assumes "LFU_wf f"
  shows "fst (LFU_Remove f k) \<longleftrightarrow> LFU_entries f k \<noteq> None"
    and "LFU_entries (snd (LFU_Remove f k)) = (LFU_entries f)(k := None)"
    and "LFU_wf (snd (LFU_Remove f k))"
    and "f_usedBytes (snd (LFU_Remove f k)) \<le> f_usedBytes f"
    and "f_maxBytes (snd (LFU_Remove f k)) = f_maxBytes f"
proof -
  show "LFU_wf (snd (LFU_Remove f k))"
  proof (cases "map_of (f_items f) k")
    case (Some e)
    then have mem: "(k, e) \<in> set (f_items f)" by (rule map_of_SomeD)
    then have in_items: "e \<in> snd ` set (f_items f)" and key: "e_key e = k"
      using items_okD(3) [OF LFU_wfD(1) [OF assms] mem] by force+
    have "items_delete k (f_items f) = filter (\<lambda>p. snd p \<noteq> e) (f_items f)"
      using items_delete_eq [OF LFU_wfD(1) [OF assms] in_items] key by simp
    then show ?thesis
      using Some LFU_wfD [OF assms] items_size_filter [OF LFU_wfD(1) [OF assms] in_items]
      by (simp add: LFU_Remove_def LFU_wf_def ent_size_def items_ok_filter)
  qed (use assms in \<open>simp add: LFU_Remove_def\<close>)
  show "f_usedBytes (snd (LFU_Remove f k)) \<le> f_usedBytes f"
    by (auto simp: LFU_Remove_def ent_size_def [symmetric] split: option.splits)
qed (auto simp: LFU_Remove_def LFU_entries_def items_delete_def map_of_del_key fun_eq_iff
    split: option.splits)

text \<open>\<open>Add\<close> of a new key that fits.\<close>

lemma LFU_Add_new:
  assumes "LFU_wf f" and "map_of (f_items f) k = None" and fits: "len k + Value_Len v \<le> f_maxBytes f"
  shows "\<exists>ds ys f'. LFU_Add f k v =
      Some (f', if f_onEvicted f then map (\<lambda>e. (e_key e, e_value e)) ds else []) \<and>
    evicted_lowest (f_items f) ds ys \<and> LFU_inv f' \<and> f_onEvicted f' = f_onEvicted f \<and>
    f_items f' = (k, \<lparr>e_key = k, e_value = v, e_freq = 1, e_seq = f_nextSeq f + 1\<rparr>) # ys \<and>
    (ds \<noteq> [] \<longrightarrow> f_maxBytes f < items_size (f_items f') + ent_size (last ds))"
proof -
  let ?need = "len k + Value_Len v"
  let ?e = "\<lparr>e_key = k, e_value = v, e_freq = 1, e_seq = f_nextSeq f + 1\<rparr>"
  note wf = LFU_wfD [OF assms(1)]
  from LFU_evictLoop_spec [OF wf(1), of 0 ?need "[]"] wf(2) fits obtain ds ys where
    r: "LFU_evictLoop ?need (f, []) =
      Some (f\<lparr>f_items := ys, f_usedBytes := items_size ys\<rparr>,
            if f_onEvicted f then map (\<lambda>e. (e_key e, e_value e)) ds else [])"
    "evicted_lowest (f_items f) ds ys" "items_size ys + ?need \<le> f_maxBytes f"
    "ds \<noteq> [] \<longrightarrow> f_maxBytes f < items_size ys + ent_size (last ds) + ?need" by auto
  let ?f = "f\<lparr>f_nextSeq := f_nextSeq f + 1, f_items := (k, ?e) # ys,
    f_usedBytes := items_size ys + ?need\<rparr>"
  have add: "LFU_Add f k v =
      Some (?f, if f_onEvicted f then map (\<lambda>e. (e_key e, e_value e)) ds else [])"
    using assms(2) r(1) by (simp add: LFU_Add_def)
  have sub: "set ys \<subseteq> set (f_items f)" and ok: "items_ok ys"
    using r(2) wf(1) by (auto simp: evicted_lowest_def items_ok_filter)
  have "k \<notin> fst ` set ys" using assms(2) sub by (auto simp: map_of_eq_None_iff)
  moreover have "\<forall>p\<in>set ys. e_seq (snd p) \<le> f_nextSeq f" using sub wf(3) by blast
  ultimately have "LFU_inv ?f"
    using ok r(3) by (fastforce simp: LFU_inv_def LFU_wf_def items_ok_def ent_size_def)
  with add r show ?thesis
    by (intro exI [of _ ds] exI [of _ ys] exI [of _ ?f]) (auto simp: ent_size_def)
qed

text \<open>
  \<open>Add\<close> on a present key: the loop may choose the very entry that is being updated.
\<close>

lemma LFU_Add_existing:
  assumes "LFU_wf f" and hit: "map_of (f_items f) k = Some e"
    and fits: "len k + Value_Len v \<le> f_maxBytes f"
  shows "\<exists>ds ys f'. LFU_Add f k v =
      Some (f', if f_onEvicted f then map (\<lambda>e. (e_key e, e_value e)) ds else []) \<and>
    evicted_lowest (f_items f) ds ys \<and> f_onEvicted f' = f_onEvicted f \<and>
    f_maxBytes f' = f_maxBytes f \<and> f_usedBytes f' \<le> f_maxBytes f \<and>
    f_items f' = items_set k (e\<lparr>e_value := v, e_freq := e_freq e + 1\<rparr>) ys \<and>
    (e \<notin> set ds \<longrightarrow> LFU_inv f' \<and> LFU_entries f' k = Some v) \<and>
    (e \<in> set ds \<longrightarrow> LFU_entries f' k = None \<and>
       f_usedBytes f' = items_size (f_items f') + Value_Len v - Value_Len (e_value e)) \<and>
    (ds \<noteq> [] \<longrightarrow> f_maxBytes f < f_usedBytes f' + ent_size (last ds))"
proof -
  let ?d = "Value_Len (e_value e)" and ?need = "Value_Len v"
  let ?e = "e\<lparr>e_value := v, e_freq := e_freq e + 1\<rparr>"
  note wf = LFU_wfD [OF assms(1)]
  have mem: "(k, e) \<in> set (f_items f)" using hit by (rule map_of_SomeD)
  have key: "e_key e = k" using items_okD(3) [OF wf(1) mem] by simp
  let ?f0 = "f\<lparr>f_usedBytes := f_usedBytes f - ?d\<rparr>"
  have nd: "?need - ?d \<le> f_maxBytes f"
    using fits Value_Len_nonneg [of "e_value e"] len_nonneg [of k] by linarith
  have "\<exists>ds ys. LFU_evictLoop ?need (?f0, []) =
      Some (?f0\<lparr>f_items := ys, f_usedBytes := items_size ys - ?d\<rparr>,
            [] @ (if f_onEvicted ?f0 then map (\<lambda>e. (e_key e, e_value e)) ds else [])) \<and>
    evicted_lowest (f_items ?f0) ds ys \<and> items_size ys - ?d + ?need \<le> f_maxBytes ?f0 \<and>
    (ds \<noteq> [] \<longrightarrow> f_maxBytes ?f0 < items_size ys + ent_size (last ds) - ?d + ?need)"
    using wf nd by (intro LFU_evictLoop_spec) simp_all
  then obtain ds ys where r: "LFU_evictLoop ?need (?f0, []) =
      Some (f\<lparr>f_items := ys, f_usedBytes := items_size ys - ?d\<rparr>,
            if f_onEvicted f then map (\<lambda>e. (e_key e, e_value e)) ds else [])"
    "evicted_lowest (f_items f) ds ys" "items_size ys - ?d + ?need \<le> f_maxBytes f"
    "ds \<noteq> [] \<longrightarrow> f_maxBytes f < items_size ys + ent_size (last ds) - ?d + ?need" by auto
  let ?f = "f\<lparr>f_items := items_set k ?e ys, f_usedBytes := items_size ys - ?d + ?need\<rparr>"
  have add: "LFU_Add f k v =
      Some (?f, if f_onEvicted f then map (\<lambda>e. (e_key e, e_value e)) ds else [])"
    using hit r(1) by (simp add: LFU_Add_def)
  have ys: "ys = filter (\<lambda>p. snd p \<notin> set ds) (f_items f)" and ok: "items_ok ys"
    using r(2) wf(1) by (auto simp: evicted_lowest_def items_ok_filter)
  have kept: "LFU_inv ?f" "LFU_entries ?f k = Some v" if "e \<notin> set ds"
  proof -
    from that mem have mem': "(k, e) \<in> set ys" by (simp add: ys)
    then have "k \<in> fst ` set ys" by force
    moreover from items_ok_set [OF ok mem', of ?e] key
    have "items_ok (items_set k ?e ys)"
      "items_size (items_set k ?e ys) = items_size ys - ?d + ?need" by (simp_all add: ent_size_def)
    moreover have "\<forall>p\<in>set (items_set k ?e ys). e_seq (snd p) \<le> f_nextSeq f"
      using wf(3) mem by (auto simp: items_set_def ys)
    ultimately show "LFU_inv ?f" "LFU_entries ?f k = Some v"
      using r(3) by (simp_all add: LFU_inv_def LFU_wf_def LFU_entries_def map_of_items_set)
  qed
  have lost: "LFU_entries ?f k = None" "f_usedBytes ?f = items_size (f_items ?f) + ?need - ?d"
    if "e \<in> set ds"
  proof -
    have "p \<notin> set ys" if "fst p = k" for p
      using that \<open>e \<in> set ds\<close> LFU_lookup [OF assms(1), of k "snd p"] hit by (cases p) (auto simp: ys)
    then have "k \<notin> fst ` set ys" by blast
    then show "LFU_entries ?f k = None" "f_usedBytes ?f = items_size (f_items ?f) + ?need - ?d"
      by (simp_all add: items_set_absent LFU_entries_def map_of_eq_None_iff)
  qed
  have tight: "f_maxBytes f < f_usedBytes ?f + ent_size (last ds)" if "ds \<noteq> []"
    using r(4) that by simp
  show ?thesis
    by (intro exI [of _ ds] exI [of _ ys] exI [of _ ?f] conjI impI add r(2) kept lost tight)
      (use r(3) in simp_all)
qed

text \<open>\<open>Add\<close> on a present key when nothing has to go.\<close>

lemma LFU_Add_inplace:
  assumes "LFU_wf f" and hit: "map_of (f_items f) k = Some e"
    and room: "f_usedBytes f - Value_Len (e_value e) + Value_Len v \<le> f_maxBytes f"
  shows "\<exists>f'. LFU_Add f k v = Some (f', []) \<and> LFU_inv f' \<and>
    LFU_entries f' = (LFU_entries f)(k \<mapsto> v) \<and> f_onEvicted f' = f_onEvicted f"
proof -
  let ?e = "e\<lparr>e_value := v, e_freq := e_freq e + 1\<rparr>"
  let ?f = "f\<lparr>f_items := items_set k ?e (f_items f),
    f_usedBytes := f_usedBytes f - Value_Len (e_value e) + Value_Len v\<rparr>"
  note wf = LFU_wfD [OF assms(1)]
  have mem: "(k, e) \<in> set (f_items f)" using hit by (rule map_of_SomeD)
  have add: "LFU_Add f k v = Some (?f, [])"
    using hit room by (simp add: LFU_Add_def LFU_evictLoop_def go_for_stop)
  have "\<forall>p\<in>set (items_set k ?e (f_items f)). e_seq (snd p) \<le> f_nextSeq f"
    using wf(3) mem by (auto simp: items_set_def)
  moreover have "e_key ?e = k" using items_okD(3) [OF wf(1) mem] by simp
  ultimately have "LFU_inv ?f"
    using items_ok_set [OF wf(1) mem, of ?e] wf(2) room
    by (simp add: LFU_inv_def LFU_wf_def ent_size_def)
  moreover have "k \<in> fst ` set (f_items f)" using mem by force
  then have "LFU_entries ?f = (LFU_entries f)(k \<mapsto> v)"
    by (auto simp: LFU_entries_def map_of_items_set fun_eq_iff)
  ultimately show ?thesis using add by simp
qed

section \<open>The LFU cache is a cache store\<close>

text \<open>An update of a present key is admitted only when nothing has to be evicted for it.\<close>

definition LFU_admits :: "LFU \<Rightarrow> string \<Rightarrow> Value \<Rightarrow> bool" where
  "LFU_admits f k v \<longleftrightarrow>
     (case LFU_entries f k of
        None \<Rightarrow> len k + Value_Len v \<le> f_maxBytes f
      | Some w \<Rightarrow> f_usedBytes f - Value_Len w + Value_Len v \<le> f_maxBytes f)"

lemma evicted_lowest_entries:
  assumes "LFU_wf f" and "evicted_lowest (f_items f) ds ys"
  shows "map_of ys j = (case map_of (f_items f) j of None \<Rightarrow> None
    | Some e \<Rightarrow> if e \<in> set ds then None else Some e)"
proof -
  have ys: "ys = filter (\<lambda>p. snd p \<notin> set ds) (f_items f)"
    using assms(2) by (simp add: evicted_lowest_def)
  have ok: "items_ok (f_items f)" "items_ok ys"
    using LFU_wfD(1) [OF assms(1)] by (simp_all add: ys items_ok_filter)
  have look: "items_ok xs \<Longrightarrow> map_of xs j = Some e \<longleftrightarrow> (j, e) \<in> set xs" for xs e
    using items_okD(1) by simp
  have iff: "map_of ys j = Some e \<longleftrightarrow> map_of (f_items f) j = Some e \<and> e \<notin> set ds" for e
    using look [OF ok(1), of e] look [OF ok(2), of e] by (auto simp: ys)
  show ?thesis
  proof (cases "map_of ys j")
    case None
    then have "\<And>e. map_of (f_items f) j = Some e \<Longrightarrow> e \<in> set ds" using iff by force
    with None show ?thesis by (auto split: option.splits)
  next
    case (Some e)
    then show ?thesis using iff by auto
  qed
qed

lemma LFU_Add_entries:
  assumes "LFU_inv f" and "LFU_admits f k v"
  shows "\<exists>f' ev. LFU_Add f k v = Some (f', ev) \<and> LFU_inv f' \<and> LFU_entries f' k = Some v \<and>
    (\<forall>j. j \<noteq> k \<longrightarrow> LFU_entries f' j = LFU_entries f j \<or> LFU_entries f' j = None) \<and>
    (f_onEvicted f \<longrightarrow> (\<forall>j w. (j, w) \<in> set ev \<longleftrightarrow>
       j \<noteq> k \<and> LFU_entries f j = Some w \<and> LFU_entries f' j = None))"
proof -
  have wf: "LFU_wf f" using assms(1) by (simp add: LFU_inv_def)
  show ?thesis
  proof (cases "map_of (f_items f) k")
    case (Some e)
    then have "f_usedBytes f - Value_Len (e_value e) + Value_Len v \<le> f_maxBytes f"
      using assms(2) by (simp add: LFU_admits_def LFU_entries_def)
    from LFU_Add_inplace [OF wf Some this] show ?thesis by force
  next
    case None
    then have "len k + Value_Len v \<le> f_maxBytes f"
      using assms(2) by (simp add: LFU_admits_def LFU_entries_def)
    from LFU_Add_new [OF wf None this] obtain ds ys f' where
      add: "LFU_Add f k v =
        Some (f', if f_onEvicted f then map (\<lambda>e. (e_key e, e_value e)) ds else [])"
      and low: "evicted_lowest (f_items f) ds ys" and inv: "LFU_inv f'"
      and items: "f_items f' = (k, \<lparr>e_key = k, e_value = v, e_freq = 1, e_seq = f_nextSeq f + 1\<rparr>) # ys"
      by blast
    note ent = evicted_lowest_entries [OF wf low]
    have others: "LFU_entries f' j = (case map_of (f_items f) j of None \<Rightarrow> None
        | Some e \<Rightarrow> if e \<in> set ds then None else Some (e_value e))" if "j \<noteq> k" for j
      using that by (simp add: LFU_entries_def items ent split: option.splits)
    have ds: "d \<in> set ds \<Longrightarrow> map_of (f_items f) (e_key d) = Some d" for d
      using low items_okD(3) [OF LFU_wfD(1) [OF wf]] LFU_lookup [OF wf, of "e_key d" d]
      by (auto simp: evicted_lowest_def)
    have "(j, w) \<in> (\<lambda>e. (e_key e, e_value e)) ` set ds \<longleftrightarrow>
        j \<noteq> k \<and> LFU_entries f j = Some w \<and> LFU_entries f' j = None" for j w
    proof -
      have mem: "(j, w) \<in> (\<lambda>e. (e_key e, e_value e)) ` set ds \<longleftrightarrow>
          (\<exists>d. map_of (f_items f) j = Some d \<and> d \<in> set ds \<and> e_value d = w)"
        using ds items_okD(3) [OF LFU_wfD(1) [OF wf]] LFU_lookup [OF wf, of j] by force
      show ?thesis
      proof (cases "j = k")
        case True
        then show ?thesis using None mem by simp
      next
        case False
        then show ?thesis
          unfolding mem others [OF False] by (auto simp: LFU_entries_def split: option.splits)
      qed
    qed
    moreover have "\<forall>j. j \<noteq> k \<longrightarrow> LFU_entries f' j = LFU_entries f j \<or> LFU_entries f' j = None"
      using others by (auto simp: LFU_entries_def split: option.splits)
    moreover have "LFU_entries f' k = Some v" by (simp add: LFU_entries_def items)
    ultimately show ?thesis using add inv by (auto simp del: split_paired_Ex)
  qed
qed

interpretation lfu: cache_store LFU_Get LFU_Add LFU_Remove LFU_inv LFU_entries LFU_admits f_onEvicted
proof (unfold_locales, goal_cases)
  case (1 s k) then show ?case by (simp add: LFU_inv_def LFU_Get_spec)
next
  case (2 s k) then show ?case by (simp add: LFU_inv_def LFU_Get_spec)
next
  case (3 s k) then show ?case by (simp add: LFU_inv_def LFU_Get_spec)
next
  case (4 s k) then show ?case by (simp add: LFU_inv_def LFU_Remove_spec)
next
  case (5 s k) then show ?case by (simp add: LFU_inv_def LFU_Remove_spec)
next
  case (6 s k) then show ?case
    by (auto simp: LFU_inv_def LFU_Remove_spec(3,5) intro: order_trans [OF LFU_Remove_spec(4)])
next
  case (7 s k v) then show ?case using LFU_Add_entries [of s k v] by auto
next
  case (8 s k v s' ev) then show ?case using LFU_Add_entries [of s k v] by auto
next
  case (9 s k v s' ev) then show ?case using LFU_Add_entries [of s k v] by auto
next
  case (10 s k v s' ev j) then show ?case using LFU_Add_entries [of s k v] by auto
next
  case (11 s k v s' ev j w) then show ?case using LFU_Add_entries [of s k v] by auto
qed

section \<open>Properties\<close>

lemma NewLFU_inv: "0 \<le> b \<Longrightarrow> LFU_inv (NewLFU b cb)"
  by (simp add: LFU_inv_def LFU_wf_def NewLFU_def items_ok_def)

lemma NewLFU_entries: "LFU_entries (NewLFU b cb) = Map.empty"
  by (simp add: LFU_entries_def NewLFU_def fun_eq_iff)

definition lfu_example :: LFU where
  "lfu_example =
     (case run_ops LFU_Get LFU_Add LFU_Remove (NewLFU 30 True) ex_ops of
        Some f \<Rightarrow> f | None \<Rightarrow> NewLFU 0 False)"

lemma lfu_example_inv: "LFU_inv lfu_example"
proof -
  have adm: "admitted LFU_Get LFU_Add LFU_Remove LFU_admits (NewLFU 30 True) ex_ops" by code_simp
  have "LFU_inv (NewLFU 30 True)" by (simp add: NewLFU_inv)
  from lfu.run_lossy [OF this adm] show ?thesis by (auto simp: lfu_example_def)
qed

text \<open>
  The victim does not depend on the order in which Go iterates over the map: any two orders
  of the same entries, their insertion numbers distinct, give the same victim, and it is the
  entry that comes before all others by frequency and then insertion number.
\<close>

theorem lfu_victim_order:
  assumes "mset es = mset es'" and "distinct (map e_seq es)" and "es \<noteq> []"
  shows "lfu_victim None es = lfu_victim None es' \<and>
    (\<exists>w\<in>set es. lfu_victim None es = Some w \<and> (\<forall>e\<in>set es. e \<noteq> w \<longrightarrow> before w e))"
proof -
  have eq: "set es = set es'" "es' \<noteq> []" "distinct (map e_seq es')"
    using assms by (auto dest: mset_eq_setD) (metis mset_eq_imp_distinct_iff mset_map)
  from lfu_victim_min [OF assms(3)] obtain w where w: "lfu_victim None es = Some w" by blast
  then have "w \<in> set es \<and> (\<forall>e\<in>set es. e \<noteq> w \<longrightarrow> before w e)"
    using lfu_victim_unique [OF assms(2,3)] by blast
  moreover from this have "lfu_victim None es' = Some w"
    using lfu_victim_unique [OF eq(3,2)] eq(1) by blast
  ultimately show ?thesis using w by auto
qed

theorem lfu_victim_order_witness:
  "mset (map snd (f_items lfu_example)) = mset (rev (map snd (f_items lfu_example))) \<and>
   map_option e_key (lfu_victim None (rev (map snd (f_items lfu_example)))) = Some ''b''"
proof -
  let ?es = "map snd (f_items lfu_example)"
  have "distinct (map e_seq ?es)"
    using lfu_example_inv by (simp add: LFU_inv_def LFU_wf_def items_ok_def comp_def)
  moreover have "?es \<noteq> []" by code_simp
  moreover have "map_option e_key (lfu_victim None ?es) = Some ''b''" by code_simp
  moreover have "mset ?es = mset (rev ?es)" by simp
  ultimately show ?thesis using lfu_victim_order [of ?es "rev ?es"] by simp
qed

text \<open>
  C31: Inserting a new key that fits always returns and keeps the invariant; the entries given up
  are reported in the order \<open>before\<close>, each comes before every entry kept, and without the last
  of them the capacity would still be exceeded.
\<close>

theorem lfu_add_new_evicts_lowest:
  assumes "LFU_inv f" and "LFU_entries f k = None" and "len k + Value_Len v \<le> f_maxBytes f"
  shows "\<exists>ds ys f' ev. LFU_Add f k v = Some (f', ev) \<and> LFU_inv f' \<and>
    evicted_lowest (f_items f) ds ys \<and>
    f_items f' = (k, \<lparr>e_key = k, e_value = v, e_freq = 1, e_seq = f_nextSeq f + 1\<rparr>) # ys \<and>
    (f_onEvicted f \<longrightarrow> ev = map (\<lambda>e. (e_key e, e_value e)) ds) \<and>
    (ds \<noteq> [] \<longrightarrow> f_maxBytes f < items_size (f_items f') + ent_size (last ds))"
  using LFU_Add_new [of f k v] assms by (fastforce simp: LFU_inv_def LFU_entries_def)

theorem lfu_add_new_evicts_lowest_witness:
  "LFU_inv lfu_example \<and> LFU_entries lfu_example ''c'' = None \<and>
   (\<exists>f' ev. LFU_Add lfu_example ''c'' (ex_view ''0123456789'') = Some (f', ev) \<and> LFU_inv f' \<and>
      map fst (f_items f') = [''c'', ''a''] \<and> map fst ev = [''b''])"
proof -
  have n: "LFU_entries lfu_example ''c'' = None"
    and fits: "len ''c'' + Value_Len (ex_view ''0123456789'') \<le> f_maxBytes lfu_example"
    and res: "map_option (\<lambda>(f', ev). (map fst (f_items f'), map fst ev))
      (LFU_Add lfu_example ''c'' (ex_view ''0123456789'')) = Some ([''c'', ''a''], [''b''])"
    by code_simp+
  from lfu_add_new_evicts_lowest [OF lfu_example_inv n fits] obtain f' ev where
    "LFU_Add lfu_example ''c'' (ex_view ''0123456789'') = Some (f', ev)" "LFU_inv f'" by blast
  with res n lfu_example_inv show ?thesis by auto
qed

text \<open>
  After any sequence of operations on a fresh LFU cache whose insertions are all admitted, the
  run has returned and a lookup that hits returns what an unbounded map would hold.
\<close>

theorem lfu_never_stale:
  assumes "0 \<le> b" and "admitted LFU_Get LFU_Add LFU_Remove LFU_admits (NewLFU b cb) xs"
  shows "\<exists>f. run_ops LFU_Get LFU_Add LFU_Remove (NewLFU b cb) xs = Some f \<and> LFU_inv f \<and>
    (\<forall>k v. fst (LFU_Get f k) = Some v \<longrightarrow> ideal_run Map.empty xs k = Some v)"
proof -
  note inv = NewLFU_inv [OF assms(1), of cb]
  from lfu.run_lossy [OF inv assms(2)] obtain f where
    f: "run_ops LFU_Get LFU_Add LFU_Remove (NewLFU b cb) xs = Some f" "LFU_inv f" by blast
  with lfu.run_get_fresh [OF inv assms(2) f(1)] show ?thesis by (auto simp: NewLFU_entries)
qed

theorem lfu_never_stale_witness:
  "(0::int) \<le> 30 \<and> admitted LFU_Get LFU_Add LFU_Remove LFU_admits (NewLFU 30 True) ex_ops \<and>
   (\<exists>f. run_ops LFU_Get LFU_Add LFU_Remove (NewLFU 30 True) ex_ops = Some f \<and> LFU_inv f)"
proof -
  have adm: "admitted LFU_Get LFU_Add LFU_Remove LFU_admits (NewLFU 30 True) ex_ops" by code_simp
  have "(0::int) \<le> 30" by simp
  from lfu_never_stale [OF this adm] adm show ?thesis by auto
qed

text \<open>
  Updating a present key with a value that fits always returns, and either keeps the entry,
  with the invariant, or has evicted the entry it was updating: then the new value is nowhere,
  and \<open>usedBytes\<close> is off by the difference of the two lengths.
\<close>

theorem lfu_update_kept_or_lost:
  assumes "LFU_inv f" and "LFU_entries f k = Some w" and "len k + Value_Len v \<le> f_maxBytes f"
  shows "\<exists>f' ev. LFU_Add f k v = Some (f', ev) \<and> f_usedBytes f' \<le> f_maxBytes f \<and>
    ((LFU_entries f' k = Some v \<and> LFU_inv f') \<or>
     (LFU_entries f' k = None \<and> f_maxBytes f < f_usedBytes f - Value_Len w + Value_Len v \<and>
      f_usedBytes f' = items_size (f_items f') + Value_Len v - Value_Len w))"
proof -
  have wf: "LFU_wf f" using assms(1) by (simp add: LFU_inv_def)
  from assms(2) obtain e where e: "map_of (f_items f) k = Some e" "e_value e = w"
    by (auto simp: LFU_entries_def)
  show ?thesis
  proof (cases "f_usedBytes f - Value_Len w + Value_Len v \<le> f_maxBytes f")
    case True
    with LFU_Add_inplace [OF wf e(1)] e(2) obtain f' where
      f': "LFU_Add f k v = Some (f', [])" "LFU_inv f'" "LFU_entries f' = (LFU_entries f)(k \<mapsto> v)"
      by blast
    have "f_maxBytes f' = f_maxBytes f"
      using f'(1) e True by (auto simp: LFU_Add_def LFU_evictLoop_def go_for_stop)
    with f' show ?thesis by (simp add: LFU_inv_def)
  next
    case False
    with LFU_Add_existing [OF wf e(1) assms(3)] e(2) show ?thesis
      by (metis linorder_not_le)
  qed
qed

theorem lfu_update_kept_or_lost_witness:
  "LFU_inv lfu_example \<and> LFU_entries lfu_example ''b'' = Some (ex_view ''0123456789'') \<and>
   (\<exists>f' ev. LFU_Add lfu_example ''b'' (ex_view ''0123456789012345678901234'') = Some (f', ev) \<and>
      LFU_entries f' ''b'' = None \<and>
      f_usedBytes f' = items_size (f_items f') + 15)"
proof -
  let ?v = "ex_view ''0123456789012345678901234''"
  have h: "LFU_entries lfu_example ''b'' = Some (ex_view ''0123456789'')"
    "len ''b'' + Value_Len ?v \<le> f_maxBytes lfu_example"
    "map_option (\<lambda>(f', ev). LFU_entries f' ''b'') (LFU_Add lfu_example ''b'' ?v) = Some None"
    "Value_Len ?v = 25" "Value_Len (ex_view ''0123456789'') = 10"
    by code_simp+
  from lfu_update_kept_or_lost [OF lfu_example_inv h(1,2)] h lfu_example_inv show ?thesis by auto
qed

end
