(* ===== verification/ARC.thy ===== *)
theory ARC
  imports GoList CacheStore
begin

text \<open>
  \<open>lru/arc.go\<close>: the byte-bounded adaptive replacement cache. The record has the struct's four
  lists and four maps: \<open>t1\<close>, \<open>t2\<close> hold entries, \<open>b1\<close>, \<open>b2\<close> hold the keys of evicted entries
  (ghosts), \<open>m1\<close>, \<open>m2\<close>, \<open>g1\<close>, \<open>g2\<close> index them. Every loop is a \<open>go_for\<close>; a method that
  contains one returns \<open>None\<close> when the loop never ends. The \<open>break\<close> of the two trimming loops
  is reached exactly when both ghost lists are empty, and is part of their guard here.
\<close>

section \<open>State\<close>

record arcReal =
  r_key :: string
  r_value :: Value

record ARC =
  a_maxBytes :: int
  a_onEvicted :: bool
  a_t1 :: "arcReal golist"
  a_t2 :: "arcReal golist"
  a_m1 :: "string \<Rightarrow> ele option"
  a_m2 :: "string \<Rightarrow> ele option"
  a_b1 :: "string golist"
  a_b2 :: "string golist"
  a_g1 :: "string \<Rightarrow> ele option"
  a_g2 :: "string \<Rightarrow> ele option"
  a_bytes1 :: int
  a_bytes2 :: int
  a_ghost1 :: int
  a_ghost2 :: int
  a_p :: int
  a_next :: nat

definition NewARC :: "int \<Rightarrow> bool \<Rightarrow> ARC" where
  "NewARC maxBytes onEvicted =
     (let mb = (if maxBytes \<le> 0 then 1 else maxBytes) in
      \<lparr>a_maxBytes = mb, a_onEvicted = onEvicted,
       a_t1 = [], a_t2 = [], a_m1 = (\<lambda>_. None), a_m2 = (\<lambda>_. None),
       a_b1 = [], a_b2 = [], a_g1 = (\<lambda>_. None), a_g2 = (\<lambda>_. None),
       a_bytes1 = 0, a_bytes2 = 0, a_ghost1 = 0, a_ghost2 = 0, a_p = go_div mb 2, a_next = 0\<rparr>)"

section \<open>Helpers\<close>

definition min64 :: "int \<Rightarrow> int \<Rightarrow> int" where
  "min64 a b = (if a < b then a else b)"

definition max64 :: "int \<Rightarrow> int \<Rightarrow> int" where
  "max64 a b = (if a > b then a else b)"

definition entBytes :: "string \<Rightarrow> Value \<Rightarrow> int" where
  "entBytes key v = len key + Value_Len v"

definition totalReal :: "ARC \<Rightarrow> int" where
  "totalReal a = a_bytes1 a + a_bytes2 a"

definition totalGhost :: "ARC \<Rightarrow> int" where
  "totalGhost a = a_ghost1 a + a_ghost2 a"

definition deleteGhostB1 :: "ARC \<Rightarrow> string \<Rightarrow> ARC" where
  "deleteGhostB1 a key =
     (case a_g1 a key of
        None \<Rightarrow> a
      | Some ele \<Rightarrow>
          a\<lparr>a_b1 := list_Remove ele (a_b1 a), a_g1 := (a_g1 a)(key := None),
            a_ghost1 := a_ghost1 a - len key\<rparr>)"

definition deleteGhostB2 :: "ARC \<Rightarrow> string \<Rightarrow> ARC" where
  "deleteGhostB2 a key =
     (case a_g2 a key of
        None \<Rightarrow> a
      | Some ele \<Rightarrow>
          a\<lparr>a_b2 := list_Remove ele (a_b2 a), a_g2 := (a_g2 a)(key := None),
            a_ghost2 := a_ghost2 a - len key\<rparr>)"

definition removeFromGhosts :: "ARC \<Rightarrow> string \<Rightarrow> ARC" where
  "removeFromGhosts a key =
     (let a1 = (case a_g1 a key of
                  None \<Rightarrow> a
                | Some ele \<Rightarrow>
                    a\<lparr>a_b1 := list_Remove ele (a_b1 a), a_g1 := (a_g1 a)(key := None),
                      a_ghost1 := a_ghost1 a - len key\<rparr>)
      in case a_g2 a1 key of
           None \<Rightarrow> a1
         | Some ele \<Rightarrow>
             a1\<lparr>a_b2 := list_Remove ele (a_b2 a1), a_g2 := (a_g2 a1)(key := None),
                a_ghost2 := a_ghost2 a1 - len key\<rparr>)"

text \<open>One round of \<open>trimGhostBytesLocked\<close>: the longer of the two oldest ghosts goes.\<close>

definition trimGhostStep :: "ARC \<Rightarrow> ARC" where
  "trimGhostStep a =
     (case (list_Back (a_b1 a), list_Back (a_b2 a)) of
        (Some (_, k1), Some (_, k2)) \<Rightarrow>
          if len k1 \<ge> len k2 then deleteGhostB1 a k1 else deleteGhostB2 a k2
      | (Some (_, k), None) \<Rightarrow> deleteGhostB1 a k
      | (None, Some (_, k)) \<Rightarrow> deleteGhostB2 a k
      | (None, None) \<Rightarrow> a)"

definition trimGhostBytesLocked :: "ARC \<Rightarrow> ARC option" where
  "trimGhostBytesLocked =
     go_for (\<lambda>a. totalGhost a > a_maxBytes a \<and> (a_b1 a \<noteq> [] \<or> a_b2 a \<noteq> []))
       (\<lambda>a. Some (trimGhostStep a))"

text \<open>One round of \<open>trimGhostsForNewLocked\<close>: the oldest of B1, or of B2 when B1 is empty.\<close>

definition trimGhostNewStep :: "ARC \<Rightarrow> ARC" where
  "trimGhostNewStep a =
     (case (list_Back (a_b1 a), list_Back (a_b2 a)) of
        (Some (_, k), _) \<Rightarrow> deleteGhostB1 a k
      | (None, Some (_, k)) \<Rightarrow> deleteGhostB2 a k
      | (None, None) \<Rightarrow> a)"

definition trimGhostsForNewLocked :: "ARC \<Rightarrow> ARC option" where
  "trimGhostsForNewLocked =
     go_for (\<lambda>a. totalGhost a \<ge> a_maxBytes a \<and> (a_b1 a \<noteq> [] \<or> a_b2 a \<noteq> []))
       (\<lambda>a. Some (trimGhostNewStep a))"

definition pushGhostB1 :: "ARC \<Rightarrow> string \<Rightarrow> ARC option" where
  "pushGhostB1 a key =
     (case a_g1 a key of
        Some _ \<Rightarrow> Some a
      | None \<Rightarrow>
          trimGhostBytesLocked
            (a\<lparr>a_b1 := list_PushFront (a_next a) key (a_b1 a), a_g1 := (a_g1 a)(key \<mapsto> a_next a),
               a_ghost1 := a_ghost1 a + len key, a_next := Suc (a_next a)\<rparr>))"

definition pushGhostB2 :: "ARC \<Rightarrow> string \<Rightarrow> ARC option" where
  "pushGhostB2 a key =
     (case a_g2 a key of
        Some _ \<Rightarrow> Some a
      | None \<Rightarrow>
          trimGhostBytesLocked
            (a\<lparr>a_b2 := list_PushFront (a_next a) key (a_b2 a), a_g2 := (a_g2 a)(key \<mapsto> a_next a),
               a_ghost2 := a_ghost2 a + len key, a_next := Suc (a_next a)\<rparr>))"

text \<open>Moves the back entry of T1 (or T2) to the ghosts, and reports it.\<close>

definition evictRealToGhost :: "bool \<Rightarrow> ARC \<times> evictions \<Rightarrow> (ARC \<times> evictions) option" where
  "evictRealToGhost fromT1 s =
     (let a = fst s; ev = snd s in
      if fromT1 then
        (case list_Back (a_t1 a) of
           None \<Rightarrow> Some (a, ev)
         | Some (ele, n) \<Rightarrow>
             map_option
               (\<lambda>a'. (a', if a_onEvicted a then ev @ [(r_key n, r_value n)] else ev))
               (pushGhostB1
                 (a\<lparr>a_t1 := list_Remove ele (a_t1 a), a_m1 := (a_m1 a)(r_key n := None),
                    a_bytes1 := a_bytes1 a - entBytes (r_key n) (r_value n)\<rparr>) (r_key n)))
      else
        (case list_Back (a_t2 a) of
           None \<Rightarrow> Some (a, ev)
         | Some (ele, n) \<Rightarrow>
             map_option
               (\<lambda>a'. (a', if a_onEvicted a then ev @ [(r_key n, r_value n)] else ev))
               (pushGhostB2
                 (a\<lparr>a_t2 := list_Remove ele (a_t2 a), a_m2 := (a_m2 a)(r_key n := None),
                    a_bytes2 := a_bytes2 a - entBytes (r_key n) (r_value n)\<rparr>) (r_key n))))"

definition replaceOneLocked :: "bool \<Rightarrow> ARC \<times> evictions \<Rightarrow> (ARC \<times> evictions) option" where
  "replaceOneLocked xPreferT2 s =
     (let a = fst s in
      if a_bytes1 a > 0 \<and>
         (a_bytes1 a > a_p a \<or> (a_bytes2 a > 0 \<and> a_bytes1 a = a_p a \<and> \<not> xPreferT2))
      then evictRealToGhost True s
      else if a_bytes2 a > 0 then evictRealToGhost False s
      else if a_bytes1 a > 0 then evictRealToGhost True s
      else Some s)"

text \<open>\<open>for a.totalReal() + need > a.maxBytes { a.replaceOneLocked(pref) }\<close>\<close>

definition ARC_replaceLoop ::
  "bool \<Rightarrow> int \<Rightarrow> ARC \<times> evictions \<Rightarrow> (ARC \<times> evictions) option" where
  "ARC_replaceLoop pref need =
     go_for (\<lambda>s. totalReal (fst s) + need > a_maxBytes (fst s)) (replaceOneLocked pref)"

definition insertT2Locked :: "ARC \<Rightarrow> string \<Rightarrow> Value \<Rightarrow> ARC" where
  "insertT2Locked a key value =
     a\<lparr>a_t2 := list_PushFront (a_next a) \<lparr>r_key = key, r_value = value\<rparr> (a_t2 a),
       a_m2 := (a_m2 a)(key \<mapsto> a_next a), a_bytes2 := a_bytes2 a + entBytes key value,
       a_next := Suc (a_next a)\<rparr>"

section \<open>Methods\<close>

definition ARC_Get :: "ARC \<Rightarrow> string \<Rightarrow> Value option \<times> ARC" where
  "ARC_Get a key =
     (case a_m1 a key of
        Some ele \<Rightarrow>
          (case list_Value (a_t1 a) ele of
             None \<Rightarrow> (None, a)
           | Some n \<Rightarrow>
               (Some (r_value n),
                a\<lparr>a_t1 := list_Remove ele (a_t1 a), a_m1 := (a_m1 a)(key := None),
                  a_bytes1 := a_bytes1 a - entBytes (r_key n) (r_value n),
                  a_t2 := list_PushFront (a_next a) n (a_t2 a),
                  a_m2 := (a_m2 a)(key \<mapsto> a_next a),
                  a_bytes2 := a_bytes2 a + entBytes (r_key n) (r_value n),
                  a_next := Suc (a_next a)\<rparr>))
      | None \<Rightarrow>
          (case a_m2 a key of
             Some ele \<Rightarrow>
               (case list_Value (a_t2 a) ele of
                  None \<Rightarrow> (None, a)
                | Some n \<Rightarrow>
                    (Some (r_value n),
                     a\<lparr>a_t2 := list_PushFront (a_next a) n (list_Remove ele (a_t2 a)),
                       a_m2 := (a_m2 a)(key := None, key \<mapsto> a_next a),
                       a_bytes2 := a_bytes2 a - entBytes (r_key n) (r_value n)
                         + entBytes (r_key n) (r_value n),
                       a_next := Suc (a_next a)\<rparr>))
           | None \<Rightarrow> (None, a)))"

text \<open>The five branches of \<open>Add\<close>.\<close>

definition ARC_Add_m1 ::
  "ARC \<Rightarrow> string \<Rightarrow> Value \<Rightarrow> ele \<Rightarrow> arcReal \<Rightarrow> (ARC \<times> evictions) option" where
  "ARC_Add_m1 a key value ele n =
     Option.bind
       (ARC_replaceLoop False (entBytes key value - Value_Len (r_value n))
         (a\<lparr>a_bytes1 := a_bytes1 a - Value_Len (r_value n)\<rparr>, []))
       (\<lambda>(a1, ev). Some
         (a1\<lparr>a_bytes1 := a_bytes1 a1 + Value_Len value,
             a_t1 := list_PushFront (a_next a1) (n\<lparr>r_value := value\<rparr>) (list_Remove ele (a_t1 a1)),
             a_m1 := (a_m1 a1)(key := None, key \<mapsto> a_next a1),
             a_next := Suc (a_next a1)\<rparr>, ev))"

definition ARC_Add_m2 ::
  "ARC \<Rightarrow> string \<Rightarrow> Value \<Rightarrow> ele \<Rightarrow> arcReal \<Rightarrow> (ARC \<times> evictions) option" where
  "ARC_Add_m2 a key value ele n =
     Option.bind
       (ARC_replaceLoop True (entBytes key value - Value_Len (r_value n))
         (a\<lparr>a_bytes2 := a_bytes2 a - Value_Len (r_value n)\<rparr>, []))
       (\<lambda>(a1, ev). Some
         (a1\<lparr>a_bytes2 := a_bytes2 a1 + Value_Len value,
             a_t2 := list_PushFront (a_next a1) (n\<lparr>r_value := value\<rparr>) (list_Remove ele (a_t2 a1)),
             a_m2 := (a_m2 a1)(key := None, key \<mapsto> a_next a1),
             a_next := Suc (a_next a1)\<rparr>, ev))"

definition ARC_Add_g1 :: "ARC \<Rightarrow> string \<Rightarrow> Value \<Rightarrow> (ARC \<times> evictions) option" where
  "ARC_Add_g1 a key value =
     (let delta = (if a_ghost1 a > 0 then max64 1 (go_div (a_ghost2 a) (max64 1 (a_ghost1 a))) else 1);
          a1 = deleteGhostB1 (a\<lparr>a_p := min64 (a_maxBytes a) (a_p a + delta)\<rparr>) key
      in Option.bind (ARC_replaceLoop False (entBytes key value) (a1, []))
           (\<lambda>(a2, ev). Some (insertT2Locked a2 key value, ev)))"

definition ARC_Add_g2 :: "ARC \<Rightarrow> string \<Rightarrow> Value \<Rightarrow> (ARC \<times> evictions) option" where
  "ARC_Add_g2 a key value =
     (let delta = (if a_ghost2 a > 0 then max64 1 (go_div (a_ghost1 a) (max64 1 (a_ghost2 a))) else 1);
          a1 = deleteGhostB2 (a\<lparr>a_p := max64 0 (a_p a - delta)\<rparr>) key
      in Option.bind (ARC_replaceLoop True (entBytes key value) (a1, []))
           (\<lambda>(a2, ev). Some (insertT2Locked a2 key value, ev)))"

definition ARC_Add_new :: "ARC \<Rightarrow> string \<Rightarrow> Value \<Rightarrow> (ARC \<times> evictions) option" where
  "ARC_Add_new a key value =
     Option.bind (ARC_replaceLoop False (entBytes key value) (removeFromGhosts a key, []))
       (\<lambda>(a1, ev). Option.bind (trimGhostsForNewLocked a1)
         (\<lambda>a2. Some
           (a2\<lparr>a_t1 := list_PushFront (a_next a2) \<lparr>r_key = key, r_value = value\<rparr> (a_t1 a2),
               a_m1 := (a_m1 a2)(key \<mapsto> a_next a2), a_bytes1 := a_bytes1 a2 + entBytes key value,
               a_next := Suc (a_next a2)\<rparr>, ev)))"

definition ARC_Add :: "ARC \<Rightarrow> string \<Rightarrow> Value \<Rightarrow> (ARC \<times> evictions) option" where
  "ARC_Add a key value =
     (case a_m1 a key of
        Some ele \<Rightarrow>
          Option.bind (list_Value (a_t1 a) ele) (\<lambda>n. ARC_Add_m1 a key value ele n)
      | None \<Rightarrow>
          (case a_m2 a key of
             Some ele \<Rightarrow>
               Option.bind (list_Value (a_t2 a) ele) (\<lambda>n. ARC_Add_m2 a key value ele n)
           | None \<Rightarrow>
               if a_g1 a key \<noteq> None then ARC_Add_g1 a key value
               else if a_g2 a key \<noteq> None then ARC_Add_g2 a key value
               else ARC_Add_new a key value))"

definition ARC_Remove :: "ARC \<Rightarrow> string \<Rightarrow> bool \<times> ARC" where
  "ARC_Remove a key =
     (case a_m1 a key of
        Some ele \<Rightarrow>
          (case list_Value (a_t1 a) ele of
             None \<Rightarrow> (False, a)
           | Some n \<Rightarrow>
               (True, a\<lparr>a_t1 := list_Remove ele (a_t1 a), a_m1 := (a_m1 a)(key := None),
                        a_bytes1 := a_bytes1 a - entBytes (r_key n) (r_value n)\<rparr>))
      | None \<Rightarrow>
          (case a_m2 a key of
             Some ele \<Rightarrow>
               (case list_Value (a_t2 a) ele of
                  None \<Rightarrow> (False, a)
                | Some n \<Rightarrow>
                    (True, a\<lparr>a_t2 := list_Remove ele (a_t2 a), a_m2 := (a_m2 a)(key := None),
                             a_bytes2 := a_bytes2 a - entBytes (r_key n) (r_value n)\<rparr>))
           | None \<Rightarrow>
               if a_g1 a key \<noteq> None then (True, deleteGhostB1 a key)
               else if a_g2 a key \<noteq> None then (True, deleteGhostB2 a key)
               else (False, a)))"

section \<open>Invariant and abstraction\<close>

definition real_size :: "arcReal \<Rightarrow> int" where
  "real_size n = entBytes (r_key n) (r_value n)"

lemma real_size_nonneg [simp]: "0 \<le> real_size n"
  by (simp add: real_size_def entBytes_def)

abbreviation T1 :: "ARC \<Rightarrow> string set" where "T1 a \<equiv> keys_of r_key (a_t1 a)"
abbreviation T2 :: "ARC \<Rightarrow> string set" where "T2 a \<equiv> keys_of r_key (a_t2 a)"
abbreviation B1 :: "ARC \<Rightarrow> string set" where "B1 a \<equiv> keys_of id (a_b1 a)"
abbreviation B2 :: "ARC \<Rightarrow> string set" where "B2 a \<equiv> keys_of id (a_b2 a)"

text \<open>
  The four lists agree with their maps and counters, no key is in two of them, and the target
  \<open>p\<close> stays in range.
\<close>

definition ARC_wf :: "ARC \<Rightarrow> bool" where
  "ARC_wf a \<longleftrightarrow>
     part r_key real_size (a_t1 a) (a_m1 a) (a_bytes1 a) (a_next a) \<and>
     part r_key real_size (a_t2 a) (a_m2 a) (a_bytes2 a) (a_next a) \<and>
     part id len (a_b1 a) (a_g1 a) (a_ghost1 a) (a_next a) \<and>
     part id len (a_b2 a) (a_g2 a) (a_ghost2 a) (a_next a) \<and>
     T1 a \<inter> T2 a = {} \<and> (T1 a \<union> T2 a) \<inter> (B1 a \<union> B2 a) = {} \<and> B1 a \<inter> B2 a = {} \<and>
     1 \<le> a_maxBytes a \<and> 0 \<le> a_p a \<and> a_p a \<le> a_maxBytes a"

definition ARC_inv :: "ARC \<Rightarrow> bool" where
  "ARC_inv a \<longleftrightarrow> ARC_wf a \<and> totalReal a \<le> a_maxBytes a \<and> totalGhost a \<le> a_maxBytes a"

definition reals :: "arcReal golist \<Rightarrow> (string \<times> Value) list" where
  "reals l = map (\<lambda>n. (r_key n, r_value n)) (vals l)"

definition ARC_entries :: "ARC \<Rightarrow> string \<Rightarrow> Value option" where
  "ARC_entries a = map_of (reals (a_t1 a)) ++ map_of (reals (a_t2 a))"

lemma ARC_wfD:
  assumes "ARC_wf a"
  shows "part r_key real_size (a_t1 a) (a_m1 a) (a_bytes1 a) (a_next a)"
    "part r_key real_size (a_t2 a) (a_m2 a) (a_bytes2 a) (a_next a)"
    "part id len (a_b1 a) (a_g1 a) (a_ghost1 a) (a_next a)"
    "part id len (a_b2 a) (a_g2 a) (a_ghost2 a) (a_next a)"
    "T1 a \<inter> T2 a = {}" "(T1 a \<union> T2 a) \<inter> (B1 a \<union> B2 a) = {}" "B1 a \<inter> B2 a = {}"
    "1 \<le> a_maxBytes a" "0 \<le> a_p a" "a_p a \<le> a_maxBytes a"
    "0 \<le> a_bytes1 a" "0 \<le> a_bytes2 a" "0 \<le> a_ghost1 a" "0 \<le> a_ghost2 a"
proof -
  show *: "part r_key real_size (a_t1 a) (a_m1 a) (a_bytes1 a) (a_next a)"
    "part r_key real_size (a_t2 a) (a_m2 a) (a_bytes2 a) (a_next a)"
    "part id len (a_b1 a) (a_g1 a) (a_ghost1 a) (a_next a)"
    "part id len (a_b2 a) (a_g2 a) (a_ghost2 a) (a_next a)"
    "T1 a \<inter> T2 a = {}" "(T1 a \<union> T2 a) \<inter> (B1 a \<union> B2 a) = {}" "B1 a \<inter> B2 a = {}"
    "1 \<le> a_maxBytes a" "0 \<le> a_p a" "a_p a \<le> a_maxBytes a"
    using assms by (simp_all add: ARC_wf_def)
  show "0 \<le> a_bytes1 a" "0 \<le> a_bytes2 a" "0 \<le> a_ghost1 a" "0 \<le> a_ghost2 a"
    using *(1-4) by (auto dest!: part_nonneg)
qed

text \<open>Steps that touch only the ghosts.\<close>

definition same_real :: "ARC \<Rightarrow> ARC \<Rightarrow> bool" where
  "same_real a a' \<longleftrightarrow>
     a_t1 a' = a_t1 a \<and> a_t2 a' = a_t2 a \<and> a_m1 a' = a_m1 a \<and> a_m2 a' = a_m2 a \<and>
     a_bytes1 a' = a_bytes1 a \<and> a_bytes2 a' = a_bytes2 a \<and> a_p a' = a_p a \<and>
     a_maxBytes a' = a_maxBytes a \<and> a_onEvicted a' = a_onEvicted a \<and> a_next a' = a_next a \<and>
     B1 a' \<subseteq> B1 a \<and> B2 a' \<subseteq> B2 a"

lemma same_real_refl [simp]: "same_real a a"
  by (simp add: same_real_def)

lemma same_real_trans: "same_real a b \<Longrightarrow> same_real b c \<Longrightarrow> same_real a c"
  unfolding same_real_def by (elim conjE) (simp, blast)

lemma same_real_totalReal: "same_real a b \<Longrightarrow> totalReal b = totalReal a"
  by (simp add: same_real_def totalReal_def)

lemma same_real_entries: "same_real a b \<Longrightarrow> ARC_entries b = ARC_entries a"
  by (simp add: same_real_def ARC_entries_def)

lemma deleteGhostB1_ok:
  assumes "ARC_wf a" and "k \<in> B1 a"
  shows "ARC_wf (deleteGhostB1 a k)" "same_real a (deleteGhostB1 a k)"
    "B1 (deleteGhostB1 a k) = B1 a - {k}" "B2 (deleteGhostB1 a k) = B2 a"
    "length (a_b1 (deleteGhostB1 a k)) < length (a_b1 a)"
    "a_b2 (deleteGhostB1 a k) = a_b2 a" "totalGhost (deleteGhostB1 a k) = totalGhost a - len k"
proof -
  note wf = ARC_wfD [OF assms(1)]
  from part_dom [OF wf(3)] assms(2) obtain e where e: "a_g1 a k = Some e" by fastforce
  obtain v where v: "list_Value (a_b1 a) e = Some v" "(e, v) \<in> set (a_b1 a)" "id v = k"
    using part_hit [OF wf(3) e] .
  then have vk: "v = k" by simp
  have eq: "deleteGhostB1 a k = a\<lparr>a_b1 := list_Remove e (a_b1 a), a_g1 := (a_g1 a)(k := None),
      a_ghost1 := a_ghost1 a - len k\<rparr>"
    using e by (simp add: deleteGhostB1_def)
  have keys: "keys_of id (list_Remove e (a_b1 a)) = B1 a - {k}"
    using keys_of_Remove [OF part_indexed [OF wf(3)] v(2)] v(3) by simp
  have p: "part id len (list_Remove e (a_b1 a)) ((a_g1 a)(k := None)) (a_ghost1 a - len k) (a_next a)"
    using part_Remove [OF wf(3) v(2), of k] vk by simp
  show "B1 (deleteGhostB1 a k) = B1 a - {k}" "B2 (deleteGhostB1 a k) = B2 a"
    "same_real a (deleteGhostB1 a k)" "length (a_b1 (deleteGhostB1 a k)) < length (a_b1 a)"
    "a_b2 (deleteGhostB1 a k) = a_b2 a" "totalGhost (deleteGhostB1 a k) = totalGhost a - len k"
    using keys length_Remove [OF v(2)] by (auto simp: eq same_real_def totalGhost_def)
  show "ARC_wf (deleteGhostB1 a k)"
    using wf p keys unfolding eq ARC_wf_def by (auto simp del: fun_upd_apply)
qed

lemma deleteGhostB2_ok:
  assumes "ARC_wf a" and "k \<in> B2 a"
  shows "ARC_wf (deleteGhostB2 a k)" "same_real a (deleteGhostB2 a k)"
    "B1 (deleteGhostB2 a k) = B1 a" "B2 (deleteGhostB2 a k) = B2 a - {k}"
    "length (a_b2 (deleteGhostB2 a k)) < length (a_b2 a)"
    "a_b1 (deleteGhostB2 a k) = a_b1 a" "totalGhost (deleteGhostB2 a k) = totalGhost a - len k"
proof -
  note wf = ARC_wfD [OF assms(1)]
  from part_dom [OF wf(4)] assms(2) obtain e where e: "a_g2 a k = Some e" by fastforce
  obtain v where v: "list_Value (a_b2 a) e = Some v" "(e, v) \<in> set (a_b2 a)" "id v = k"
    using part_hit [OF wf(4) e] .
  then have vk: "v = k" by simp
  have eq: "deleteGhostB2 a k = a\<lparr>a_b2 := list_Remove e (a_b2 a), a_g2 := (a_g2 a)(k := None),
      a_ghost2 := a_ghost2 a - len k\<rparr>"
    using e by (simp add: deleteGhostB2_def)
  have keys: "keys_of id (list_Remove e (a_b2 a)) = B2 a - {k}"
    using keys_of_Remove [OF part_indexed [OF wf(4)] v(2)] v(3) by simp
  have p: "part id len (list_Remove e (a_b2 a)) ((a_g2 a)(k := None)) (a_ghost2 a - len k) (a_next a)"
    using part_Remove [OF wf(4) v(2), of k] vk by simp
  show "B1 (deleteGhostB2 a k) = B1 a" "B2 (deleteGhostB2 a k) = B2 a - {k}"
    "same_real a (deleteGhostB2 a k)" "length (a_b2 (deleteGhostB2 a k)) < length (a_b2 a)"
    "a_b1 (deleteGhostB2 a k) = a_b1 a" "totalGhost (deleteGhostB2 a k) = totalGhost a - len k"
    using keys length_Remove [OF v(2)] by (auto simp: eq same_real_def totalGhost_def)
  show "ARC_wf (deleteGhostB2 a k)"
    using wf p keys unfolding eq ARC_wf_def by (auto simp del: fun_upd_apply)
qed

lemma Back_B: "list_Back l = Some (e, k) \<Longrightarrow> k \<in> keys_of id l"
  using in_keys_of [OF list_Back_in, of l e k id] by simp

lemma trimGhostStep_ok:
  assumes "ARC_wf a" and "a_b1 a \<noteq> [] \<or> a_b2 a \<noteq> []"
  shows "ARC_wf (trimGhostStep a) \<and> same_real a (trimGhostStep a) \<and>
    length (a_b1 (trimGhostStep a)) + length (a_b2 (trimGhostStep a))
      < length (a_b1 a) + length (a_b2 a)"
  using assms(2) deleteGhostB1_ok [OF assms(1)] deleteGhostB2_ok [OF assms(1)]
  by (auto simp: trimGhostStep_def split: option.splits prod.splits dest!: Back_B)

lemma trimGhostNewStep_ok:
  assumes "ARC_wf a" and "a_b1 a \<noteq> [] \<or> a_b2 a \<noteq> []"
  shows "ARC_wf (trimGhostNewStep a) \<and> same_real a (trimGhostNewStep a) \<and>
    length (a_b1 (trimGhostNewStep a)) + length (a_b2 (trimGhostNewStep a))
      < length (a_b1 a) + length (a_b2 a)"
  using assms(2) deleteGhostB1_ok [OF assms(1)] deleteGhostB2_ok [OF assms(1)]
  by (auto simp: trimGhostNewStep_def split: option.splits prod.splits dest!: Back_B)

text \<open>Both trimming loops end.\<close>

lemma no_ghosts: "ARC_wf a \<Longrightarrow> a_b1 a = [] \<Longrightarrow> a_b2 a = [] \<Longrightarrow> totalGhost a = 0"
  using part_total [OF ARC_wfD(3)] part_total [OF ARC_wfD(4)] by (simp add: totalGhost_def)

lemma trimGhostBytesLocked_ok:
  assumes "ARC_wf a"
  shows "\<exists>a'. trimGhostBytesLocked a = Some a' \<and> ARC_wf a' \<and> same_real a a' \<and>
    totalGhost a' \<le> a_maxBytes a'"
proof -
  let ?b = "\<lambda>a. totalGhost a > a_maxBytes a \<and> (a_b1 a \<noteq> [] \<or> a_b2 a \<noteq> [])"
  have "\<exists>a'. go_for ?b (\<lambda>a. Some (trimGhostStep a)) a = Some a' \<and>
      (ARC_wf a' \<and> same_real a a') \<and> \<not> ?b a'"
    by (rule go_for_total [where m = "\<lambda>a. length (a_b1 a) + length (a_b2 a)"])
      (use assms trimGhostStep_ok in \<open>auto intro: same_real_trans\<close>)
  then obtain a' where a': "go_for ?b (\<lambda>a. Some (trimGhostStep a)) a = Some a'"
    "ARC_wf a'" "same_real a a'" "\<not> ?b a'" by blast
  then have "totalGhost a' \<le> a_maxBytes a'"
    using no_ghosts [OF a'(2)] ARC_wfD(8) [OF a'(2)] by force
  with a' show ?thesis by (auto simp: trimGhostBytesLocked_def)
qed

lemma trimGhostsForNewLocked_ok:
  assumes "ARC_wf a"
  shows "\<exists>a'. trimGhostsForNewLocked a = Some a' \<and> ARC_wf a' \<and> same_real a a' \<and>
    totalGhost a' < a_maxBytes a'"
proof -
  let ?b = "\<lambda>a. totalGhost a \<ge> a_maxBytes a \<and> (a_b1 a \<noteq> [] \<or> a_b2 a \<noteq> [])"
  have "\<exists>a'. go_for ?b (\<lambda>a. Some (trimGhostNewStep a)) a = Some a' \<and>
      (ARC_wf a' \<and> same_real a a') \<and> \<not> ?b a'"
    by (rule go_for_total [where m = "\<lambda>a. length (a_b1 a) + length (a_b2 a)"])
      (use assms trimGhostNewStep_ok in \<open>auto intro: same_real_trans\<close>)
  then obtain a' where a': "go_for ?b (\<lambda>a. Some (trimGhostNewStep a)) a = Some a'"
    "ARC_wf a'" "same_real a a'" "\<not> ?b a'" by blast
  then have "totalGhost a' < a_maxBytes a'"
    using no_ghosts [OF a'(2)] ARC_wfD(8) [OF a'(2)] by force
  with a' show ?thesis by (auto simp: trimGhostsForNewLocked_def)
qed

section \<open>Evictions\<close>

definition allkeys :: "ARC \<Rightarrow> string set" where
  "allkeys a = T1 a \<union> T2 a \<union> B1 a \<union> B2 a"

lemma dom_reals: "dom (map_of (reals l)) = keys_of r_key l"
  by (simp add: reals_def keys_of_def dom_map_of_conv_image_fst image_comp comp_def)

lemma reals_Remove:
  assumes "part r_key real_size l m t n" and "(e, v) \<in> set l"
  shows "map_of (reals (list_Remove e l)) = (map_of (reals l))(r_key v := None)"
proof -
  have "reals (list_Remove e l) = filter (\<lambda>p. fst p \<noteq> r_key v) (reals l)"
    using vals_Remove [OF part_indexed [OF assms(1)] assms(2)]
    by (simp add: reals_def filter_map comp_def)
  then show ?thesis by (simp only: map_of_del_key)
qed

lemma reals_PushFront:
  "map_of (reals (list_PushFront e v l)) = (map_of (reals l))(r_key v \<mapsto> r_value v)"
  by (simp add: reals_def)

lemma reals_lookup:
  assumes "part r_key real_size l m t n" and "(e, v) \<in> set l"
  shows "map_of (reals l) (r_key v) = Some (r_value v)"
proof -
  have "distinct (map fst (reals l))"
    using indexedD(2) [OF part_indexed [OF assms(1)]] by (simp add: reals_def comp_def)
  moreover have "(r_key v, r_value v) \<in> set (reals l)"
    using assms(2) by (force simp: reals_def vals_def)
  ultimately show ?thesis by simp
qed

lemma ARC_entries_dom: "dom (ARC_entries a) = T1 a \<union> T2 a"
  by (simp add: ARC_entries_def dom_reals Un_commute)

lemma ARC_entries_T1:
  "ARC_wf a \<Longrightarrow> k \<in> T1 a \<Longrightarrow> ARC_entries a k = map_of (reals (a_t1 a)) k"
  using ARC_wfD(5) [of a] dom_reals [of "a_t2 a"]
  by (auto simp: ARC_entries_def map_add_def split: option.splits)

lemma ARC_entries_T2:
  "ARC_wf a \<Longrightarrow> k \<in> T2 a \<Longrightarrow> ARC_entries a k = map_of (reals (a_t2 a)) k"
  using dom_reals [of "a_t2 a"] by (auto simp: ARC_entries_def map_add_def split: option.splits)

text \<open>Pushing a ghost for a key that is nowhere else.\<close>

definition same_main :: "ARC \<Rightarrow> ARC \<Rightarrow> bool" where
  "same_main a a' \<longleftrightarrow>
     a_t1 a' = a_t1 a \<and> a_t2 a' = a_t2 a \<and> a_bytes1 a' = a_bytes1 a \<and>
     a_bytes2 a' = a_bytes2 a \<and> a_p a' = a_p a \<and> a_maxBytes a' = a_maxBytes a \<and>
     a_onEvicted a' = a_onEvicted a"

lemma pushGhostB1_ok:
  assumes "ARC_wf a" and "k \<notin> allkeys a"
  shows "\<exists>a'. pushGhostB1 a k = Some a' \<and> ARC_wf a' \<and> same_main a a' \<and>
    totalGhost a' \<le> a_maxBytes a' \<and> allkeys a' \<subseteq> insert k (allkeys a)"
proof -
  note wf = ARC_wfD [OF assms(1)]
  let ?a = "a\<lparr>a_b1 := list_PushFront (a_next a) k (a_b1 a), a_g1 := (a_g1 a)(k \<mapsto> a_next a),
    a_ghost1 := a_ghost1 a + len k, a_next := Suc (a_next a)\<rparr>"
  have "part id len (list_PushFront (a_next a) k (a_b1 a)) ((a_g1 a)(k \<mapsto> a_next a))
      (a_ghost1 a + len k) (Suc (a_next a))"
    using wf(3) assms(2) by (intro part_PushFront) (auto simp: allkeys_def)
  then have "ARC_wf ?a"
    using wf assms(2) part_mono [OF wf(1)] part_mono [OF wf(2)] part_mono [OF wf(4)]
    unfolding ARC_wf_def by (auto simp: allkeys_def simp del: fun_upd_apply)
  from trimGhostBytesLocked_ok [OF this] obtain a' where
    a': "trimGhostBytesLocked ?a = Some a'" "ARC_wf a'" "same_real ?a a'"
      "totalGhost a' \<le> a_maxBytes a'" by blast
  have "a_g1 a k = None" using assms(2) by (simp add: part_None [OF wf(3)] allkeys_def)
  with a'(1) have "pushGhostB1 a k = Some a'" by (simp add: pushGhostB1_def)
  moreover have "same_main a a'" "allkeys a' \<subseteq> insert k (allkeys a)"
    using a'(3) by (auto simp: same_main_def same_real_def allkeys_def)
  ultimately show ?thesis using a' by blast
qed

lemma pushGhostB2_ok:
  assumes "ARC_wf a" and "k \<notin> allkeys a"
  shows "\<exists>a'. pushGhostB2 a k = Some a' \<and> ARC_wf a' \<and> same_main a a' \<and>
    totalGhost a' \<le> a_maxBytes a' \<and> allkeys a' \<subseteq> insert k (allkeys a)"
proof -
  note wf = ARC_wfD [OF assms(1)]
  let ?a = "a\<lparr>a_b2 := list_PushFront (a_next a) k (a_b2 a), a_g2 := (a_g2 a)(k \<mapsto> a_next a),
    a_ghost2 := a_ghost2 a + len k, a_next := Suc (a_next a)\<rparr>"
  have "part id len (list_PushFront (a_next a) k (a_b2 a)) ((a_g2 a)(k \<mapsto> a_next a))
      (a_ghost2 a + len k) (Suc (a_next a))"
    using wf(4) assms(2) by (intro part_PushFront) (auto simp: allkeys_def)
  then have "ARC_wf ?a"
    using wf assms(2) part_mono [OF wf(1)] part_mono [OF wf(2)] part_mono [OF wf(3)]
    unfolding ARC_wf_def by (auto simp: allkeys_def simp del: fun_upd_apply)
  from trimGhostBytesLocked_ok [OF this] obtain a' where
    a': "trimGhostBytesLocked ?a = Some a'" "ARC_wf a'" "same_real ?a a'"
      "totalGhost a' \<le> a_maxBytes a'" by blast
  have "a_g2 a k = None" using assms(2) by (simp add: part_None [OF wf(4)] allkeys_def)
  with a'(1) have "pushGhostB2 a k = Some a'" by (simp add: pushGhostB2_def)
  moreover have "same_main a a'" "allkeys a' \<subseteq> insert k (allkeys a)"
    using a'(3) by (auto simp: same_main_def same_real_def allkeys_def)
  ultimately show ?thesis using a' by blast
qed

text \<open>What one eviction does, whichever list it takes the entry from.\<close>

definition evicts :: "ARC \<times> evictions \<Rightarrow> arcReal \<Rightarrow> ARC \<times> evictions \<Rightarrow> bool" where
  "evicts s n s' \<longleftrightarrow> (case (s, s') of ((a, ev), (a', ev')) \<Rightarrow>
     ARC_wf a' \<and> totalGhost a' \<le> a_maxBytes a' \<and>
     ARC_entries a (r_key n) = Some (r_value n) \<and>
     ARC_entries a' = (ARC_entries a)(r_key n := None) \<and>
     length (a_t1 a') + length (a_t2 a') < length (a_t1 a) + length (a_t2 a) \<and>
     a_maxBytes a' = a_maxBytes a \<and> a_p a' = a_p a \<and> a_onEvicted a' = a_onEvicted a \<and>
     allkeys a' \<subseteq> allkeys a \<and>
     ev' = (if a_onEvicted a then ev @ [(r_key n, r_value n)] else ev))"

lemma evict_T1:
  assumes "ARC_wf a" and "a_t1 a \<noteq> []"
  shows "\<exists>n s'. evictRealToGhost True (a, ev) = Some s' \<and> evicts (a, ev) n s'"
proof -
  note wf = ARC_wfD [OF assms(1)]
  obtain e n where b: "list_Back (a_t1 a) = Some (e, n)"
    using assms(2) by (cases "list_Back (a_t1 a)") auto
  have mem: "(e, n) \<in> set (a_t1 a)" using b by (rule list_Back_in)
  have inT1: "r_key n \<in> T1 a" using in_keys_of [OF mem, of r_key] .
  let ?a = "a\<lparr>a_t1 := list_Remove e (a_t1 a), a_m1 := (a_m1 a)(r_key n := None),
    a_bytes1 := a_bytes1 a - entBytes (r_key n) (r_value n)\<rparr>"
  have keys: "keys_of r_key (list_Remove e (a_t1 a)) = T1 a - {r_key n}"
    using keys_of_Remove [OF part_indexed [OF wf(1)] mem] .
  have "part r_key real_size (list_Remove e (a_t1 a)) ((a_m1 a)(r_key n := None))
      (a_bytes1 a - entBytes (r_key n) (r_value n)) (a_next a)"
    using part_Remove [OF wf(1) mem] by (simp add: real_size_def)
  then have wf': "ARC_wf ?a"
    using wf keys unfolding ARC_wf_def by (auto simp del: fun_upd_apply)
  have fresh: "r_key n \<notin> allkeys ?a"
    using wf(5,6) inT1 keys by (auto simp: allkeys_def)
  from pushGhostB1_ok [OF wf' fresh] obtain a' where
    a': "pushGhostB1 ?a (r_key n) = Some a'" "ARC_wf a'" "same_main ?a a'"
      "totalGhost a' \<le> a_maxBytes a'" "allkeys a' \<subseteq> insert (r_key n) (allkeys ?a)" by blast
  have "ARC_entries a' = (ARC_entries a)(r_key n := None)"
    using a'(3) wf(5) inT1 reals_Remove [OF wf(1) mem] dom_reals [of "a_t2 a"]
    by (auto simp: same_main_def ARC_entries_def map_add_def fun_eq_iff split: option.splits)
  moreover have "ARC_entries a (r_key n) = Some (r_value n)"
    using ARC_entries_T1 [OF assms(1) inT1] reals_lookup [OF wf(1) mem] by simp
  moreover have "allkeys a' \<subseteq> allkeys a"
    using a'(5) inT1 keys by (auto simp: allkeys_def)
  ultimately have "evicts (a, ev) n
      (a', if a_onEvicted a then ev @ [(r_key n, r_value n)] else ev)"
    using a'(2-4) length_Remove [OF mem] by (simp add: evicts_def same_main_def)
  moreover have "evictRealToGhost True (a, ev) =
      Some (a', if a_onEvicted a then ev @ [(r_key n, r_value n)] else ev)"
    using b a'(1) by (simp add: evictRealToGhost_def)
  ultimately show ?thesis by blast
qed

lemma evict_T2:
  assumes "ARC_wf a" and "a_t2 a \<noteq> []"
  shows "\<exists>n s'. evictRealToGhost False (a, ev) = Some s' \<and> evicts (a, ev) n s'"
proof -
  note wf = ARC_wfD [OF assms(1)]
  obtain e n where b: "list_Back (a_t2 a) = Some (e, n)"
    using assms(2) by (cases "list_Back (a_t2 a)") auto
  have mem: "(e, n) \<in> set (a_t2 a)" using b by (rule list_Back_in)
  have inT2: "r_key n \<in> T2 a" using in_keys_of [OF mem, of r_key] .
  let ?a = "a\<lparr>a_t2 := list_Remove e (a_t2 a), a_m2 := (a_m2 a)(r_key n := None),
    a_bytes2 := a_bytes2 a - entBytes (r_key n) (r_value n)\<rparr>"
  have keys: "keys_of r_key (list_Remove e (a_t2 a)) = T2 a - {r_key n}"
    using keys_of_Remove [OF part_indexed [OF wf(2)] mem] .
  have "part r_key real_size (list_Remove e (a_t2 a)) ((a_m2 a)(r_key n := None))
      (a_bytes2 a - entBytes (r_key n) (r_value n)) (a_next a)"
    using part_Remove [OF wf(2) mem] by (simp add: real_size_def)
  then have wf': "ARC_wf ?a"
    using wf keys unfolding ARC_wf_def by (auto simp del: fun_upd_apply)
  have fresh: "r_key n \<notin> allkeys ?a"
    using wf(5,6) inT2 keys by (auto simp: allkeys_def)
  from pushGhostB2_ok [OF wf' fresh] obtain a' where
    a': "pushGhostB2 ?a (r_key n) = Some a'" "ARC_wf a'" "same_main ?a a'"
      "totalGhost a' \<le> a_maxBytes a'" "allkeys a' \<subseteq> insert (r_key n) (allkeys ?a)" by blast
  have notT1: "map_of (reals (a_t1 a)) (r_key n) = None"
    using wf(5) inT2 dom_reals [of "a_t1 a"] by auto
  have "ARC_entries a' = (ARC_entries a)(r_key n := None)"
    using a'(3) notT1 reals_Remove [OF wf(2) mem]
    by (auto simp: same_main_def ARC_entries_def map_add_def fun_eq_iff split: option.splits)
  moreover have "ARC_entries a (r_key n) = Some (r_value n)"
    using ARC_entries_T2 [OF assms(1) inT2] reals_lookup [OF wf(2) mem] by simp
  moreover have "allkeys a' \<subseteq> allkeys a"
    using a'(5) inT2 keys by (auto simp: allkeys_def)
  ultimately have "evicts (a, ev) n
      (a', if a_onEvicted a then ev @ [(r_key n, r_value n)] else ev)"
    using a'(2-4) length_Remove [OF mem] by (simp add: evicts_def same_main_def)
  moreover have "evictRealToGhost False (a, ev) =
      Some (a', if a_onEvicted a then ev @ [(r_key n, r_value n)] else ev)"
    using b a'(1) by (simp add: evictRealToGhost_def)
  ultimately show ?thesis by blast
qed

lemma bytes1_pos: "ARC_wf a \<Longrightarrow> 0 < a_bytes1 a \<Longrightarrow> a_t1 a \<noteq> []"
  using part_total [OF ARC_wfD(1), of a] by auto

lemma bytes2_pos: "ARC_wf a \<Longrightarrow> 0 < a_bytes2 a \<Longrightarrow> a_t2 a \<noteq> []"
  using part_total [OF ARC_wfD(2), of a] by auto

lemma replaceOne_ok:
  assumes "ARC_wf a" and "0 < totalReal a"
  shows "\<exists>n s'. replaceOneLocked pref (a, ev) = Some s' \<and> evicts (a, ev) n s'"
proof -
  have "0 < a_bytes1 a \<or> 0 < a_bytes2 a" using assms(2) by (auto simp: totalReal_def)
  then show ?thesis
    using evict_T1 [OF assms(1) bytes1_pos [OF assms(1)], of ev]
      evict_T2 [OF assms(1) bytes2_pos [OF assms(1)], of ev]
    by (auto simp: replaceOneLocked_def Let_def)
qed

text \<open>What a run of evictions does; \<open>a\<close> is the state it starts from, with an empty report.\<close>

definition shed :: "ARC \<Rightarrow> ARC \<times> evictions \<Rightarrow> bool" where
  "shed a s \<longleftrightarrow> (case s of (a', ev) \<Rightarrow>
     ARC_wf a' \<and> totalGhost a' \<le> a_maxBytes a' \<and> ARC_entries a' \<subseteq>\<^sub>m ARC_entries a \<and>
     a_maxBytes a' = a_maxBytes a \<and> a_p a' = a_p a \<and> a_onEvicted a' = a_onEvicted a \<and>
     allkeys a' \<subseteq> allkeys a \<and>
     (a_onEvicted a \<longrightarrow> (\<forall>j w. (j, w) \<in> set ev \<longleftrightarrow>
        ARC_entries a j = Some w \<and> ARC_entries a' j = None)))"

lemma shed_refl: "ARC_wf a \<Longrightarrow> totalGhost a \<le> a_maxBytes a \<Longrightarrow> shed a (a, [])"
  by (simp add: shed_def)

lemma shed_step:
  assumes "shed a (b, ev)" and "evicts (b, ev) n s"
  shows "shed a s"
proof -
  obtain c ev' where s: "s = (c, ev')" by (cases s)
  note old = assms(1) [unfolded shed_def prod.case]
  note new = assms(2) [unfolded evicts_def s prod.case]
  have sub: "ARC_entries c \<subseteq>\<^sub>m ARC_entries a"
    using old new map_le_upd_None [of "ARC_entries b" "ARC_entries a"] by simp
  have up: "ARC_entries a (r_key n) = Some (r_value n)"
    using old new by (auto simp: map_le_def dom_def)
  have "(j, w) \<in> set ev' \<longleftrightarrow> ARC_entries a j = Some w \<and> ARC_entries c j = None"
    if "a_onEvicted a" for j w
    using that old new up by (cases "j = r_key n") auto
  with sub old new show ?thesis by (auto simp: shed_def s)
qed

lemma replaceLoop_ok:
  assumes "ARC_wf a" and "totalGhost a \<le> a_maxBytes a" and "need \<le> a_maxBytes a"
  shows "\<exists>a' ev. ARC_replaceLoop pref need (a, []) = Some (a', ev) \<and> shed a (a', ev) \<and>
    totalReal a' + need \<le> a_maxBytes a"
proof -
  let ?b = "\<lambda>s. totalReal (fst s) + need > a_maxBytes (fst s)"
  have "\<exists>t. go_for ?b (replaceOneLocked pref) (a, []) = Some t \<and> shed a t \<and> \<not> ?b t"
  proof (rule go_for_total [where m = "\<lambda>s. length (a_t1 (fst s)) + length (a_t2 (fst s))"])
    show "shed a (a, [])" using assms(1,2) by (rule shed_refl)
  next
    fix s assume s: "shed a s" "?b s"
    obtain b ev where b: "s = (b, ev)" by (cases s)
    from s b have wf: "ARC_wf b" and "a_maxBytes b = a_maxBytes a" by (simp_all add: shed_def)
    with s b assms(3) have "0 < totalReal b" by simp
    from replaceOne_ok [OF wf this] obtain n s' where
      r: "replaceOneLocked pref (b, ev) = Some s'" "evicts (b, ev) n s'" by blast
    have "shed a s'" using shed_step s(1) r(2) by (simp add: b)
    with r show "\<exists>t. replaceOneLocked pref s = Some t \<and> shed a t \<and>
        length (a_t1 (fst t)) + length (a_t2 (fst t))
          < length (a_t1 (fst s)) + length (a_t2 (fst s))"
      by (cases s') (auto simp: b evicts_def)
  qed
  then obtain a' ev where "go_for ?b (replaceOneLocked pref) (a, []) = Some (a', ev)"
    "shed a (a', ev)" "\<not> ?b (a', ev)" by auto
  then show ?thesis by (auto simp: ARC_replaceLoop_def shed_def)
qed

section \<open>The methods\<close>

lemma ARC_p_wf:
  "ARC_wf a \<Longrightarrow> 0 \<le> q \<Longrightarrow> q \<le> a_maxBytes a \<Longrightarrow> ARC_wf (a\<lparr>a_p := q\<rparr>)"
  by (simp add: ARC_wf_def)

text \<open>Inserting into T1 and T2 a key that is nowhere.\<close>

definition inserted :: "ARC \<Rightarrow> string \<Rightarrow> Value \<Rightarrow> ARC \<Rightarrow> bool" where
  "inserted a k v a' \<longleftrightarrow> ARC_wf a' \<and> ARC_entries a' = (ARC_entries a)(k \<mapsto> v) \<and>
     totalReal a' = totalReal a + entBytes k v \<and> totalGhost a' = totalGhost a \<and>
     a_maxBytes a' = a_maxBytes a \<and> a_onEvicted a' = a_onEvicted a"

lemma insertT2_ok:
  assumes "ARC_wf a" and "k \<notin> allkeys a"
  shows "inserted a k v (insertT2Locked a k v)"
proof -
  note wf = ARC_wfD [OF assms(1)]
  let ?n = "\<lparr>r_key = k, r_value = v\<rparr>"
  have p: "part r_key real_size (list_PushFront (a_next a) ?n (a_t2 a)) ((a_m2 a)(k \<mapsto> a_next a))
      (a_bytes2 a + entBytes k v) (Suc (a_next a))"
    using wf(2) assms(2) by (intro part_PushFront) (auto simp: allkeys_def real_size_def)
  have "ARC_wf (insertT2Locked a k v)"
    using p wf assms(2) part_mono [OF wf(1)] part_mono [OF wf(3)] part_mono [OF wf(4)]
    unfolding ARC_wf_def insertT2Locked_def by (auto simp: allkeys_def simp del: fun_upd_apply)
  then show ?thesis
    by (simp add: inserted_def insertT2Locked_def ARC_entries_def reals_PushFront totalReal_def
        totalGhost_def)
qed

lemma insertT1_ok:
  assumes "ARC_wf a" and "k \<notin> allkeys a"
  shows "inserted a k v
    (a\<lparr>a_t1 := list_PushFront (a_next a) \<lparr>r_key = k, r_value = v\<rparr> (a_t1 a),
       a_m1 := (a_m1 a)(k \<mapsto> a_next a), a_bytes1 := a_bytes1 a + entBytes k v,
       a_next := Suc (a_next a)\<rparr>)" (is "inserted a k v ?a")
proof -
  note wf = ARC_wfD [OF assms(1)]
  let ?n = "\<lparr>r_key = k, r_value = v\<rparr>"
  have p: "part r_key real_size (list_PushFront (a_next a) ?n (a_t1 a)) ((a_m1 a)(k \<mapsto> a_next a))
      (a_bytes1 a + entBytes k v) (Suc (a_next a))"
    using wf(1) assms(2) by (intro part_PushFront) (auto simp: allkeys_def real_size_def)
  have "ARC_wf ?a"
    using p wf assms(2) part_mono [OF wf(2)] part_mono [OF wf(3)] part_mono [OF wf(4)]
    unfolding ARC_wf_def by (auto simp: allkeys_def simp del: fun_upd_apply)
  moreover have "map_of (reals (a_t2 a)) k = None"
    using assms(2) dom_reals [of "a_t2 a"] by (auto simp: allkeys_def)
  then have "ARC_entries ?a = (ARC_entries a)(k \<mapsto> v)"
    by (auto simp: ARC_entries_def reals_PushFront map_add_def fun_eq_iff split: option.splits)
  ultimately show ?thesis
    by (simp add: inserted_def totalReal_def totalGhost_def)
qed

text \<open>The result of an admitted \<open>Add\<close>.\<close>

definition arc_added :: "ARC \<Rightarrow> string \<Rightarrow> Value \<Rightarrow> ARC \<Rightarrow> evictions \<Rightarrow> bool" where
  "arc_added a k v a' ev \<longleftrightarrow>
     ARC_inv a' \<and> ARC_entries a' k = Some v \<and> a_onEvicted a' = a_onEvicted a \<and>
     a_maxBytes a' = a_maxBytes a \<and>
     (\<forall>j. j \<noteq> k \<longrightarrow> ARC_entries a' j = ARC_entries a j \<or> ARC_entries a' j = None) \<and>
     (a_onEvicted a \<longrightarrow> (\<forall>j w. (j, w) \<in> set ev \<longleftrightarrow>
        j \<noteq> k \<and> ARC_entries a j = Some w \<and> ARC_entries a' j = None))"

lemma shed_inserted:
  assumes "shed a (b, ev)" and "inserted b' k v c" and "same_real b b'"
    and "totalGhost b' \<le> a_maxBytes b'" and "ARC_entries a k = None"
    and "totalReal b + entBytes k v \<le> a_maxBytes a"
  shows "arc_added a k v c ev"
proof -
  note old = assms(1) [unfolded shed_def prod.case] and new = assms(2) [unfolded inserted_def]
  have eb: "ARC_entries b' = ARC_entries b" "totalReal b' = totalReal b"
    "a_maxBytes b' = a_maxBytes b" "a_onEvicted b' = a_onEvicted b"
    using assms(3) by (simp_all add: same_real_entries same_real_totalReal) (simp_all add: same_real_def)
  have le: "ARC_entries b j = ARC_entries a j \<or> ARC_entries b j = None" for j
    using old by (auto simp: map_le_def dom_def)
  show ?thesis
    using old new assms(4-6) eb le by (auto simp: arc_added_def ARC_inv_def)
qed

lemma arc_added_cong:
  "arc_added b k v c ev \<Longrightarrow> ARC_entries b = ARC_entries a \<Longrightarrow> a_onEvicted b = a_onEvicted a \<Longrightarrow>
    a_maxBytes b = a_maxBytes a \<Longrightarrow> arc_added a k v c ev"
  by (simp add: arc_added_def)

lemma ARC_entries_None: "ARC_entries a k = None \<longleftrightarrow> k \<notin> T1 a \<union> T2 a"
  by (simp add: ARC_entries_dom [symmetric] domIff)

text \<open>A key in B1, in B2, and a key that is nowhere: after the ghost is gone all three agree.\<close>

lemma shed_insertT2:
  assumes "ARC_wf b" and "totalGhost b \<le> a_maxBytes b" and "k \<notin> allkeys b"
    and "entBytes k v \<le> a_maxBytes b"
  shows "\<exists>c ev. Option.bind (ARC_replaceLoop pref (entBytes k v) (b, []))
      (\<lambda>(a2, ev). Some (insertT2Locked a2 k v, ev)) = Some (c, ev) \<and> arc_added b k v c ev"
proof -
  from replaceLoop_ok [OF assms(1,2,4)] obtain d ev where
    d: "ARC_replaceLoop pref (entBytes k v) (b, []) = Some (d, ev)" "shed b (d, ev)"
      "totalReal d + entBytes k v \<le> a_maxBytes b" by blast
  then have wf: "ARC_wf d" "k \<notin> allkeys d" "totalGhost d \<le> a_maxBytes d"
    using assms(3) by (auto simp: shed_def)
  have "ARC_entries b k = None" using assms(3) by (auto simp: ARC_entries_None allkeys_def)
  from shed_inserted [OF d(2) insertT2_ok [OF wf(1,2)] same_real_refl wf(3) this d(3)] d(1)
  show ?thesis by simp
qed

lemma p_up_range:
  assumes "ARC_wf a"
  shows "0 \<le> min64 (a_maxBytes a) (a_p a + max64 1 x) \<and>
    min64 (a_maxBytes a) (a_p a + max64 1 x) \<le> a_maxBytes a"
    and "0 \<le> max64 0 (a_p a - max64 1 x) \<and> max64 0 (a_p a - max64 1 x) \<le> a_maxBytes a"
    and "0 \<le> min64 (a_maxBytes a) (a_p a + 1) \<and> min64 (a_maxBytes a) (a_p a + 1) \<le> a_maxBytes a"
    and "0 \<le> max64 0 (a_p a - 1) \<and> max64 0 (a_p a - 1) \<le> a_maxBytes a"
  using ARC_wfD(8-10) [OF assms] by (auto simp: min64_def max64_def)

lemma ARC_Add_g1_ok:
  assumes "ARC_inv a" and "k \<in> B1 a" and "entBytes k v \<le> a_maxBytes a"
  shows "\<exists>c ev. ARC_Add_g1 a k v = Some (c, ev) \<and> arc_added a k v c ev"
proof -
  have wf: "ARC_wf a" and gh: "totalGhost a \<le> a_maxBytes a" using assms(1) by (simp_all add: ARC_inv_def)
  let ?d = "if a_ghost1 a > 0 then max64 1 (go_div (a_ghost2 a) (max64 1 (a_ghost1 a))) else 1"
  let ?p = "min64 (a_maxBytes a) (a_p a + ?d)"
  let ?a = "a\<lparr>a_p := ?p\<rparr>" and ?b = "deleteGhostB1 (a\<lparr>a_p := ?p\<rparr>) k"
  have wfa: "ARC_wf ?a" using p_up_range [OF wf] by (intro ARC_p_wf wf) auto
  note del = deleteGhostB1_ok [OF wfa, of k]
  have inB: "k \<in> B1 ?a" using assms(2) by simp
  have fresh: "k \<notin> allkeys ?b"
    using assms(2) del(2-4) [OF inB] ARC_wfD(6,7) [OF wf] by (auto simp: allkeys_def same_real_def)
  have mx: "a_maxBytes ?b = a_maxBytes a" "a_onEvicted ?b = a_onEvicted a"
    "ARC_entries ?b = ARC_entries a"
    using del(2) [OF inB] same_real_entries [OF del(2) [OF inB]]
    by (simp_all add: same_real_def ARC_entries_def)
  have "totalGhost ?b \<le> a_maxBytes ?b"
  proof -
    have "totalGhost ?a = totalGhost a" by (simp add: totalGhost_def)
    then have "totalGhost ?b = totalGhost a - len k" using del(7) [OF inB] by argo
    with gh len_nonneg [of k] show ?thesis unfolding mx(1) by linarith
  qed
  with shed_insertT2 [OF del(1) [OF inB] _ fresh] assms(3) mx(1) obtain c ev where
    "ARC_Add_g1 a k v = Some (c, ev)" "arc_added ?b k v c ev"
    unfolding ARC_Add_g1_def Let_def by fastforce
  with arc_added_cong [OF _ mx(3,2,1)] show ?thesis by blast
qed

lemma ARC_Add_g2_ok:
  assumes "ARC_inv a" and "k \<in> B2 a" and "entBytes k v \<le> a_maxBytes a"
  shows "\<exists>c ev. ARC_Add_g2 a k v = Some (c, ev) \<and> arc_added a k v c ev"
proof -
  have wf: "ARC_wf a" and gh: "totalGhost a \<le> a_maxBytes a" using assms(1) by (simp_all add: ARC_inv_def)
  let ?d = "if a_ghost2 a > 0 then max64 1 (go_div (a_ghost1 a) (max64 1 (a_ghost2 a))) else 1"
  let ?p = "max64 0 (a_p a - ?d)"
  let ?a = "a\<lparr>a_p := ?p\<rparr>" and ?b = "deleteGhostB2 (a\<lparr>a_p := ?p\<rparr>) k"
  have wfa: "ARC_wf ?a" using p_up_range [OF wf] by (intro ARC_p_wf wf) auto
  note del = deleteGhostB2_ok [OF wfa, of k]
  have inB: "k \<in> B2 ?a" using assms(2) by simp
  have fresh: "k \<notin> allkeys ?b"
    using assms(2) del(2-4) [OF inB] ARC_wfD(6,7) [OF wf] by (auto simp: allkeys_def same_real_def)
  have mx: "a_maxBytes ?b = a_maxBytes a" "a_onEvicted ?b = a_onEvicted a"
    "ARC_entries ?b = ARC_entries a"
    using del(2) [OF inB] same_real_entries [OF del(2) [OF inB]]
    by (simp_all add: same_real_def ARC_entries_def)
  have "totalGhost ?b \<le> a_maxBytes ?b"
  proof -
    have "totalGhost ?a = totalGhost a" by (simp add: totalGhost_def)
    then have "totalGhost ?b = totalGhost a - len k" using del(7) [OF inB] by argo
    with gh len_nonneg [of k] show ?thesis unfolding mx(1) by linarith
  qed
  with shed_insertT2 [OF del(1) [OF inB] _ fresh] assms(3) mx(1) obtain c ev where
    "ARC_Add_g2 a k v = Some (c, ev)" "arc_added ?b k v c ev"
    unfolding ARC_Add_g2_def Let_def by fastforce
  with arc_added_cong [OF _ mx(3,2,1)] show ?thesis by blast
qed

lemma ARC_Add_new_ok:
  assumes "ARC_inv a" and "k \<notin> allkeys a" and "entBytes k v \<le> a_maxBytes a"
  shows "\<exists>c ev. ARC_Add_new a k v = Some (c, ev) \<and> arc_added a k v c ev"
proof -
  have wf: "ARC_wf a" and gh: "totalGhost a \<le> a_maxBytes a" using assms(1) by (simp_all add: ARC_inv_def)
  have "a_g1 a k = None" "a_g2 a k = None"
    using assms(2) by (simp_all add: part_None [OF ARC_wfD(3) [OF wf]] part_None [OF ARC_wfD(4) [OF wf]]
        allkeys_def)
  then have rm: "removeFromGhosts a k = a" by (simp add: removeFromGhosts_def)
  from replaceLoop_ok [OF wf gh assms(3)] obtain b ev where
    b: "ARC_replaceLoop False (entBytes k v) (a, []) = Some (b, ev)" "shed a (b, ev)"
      "totalReal b + entBytes k v \<le> a_maxBytes a" by blast
  have wfb: "ARC_wf b" and kb: "k \<notin> allkeys b" using b(2) assms(2) by (auto simp: shed_def)
  from trimGhostsForNewLocked_ok [OF wfb] obtain b' where
    b': "trimGhostsForNewLocked b = Some b'" "ARC_wf b'" "same_real b b'"
      "totalGhost b' < a_maxBytes b'" by blast
  have kb': "k \<notin> allkeys b'" using b'(3) kb by (auto simp: allkeys_def same_real_def)
  have "ARC_entries a k = None" using assms(2) by (auto simp: ARC_entries_None allkeys_def)
  from shed_inserted [OF b(2) insertT1_ok [OF b'(2) kb'] b'(3) less_imp_le [OF b'(4)] this b(3)]
  show ?thesis using rm b(1) b'(1) by (simp add: ARC_Add_new_def)
qed

text \<open>Updates of a present key for which the loop does not run.\<close>

lemma T1_entry:
  assumes "ARC_wf a" and "a_m1 a k = Some e"
  obtains n where "list_Value (a_t1 a) e = Some n" "(e, n) \<in> set (a_t1 a)" "r_key n = k"
    "ARC_entries a k = Some (r_value n)" "k \<in> T1 a" "k \<notin> T2 a"
    "map_of (reals (a_t2 a)) k = None"
proof -
  note wf = ARC_wfD [OF assms(1)]
  obtain n where n: "list_Value (a_t1 a) e = Some n" "(e, n) \<in> set (a_t1 a)" "r_key n = k"
    using part_hit [OF wf(1) assms(2)] .
  have k: "k \<in> T1 a" using in_keys_of [OF n(2), of r_key] n(3) by simp
  then have k2: "k \<notin> T2 a" using wf(5) by blast
  have "ARC_entries a k = Some (r_value n)"
    using ARC_entries_T1 [OF assms(1) k] reals_lookup [OF wf(1) n(2)] n(3) by simp
  moreover have "map_of (reals (a_t2 a)) k = None" using k2 dom_reals [of "a_t2 a"] by auto
  ultimately show thesis using that n k k2 by blast
qed

lemma T2_entry:
  assumes "ARC_wf a" and "a_m2 a k = Some e"
  obtains n where "list_Value (a_t2 a) e = Some n" "(e, n) \<in> set (a_t2 a)" "r_key n = k"
    "ARC_entries a k = Some (r_value n)" "k \<in> T2 a" "k \<notin> T1 a" "a_m1 a k = None"
    "map_of (reals (a_t1 a)) k = None"
proof -
  note wf = ARC_wfD [OF assms(1)]
  obtain n where n: "list_Value (a_t2 a) e = Some n" "(e, n) \<in> set (a_t2 a)" "r_key n = k"
    using part_hit [OF wf(2) assms(2)] .
  have k: "k \<in> T2 a" using in_keys_of [OF n(2), of r_key] n(3) by simp
  then have k2: "k \<notin> T1 a" using wf(5) by blast
  have "ARC_entries a k = Some (r_value n)"
    using ARC_entries_T2 [OF assms(1) k] reals_lookup [OF wf(2) n(2)] n(3) by simp
  moreover have "map_of (reals (a_t1 a)) k = None" using k2 dom_reals [of "a_t1 a"] by auto
  moreover have "a_m1 a k = None" using k2 by (simp add: part_None [OF wf(1)])
  ultimately show thesis using that n k k2 by blast
qed

text \<open>Taking an entry out and putting it, or an updated one, in front.\<close>

lemma part_refresh:
  assumes "part r_key real_size l m t n" and "(e, x) \<in> set l" and "r_key x = k" and "r_key y = k"
    and "t' = t - real_size x + real_size y"
  shows "part r_key real_size (list_PushFront n y (list_Remove e l)) (m(k := None, k \<mapsto> n)) t' (Suc n)"
    and "keys_of r_key (list_PushFront n y (list_Remove e l)) = keys_of r_key l"
    and "map_of (reals (list_PushFront n y (list_Remove e l))) = (map_of (reals l))(k \<mapsto> r_value y)"
proof -
  have keys: "keys_of r_key (list_Remove e l) = keys_of r_key l - {k}"
    using keys_of_Remove [OF part_indexed [OF assms(1)] assms(2)] assms(3) by simp
  have "part r_key real_size (list_Remove e l) (m(k := None)) (t - real_size x) n"
    using part_Remove [OF assms(1,2)] assms(3) by simp
  then show "part r_key real_size (list_PushFront n y (list_Remove e l)) (m(k := None, k \<mapsto> n)) t' (Suc n)"
    by (rule part_PushFront) (use keys assms(4,5) in auto)
  have "k \<in> keys_of r_key l" using in_keys_of [OF assms(2), of r_key] assms(3) by simp
  with keys assms(4) show "keys_of r_key (list_PushFront n y (list_Remove e l)) = keys_of r_key l"
    by auto
  show "map_of (reals (list_PushFront n y (list_Remove e l))) = (map_of (reals l))(k \<mapsto> r_value y)"
    using reals_Remove [OF assms(1,2)] assms(3,4) by (simp add: reals_PushFront)
qed

lemma ARC_Add_m1_inplace:
  assumes "ARC_inv a" and "a_m1 a k = Some e" and "ARC_entries a k = Some w"
    and "totalReal a - 2 * Value_Len w + entBytes k v \<le> a_maxBytes a"
    and "totalReal a - Value_Len w + Value_Len v \<le> a_maxBytes a"
  shows "\<exists>c. ARC_Add a k v = Some (c, []) \<and> arc_added a k v c []"
proof -
  have awf: "ARC_wf a" using assms(1) by (simp add: ARC_inv_def)
  note wf = ARC_wfD [OF awf]
  obtain n where n: "list_Value (a_t1 a) e = Some n" "(e, n) \<in> set (a_t1 a)" "r_key n = k"
    "ARC_entries a k = Some (r_value n)" "k \<in> T1 a" "k \<notin> T2 a" "map_of (reals (a_t2 a)) k = None"
    using T1_entry [OF awf assms(2)] .
  have w: "r_value n = w" using n(4) assms(3) by simp
  let ?n = "n\<lparr>r_value := v\<rparr>" and ?b = "a_bytes1 a - Value_Len w + Value_Len v"
  let ?t = "list_PushFront (a_next a) ?n (list_Remove e (a_t1 a))"
  let ?m = "(a_m1 a)(k := None, k \<mapsto> a_next a)"
  let ?a = "a\<lparr>a_bytes1 := ?b, a_t1 := ?t, a_m1 := ?m, a_next := Suc (a_next a)\<rparr>"
  have add: "ARC_Add a k v = Some (?a, [])"
    using assms(2,4) n(1) w
    by (simp add: ARC_Add_def ARC_Add_m1_def ARC_replaceLoop_def go_for_stop totalReal_def)
  have sz: "?b = a_bytes1 a - real_size n + real_size ?n"
    using w by (simp add: real_size_def entBytes_def)
  note fresh = part_refresh [OF wf(1) n(2,3) _ sz]
  have "ARC_wf ?a"
    using wf fresh n(3) part_mono [OF wf(2)] part_mono [OF wf(3)] part_mono [OF wf(4)]
    unfolding ARC_wf_def by (simp del: fun_upd_apply fun_upd_upd)
  moreover have "ARC_entries ?a = (ARC_entries a)(k \<mapsto> v)"
    using fresh(3) n(3,7) by (auto simp: ARC_entries_def map_add_def fun_eq_iff split: option.splits)
  ultimately have "arc_added a k v ?a []"
    using assms(1,5) by (auto simp: arc_added_def ARC_inv_def totalReal_def totalGhost_def)
  with add show ?thesis by blast
qed

lemma ARC_Add_m2_inplace:
  assumes "ARC_inv a" and "a_m2 a k = Some e" and "ARC_entries a k = Some w"
    and "totalReal a - 2 * Value_Len w + entBytes k v \<le> a_maxBytes a"
    and "totalReal a - Value_Len w + Value_Len v \<le> a_maxBytes a"
  shows "\<exists>c. ARC_Add a k v = Some (c, []) \<and> arc_added a k v c []"
proof -
  have awf: "ARC_wf a" using assms(1) by (simp add: ARC_inv_def)
  note wf = ARC_wfD [OF awf]
  obtain n where n: "list_Value (a_t2 a) e = Some n" "(e, n) \<in> set (a_t2 a)" "r_key n = k"
    "ARC_entries a k = Some (r_value n)" "k \<in> T2 a" "k \<notin> T1 a" "a_m1 a k = None"
    "map_of (reals (a_t1 a)) k = None"
    using T2_entry [OF awf assms(2)] .
  have w: "r_value n = w" using n(4) assms(3) by simp
  let ?n = "n\<lparr>r_value := v\<rparr>" and ?b = "a_bytes2 a - Value_Len w + Value_Len v"
  let ?t = "list_PushFront (a_next a) ?n (list_Remove e (a_t2 a))"
  let ?m = "(a_m2 a)(k := None, k \<mapsto> a_next a)"
  let ?a = "a\<lparr>a_bytes2 := ?b, a_t2 := ?t, a_m2 := ?m, a_next := Suc (a_next a)\<rparr>"
  have add: "ARC_Add a k v = Some (?a, [])"
    using assms(2,4) n(1,7) w
    by (simp add: ARC_Add_def ARC_Add_m2_def ARC_replaceLoop_def go_for_stop totalReal_def)
  have sz: "?b = a_bytes2 a - real_size n + real_size ?n"
    using w by (simp add: real_size_def entBytes_def)
  note fresh = part_refresh [OF wf(2) n(2,3) _ sz]
  have "ARC_wf ?a"
    using wf fresh n(3) part_mono [OF wf(1)] part_mono [OF wf(3)] part_mono [OF wf(4)]
    unfolding ARC_wf_def by (simp del: fun_upd_apply fun_upd_upd)
  moreover have "ARC_entries ?a = (ARC_entries a)(k \<mapsto> v)"
    using fresh(3) n(3) by (auto simp: ARC_entries_def map_add_def fun_eq_iff split: option.splits)
  ultimately have "arc_added a k v ?a []"
    using assms(1,5) by (auto simp: arc_added_def ARC_inv_def totalReal_def totalGhost_def)
  with add show ?thesis by blast
qed

text \<open>
  An insertion is admitted if a new entry fits, and an update if it neither makes the loop run
  nor exceeds the capacity. (The guard of the loop counts the key and not the old value twice;
  the sum that matters is the second one.)
\<close>

definition ARC_admits :: "ARC \<Rightarrow> string \<Rightarrow> Value \<Rightarrow> bool" where
  "ARC_admits a k v \<longleftrightarrow>
     (case ARC_entries a k of
        None \<Rightarrow> entBytes k v \<le> a_maxBytes a
      | Some w \<Rightarrow> totalReal a - 2 * Value_Len w + entBytes k v \<le> a_maxBytes a \<and>
                 totalReal a - Value_Len w + Value_Len v \<le> a_maxBytes a)"

lemma ARC_Add_ok:
  assumes "ARC_inv a" and "ARC_admits a k v"
  shows "\<exists>c ev. ARC_Add a k v = Some (c, ev) \<and> arc_added a k v c ev"
proof (cases "ARC_entries a k")
  case (Some w)
  have wf: "ARC_wf a" using assms(1) by (simp add: ARC_inv_def)
  from Some have "a_m1 a k \<noteq> None \<or> a_m2 a k \<noteq> None"
    using ARC_entries_None [of a k] part_None [OF ARC_wfD(1) [OF wf], of k]
      part_None [OF ARC_wfD(2) [OF wf], of k] by auto
  then show ?thesis
    using ARC_Add_m1_inplace [OF assms(1) _ Some, of _ v] ARC_Add_m2_inplace [OF assms(1) _ Some, of _ v]
      assms(2) Some by (fastforce simp: ARC_admits_def)
next
  case None
  then have fits: "entBytes k v \<le> a_maxBytes a" using assms(2) by (simp add: ARC_admits_def)
  have wf: "ARC_wf a" using assms(1) by (simp add: ARC_inv_def)
  have out: "k \<notin> T1 a" "k \<notin> T2 a" using None by (auto simp: ARC_entries_None)
  then have m: "a_m1 a k = None" "a_m2 a k = None"
    by (simp_all add: part_None [OF ARC_wfD(1) [OF wf]] part_None [OF ARC_wfD(2) [OF wf]])
  have g: "a_g1 a k \<noteq> None \<longleftrightarrow> k \<in> B1 a" "a_g2 a k \<noteq> None \<longleftrightarrow> k \<in> B2 a"
    by (simp_all only: part_dom [OF ARC_wfD(3) [OF wf]] part_dom [OF ARC_wfD(4) [OF wf]])
  have "ARC_Add a k v = (if k \<in> B1 a then ARC_Add_g1 a k v
      else if k \<in> B2 a then ARC_Add_g2 a k v else ARC_Add_new a k v)"
    by (simp only: ARC_Add_def m option.case g)
  then show ?thesis
    using ARC_Add_g1_ok [OF assms(1) _ fits] ARC_Add_g2_ok [OF assms(1) _ fits]
      ARC_Add_new_ok [OF assms(1) _ fits] out by (auto simp: allkeys_def)
qed

text \<open>\<open>Get\<close> and \<open>Remove\<close>\<close>

lemma ARC_Get_ok:
  assumes "ARC_inv a"
  shows "fst (ARC_Get a k) = ARC_entries a k \<and> ARC_entries (snd (ARC_Get a k)) = ARC_entries a \<and>
    ARC_inv (snd (ARC_Get a k)) \<and> totalReal (snd (ARC_Get a k)) = totalReal a"
proof -
  have awf: "ARC_wf a" using assms by (simp add: ARC_inv_def)
  note wf = ARC_wfD [OF awf]
  consider (m1) e where "a_m1 a k = Some e" | (m2) e where "a_m1 a k = None" "a_m2 a k = Some e"
    | (miss) "a_m1 a k = None" "a_m2 a k = None" by fastforce
  then show ?thesis
  proof cases
    case m1
    obtain n where n: "list_Value (a_t1 a) e = Some n" "(e, n) \<in> set (a_t1 a)" "r_key n = k"
      "ARC_entries a k = Some (r_value n)" "k \<in> T1 a" "k \<notin> T2 a" "map_of (reals (a_t2 a)) k = None"
      using T1_entry [OF awf m1] .
    have keys: "keys_of r_key (list_Remove e (a_t1 a)) = T1 a - {k}"
      using keys_of_Remove [OF part_indexed [OF wf(1)] n(2)] n(3) by simp
    have p1: "part r_key real_size (list_Remove e (a_t1 a)) ((a_m1 a)(k := None))
        (a_bytes1 a - entBytes (r_key n) (r_value n)) (Suc (a_next a))"
      using part_mono [OF part_Remove [OF wf(1) n(2)]] n(3) by (simp add: real_size_def)
    have p2: "part r_key real_size (list_PushFront (a_next a) n (a_t2 a)) ((a_m2 a)(k \<mapsto> a_next a))
        (a_bytes2 a + entBytes (r_key n) (r_value n)) (Suc (a_next a))"
      using wf(2) by (rule part_PushFront) (use n in \<open>simp_all add: real_size_def\<close>)
    have "ARC_wf (snd (ARC_Get a k))"
      using wf p1 p2 keys n(3,5) part_mono [OF wf(3)] part_mono [OF wf(4)] m1 n(1)
      unfolding ARC_wf_def by (auto simp: ARC_Get_def simp del: fun_upd_apply)
    moreover have "ARC_entries (snd (ARC_Get a k)) = ARC_entries a"
      using m1 n reals_Remove [OF wf(1) n(2)]
      by (auto simp: ARC_Get_def ARC_entries_def reals_PushFront map_add_def fun_eq_iff
          split: option.splits)
    ultimately show ?thesis
      using m1 n assms by (simp add: ARC_Get_def ARC_inv_def totalReal_def totalGhost_def)
  next
    case m2
    obtain n where n: "list_Value (a_t2 a) e = Some n" "(e, n) \<in> set (a_t2 a)" "r_key n = k"
      "ARC_entries a k = Some (r_value n)" "k \<in> T2 a" "k \<notin> T1 a" "a_m1 a k = None"
      "map_of (reals (a_t1 a)) k = None"
      using T2_entry [OF awf m2(2)] .
    have sz: "a_bytes2 a - entBytes (r_key n) (r_value n) + entBytes (r_key n) (r_value n)
        = a_bytes2 a - real_size n + real_size n" by simp
    note fresh = part_refresh [OF wf(2) n(2,3,3) sz]
    have "ARC_wf (snd (ARC_Get a k))"
      using wf fresh m2 n(1,3) part_mono [OF wf(1)] part_mono [OF wf(3)] part_mono [OF wf(4)]
      unfolding ARC_wf_def by (simp add: ARC_Get_def del: fun_upd_apply fun_upd_upd)
    moreover have "map_of (reals (a_t2 a)) k = Some (r_value n)"
      using reals_lookup [OF wf(2) n(2)] n(3) by simp
    then have "ARC_entries (snd (ARC_Get a k)) = ARC_entries a"
      using m2 n fresh(3) by (simp add: ARC_Get_def ARC_entries_def fun_upd_idem)
    ultimately show ?thesis
      using m2 n assms by (simp add: ARC_Get_def ARC_inv_def totalReal_def totalGhost_def)
  next
    case miss
    then have "ARC_entries a k = None"
      using part_None [OF wf(1)] part_None [OF wf(2)] by (simp add: ARC_entries_None)
    with miss assms show ?thesis by (simp add: ARC_Get_def)
  qed
qed

text \<open>A hit ends up at the front of T2.\<close>

lemma ARC_Get_front:
  assumes "ARC_inv a" and "ARC_entries a k = Some v"
  shows "\<exists>ns. vals (a_t2 (snd (ARC_Get a k))) = \<lparr>r_key = k, r_value = v\<rparr> # ns"
proof -
  have awf: "ARC_wf a" using assms(1) by (simp add: ARC_inv_def)
  have node: "n = \<lparr>r_key = k, r_value = v\<rparr>" if "r_key n = k" "r_value n = v" for n :: arcReal
    using that by simp
  have "a_m1 a k \<noteq> None \<or> a_m2 a k \<noteq> None"
    using assms(2) ARC_entries_None [of a k] part_None [OF ARC_wfD(1) [OF awf], of k]
      part_None [OF ARC_wfD(2) [OF awf], of k] by auto
  then show ?thesis
  proof (elim disjE)
    assume "a_m1 a k \<noteq> None"
    then obtain e where e: "a_m1 a k = Some e" by blast
    from T1_entry [OF awf e] assms(2) obtain n where
      "list_Value (a_t1 a) e = Some n" "r_key n = k" "r_value n = v" by (metis option.inject)
    with e node show ?thesis by (simp add: ARC_Get_def)
  next
    assume "a_m2 a k \<noteq> None"
    then obtain e where e: "a_m2 a k = Some e" by blast
    from T2_entry [OF awf e] assms(2) obtain n where
      "list_Value (a_t2 a) e = Some n" "r_key n = k" "r_value n = v" "a_m1 a k = None"
      by (metis option.inject)
    with e node show ?thesis by (simp add: ARC_Get_def)
  qed
qed

lemma ARC_Remove_ok:
  assumes "ARC_inv a"
  shows "ARC_entries (snd (ARC_Remove a k)) = (ARC_entries a)(k := None) \<and>
    ARC_inv (snd (ARC_Remove a k)) \<and> allkeys (snd (ARC_Remove a k)) = allkeys a - {k} \<and>
    (fst (ARC_Remove a k) \<longleftrightarrow> k \<in> allkeys a)"
proof -
  have awf: "ARC_wf a" using assms by (simp add: ARC_inv_def)
  note wf = ARC_wfD [OF awf]
  have g: "a_g1 a k \<noteq> None \<longleftrightarrow> k \<in> B1 a" "a_g2 a k \<noteq> None \<longleftrightarrow> k \<in> B2 a"
    by (simp_all only: part_dom [OF wf(3)] part_dom [OF wf(4)])
  consider (m1) e where "a_m1 a k = Some e" | (m2) e where "a_m1 a k = None" "a_m2 a k = Some e"
    | (ghost) "a_m1 a k = None" "a_m2 a k = None" by fastforce
  then show ?thesis
  proof cases
    case m1
    obtain n where n: "list_Value (a_t1 a) e = Some n" "(e, n) \<in> set (a_t1 a)" "r_key n = k"
      "ARC_entries a k = Some (r_value n)" "k \<in> T1 a" "k \<notin> T2 a" "map_of (reals (a_t2 a)) k = None"
      using T1_entry [OF awf m1] .
    have keys: "keys_of r_key (list_Remove e (a_t1 a)) = T1 a - {k}"
      using keys_of_Remove [OF part_indexed [OF wf(1)] n(2)] n(3) by simp
    have p1: "part r_key real_size (list_Remove e (a_t1 a)) ((a_m1 a)(k := None))
        (a_bytes1 a - entBytes (r_key n) (r_value n)) (a_next a)"
      using part_Remove [OF wf(1) n(2)] n(3) by (simp add: real_size_def)
    have "ARC_wf (snd (ARC_Remove a k))"
      using wf p1 keys m1 n(1) unfolding ARC_wf_def
      by (auto simp: ARC_Remove_def simp del: fun_upd_apply)
    moreover have "ARC_entries (snd (ARC_Remove a k)) = (ARC_entries a)(k := None)"
      using m1 n reals_Remove [OF wf(1) n(2)]
      by (auto simp: ARC_Remove_def ARC_entries_def map_add_def fun_eq_iff split: option.splits)
    moreover have "0 \<le> entBytes (r_key n) (r_value n)" by (simp add: entBytes_def)
    ultimately show ?thesis
      using m1 n assms keys wf(5,6)
      by (auto simp: ARC_Remove_def ARC_inv_def totalReal_def totalGhost_def allkeys_def)
  next
    case m2
    obtain n where n: "list_Value (a_t2 a) e = Some n" "(e, n) \<in> set (a_t2 a)" "r_key n = k"
      "ARC_entries a k = Some (r_value n)" "k \<in> T2 a" "k \<notin> T1 a" "a_m1 a k = None"
      "map_of (reals (a_t1 a)) k = None"
      using T2_entry [OF awf m2(2)] .
    have keys: "keys_of r_key (list_Remove e (a_t2 a)) = T2 a - {k}"
      using keys_of_Remove [OF part_indexed [OF wf(2)] n(2)] n(3) by simp
    have p2: "part r_key real_size (list_Remove e (a_t2 a)) ((a_m2 a)(k := None))
        (a_bytes2 a - entBytes (r_key n) (r_value n)) (a_next a)"
      using part_Remove [OF wf(2) n(2)] n(3) by (simp add: real_size_def)
    have "ARC_wf (snd (ARC_Remove a k))"
      using wf p2 keys m2 n(1) unfolding ARC_wf_def
      by (auto simp: ARC_Remove_def simp del: fun_upd_apply)
    moreover have "ARC_entries (snd (ARC_Remove a k)) = (ARC_entries a)(k := None)"
      using m2 n reals_Remove [OF wf(2) n(2)]
      by (auto simp: ARC_Remove_def ARC_entries_def map_add_def fun_eq_iff split: option.splits)
    moreover have "0 \<le> entBytes (r_key n) (r_value n)" by (simp add: entBytes_def)
    ultimately show ?thesis
      using m2 n assms keys wf(5,6)
      by (auto simp: ARC_Remove_def ARC_inv_def totalReal_def totalGhost_def allkeys_def)
  next
    case ghost
    then have out: "ARC_entries a k = None" "k \<notin> T1 a" "k \<notin> T2 a"
      using part_None [OF wf(1)] part_None [OF wf(2)] by (simp_all add: ARC_entries_None)
    have rem: "ARC_Remove a k = (if k \<in> B1 a then (True, deleteGhostB1 a k)
        else if k \<in> B2 a then (True, deleteGhostB2 a k) else (False, a))"
      by (simp only: ARC_Remove_def ghost option.case g)
    have same: "same_real a (snd (ARC_Remove a k))" "ARC_wf (snd (ARC_Remove a k))"
      "totalGhost (snd (ARC_Remove a k)) \<le> totalGhost a"
      using deleteGhostB1_ok(1,2,7) [OF awf, of k] deleteGhostB2_ok(1,2,7) [OF awf, of k] awf
      by (auto simp: rem)
    have keys: "allkeys (snd (ARC_Remove a k)) = allkeys a - {k}"
      using out wf(7) deleteGhostB1_ok(2-4) [OF awf, of k] deleteGhostB2_ok(2-4) [OF awf, of k]
      by (auto simp: rem allkeys_def same_real_def)
    have "a_maxBytes (snd (ARC_Remove a k)) = a_maxBytes a" using same(1) by (simp add: same_real_def)
    with same keys out assms same_real_entries [OF same(1)] same_real_totalReal [OF same(1)]
    show ?thesis by (auto simp: ARC_inv_def rem allkeys_def fun_eq_iff)
  qed
qed

interpretation arc: cache_store ARC_Get ARC_Add ARC_Remove ARC_inv ARC_entries ARC_admits a_onEvicted
proof (unfold_locales, goal_cases)
  case (1 s k) then show ?case by (simp add: ARC_Get_ok)
next
  case (2 s k) then show ?case by (simp add: ARC_Get_ok)
next
  case (3 s k) then show ?case by (simp add: ARC_Get_ok)
next
  case (4 s k) then show ?case by (simp add: ARC_Remove_ok)
next
  case (5 s k) then show ?case
    using ARC_Remove_ok [of s k] ARC_entries_None [of s k] by (auto simp: allkeys_def)
next
  case (6 s k) then show ?case by (simp add: ARC_Remove_ok)
next
  case (7 s k v) then show ?case using ARC_Add_ok [of s k v] by auto
next
  case (8 s k v s' ev) then show ?case using ARC_Add_ok [of s k v] by (auto simp: arc_added_def)
next
  case (9 s k v s' ev) then show ?case using ARC_Add_ok [of s k v] by (auto simp: arc_added_def)
next
  case (10 s k v s' ev j) then show ?case using ARC_Add_ok [of s k v] by (auto simp: arc_added_def)
next
  case (11 s k v s' ev j w) then show ?case using ARC_Add_ok [of s k v] by (auto simp: arc_added_def)
qed

section \<open>Properties\<close>

lemma NewARC_inv: "ARC_inv (NewARC b cb)"
proof -
  have "0 \<le> go_div m 2 \<and> go_div m 2 \<le> m" if "1 \<le> m" for m :: int
    using that by (auto simp: go_div_def)
  then show ?thesis
    by (auto simp: ARC_inv_def ARC_wf_def NewARC_def Let_def totalReal_def totalGhost_def keys_of_def)
qed

lemma NewARC_entries: "ARC_entries (NewARC b cb) = Map.empty"
  by (simp add: ARC_entries_def NewARC_def Let_def reals_def)

text \<open>Two entries of eleven bytes, \<open>a\<close> in T2, \<open>b\<close> in T1.\<close>

definition arc_example :: ARC where
  "arc_example =
     (case run_ops ARC_Get ARC_Add ARC_Remove (NewARC 30 True) ex_ops of
        Some a \<Rightarrow> a | None \<Rightarrow> NewARC 0 False)"

lemma arc_example_inv: "ARC_inv arc_example"
proof -
  have adm: "admitted ARC_Get ARC_Add ARC_Remove ARC_admits (NewARC 30 True) ex_ops" by code_simp
  from arc.run_lossy [OF NewARC_inv adm] show ?thesis by (auto simp: arc_example_def)
qed

text \<open>
  C30: An admitted insertion or update returns, with the four lists still disjoint and indexed,
  the stored entries and the ghosts each within \<open>maxBytes\<close> and the target \<open>p\<close> in
  \<open>[0, maxBytes]\<close>; the entry is stored, and \<open>onEvicted\<close> has been called on exactly the other
  entries that are gone.
\<close>

theorem arc_add_keeps_inv:
  assumes "ARC_inv a" and "ARC_admits a k v"
  shows "\<exists>a' ev. ARC_Add a k v = Some (a', ev) \<and> ARC_inv a' \<and> ARC_entries a' k = Some v \<and>
    totalReal a' \<le> a_maxBytes a \<and> totalGhost a' \<le> a_maxBytes a \<and>
    0 \<le> a_p a' \<and> a_p a' \<le> a_maxBytes a \<and> ARC_entries a' \<subseteq>\<^sub>m (ARC_entries a)(k \<mapsto> v) \<and>
    (a_onEvicted a \<longrightarrow> (\<forall>j w. (j, w) \<in> set ev \<longleftrightarrow>
       j \<noteq> k \<and> ARC_entries a j = Some w \<and> ARC_entries a' j = None))"
proof -
  from ARC_Add_ok [OF assms] obtain a' ev where
    add: "ARC_Add a k v = Some (a', ev)" and res: "arc_added a k v a' ev" by blast
  from res have "ARC_inv a'" "a_maxBytes a' = a_maxBytes a" by (simp_all add: arc_added_def)
  then have "totalReal a' \<le> a_maxBytes a" "totalGhost a' \<le> a_maxBytes a"
    "0 \<le> a_p a'" "a_p a' \<le> a_maxBytes a"
    using ARC_wfD(9,10) [of a'] by (auto simp: ARC_inv_def)
  with add res arc.add_lossy [OF assms add] show ?thesis by (auto simp: arc_added_def)
qed

theorem arc_add_keeps_inv_witness:
  "ARC_inv arc_example \<and> ARC_admits arc_example ''c'' (ex_view ''0123456789'') \<and>
   (\<exists>a' ev. ARC_Add arc_example ''c'' (ex_view ''0123456789'') = Some (a', ev) \<and> ARC_inv a' \<and>
      map fst ev = [''a''] \<and> vals (a_b2 a') = [''a''])"
proof -
  let ?v = "ex_view ''0123456789''"
  have adm: "ARC_admits arc_example ''c'' ?v" by code_simp
  have res: "map_option (\<lambda>(a', ev). (map fst ev, vals (a_b2 a'))) (ARC_Add arc_example ''c'' ?v)
      = Some ([''a''], [''a''])" by code_simp
  from arc_add_keeps_inv [OF arc_example_inv adm] obtain a' ev where
    "ARC_Add arc_example ''c'' ?v = Some (a', ev)" "ARC_inv a'" by blast
  with res adm arc_example_inv show ?thesis by auto
qed

text \<open>
  Lookup promotes: \<open>Get\<close> returns the stored value, changes neither the contents nor the
  bytes used, and a hit leaves the key at the front of T2, whichever list it was in.
  \<open>Remove\<close> forgets the key in all four lists; it answers \<open>true\<close> also for a key that was only
  a ghost.
\<close>

theorem arc_get_remove:
  assumes "ARC_inv a"
  shows "fst (ARC_Get a k) = ARC_entries a k \<and> ARC_entries (snd (ARC_Get a k)) = ARC_entries a \<and>
    totalReal (snd (ARC_Get a k)) = totalReal a \<and> ARC_inv (snd (ARC_Get a k)) \<and>
    (\<forall>v. ARC_entries a k = Some v \<longrightarrow>
       (\<exists>ns. vals (a_t2 (snd (ARC_Get a k))) = \<lparr>r_key = k, r_value = v\<rparr> # ns)) \<and>
    (fst (ARC_Remove a k) \<longleftrightarrow> k \<in> T1 a \<union> T2 a \<union> B1 a \<union> B2 a) \<and>
    ARC_entries (snd (ARC_Remove a k)) = (ARC_entries a)(k := None) \<and>
    k \<notin> T1 (snd (ARC_Remove a k)) \<union> T2 (snd (ARC_Remove a k))
       \<union> B1 (snd (ARC_Remove a k)) \<union> B2 (snd (ARC_Remove a k)) \<and>
    ARC_inv (snd (ARC_Remove a k))"
proof -
  have "\<exists>ns. vals (a_t2 (snd (ARC_Get a k))) = \<lparr>r_key = k, r_value = v\<rparr> # ns"
    if "ARC_entries a k = Some v" for v
    using ARC_Get_front [OF assms that] .
  with ARC_Get_ok [OF assms, of k] ARC_Remove_ok [OF assms, of k]
  show ?thesis by (simp add: allkeys_def)
qed

theorem arc_get_remove_witness:
  "ARC_inv arc_example \<and> fst (ARC_Get arc_example ''b'') = Some (ex_view ''0123456789'') \<and>
   (\<exists>ns. vals (a_t2 (snd (ARC_Get arc_example ''b''))) =
      \<lparr>r_key = ''b'', r_value = ex_view ''0123456789''\<rparr> # ns)"
proof -
  have "ARC_entries arc_example ''b'' = Some (ex_view ''0123456789'')" by code_simp
  with arc_get_remove [OF arc_example_inv, of "''b''"] arc_example_inv show ?thesis by simp
qed

text \<open>
  After any sequence of operations on a fresh ARC cache whose insertions are all admitted, the
  run has returned and a lookup that hits returns what an unbounded map would hold.
\<close>

theorem arc_never_stale:
  assumes "admitted ARC_Get ARC_Add ARC_Remove ARC_admits (NewARC b cb) xs"
  shows "\<exists>a. run_ops ARC_Get ARC_Add ARC_Remove (NewARC b cb) xs = Some a \<and> ARC_inv a \<and>
    (\<forall>k v. fst (ARC_Get a k) = Some v \<longrightarrow> ideal_run Map.empty xs k = Some v)"
proof -
  from arc.run_lossy [OF NewARC_inv assms] obtain a where
    a: "run_ops ARC_Get ARC_Add ARC_Remove (NewARC b cb) xs = Some a" "ARC_inv a" by blast
  with arc.run_get_fresh [OF NewARC_inv assms a(1)] show ?thesis by (auto simp: NewARC_entries)
qed

theorem arc_never_stale_witness:
  "admitted ARC_Get ARC_Add ARC_Remove ARC_admits (NewARC 30 True) ex_ops \<and>
   (\<exists>a. run_ops ARC_Get ARC_Add ARC_Remove (NewARC 30 True) ex_ops = Some a \<and> ARC_inv a)"
proof -
  have adm: "admitted ARC_Get ARC_Add ARC_Remove ARC_admits (NewARC 30 True) ex_ops" by code_simp
  from arc_never_stale [OF adm] adm show ?thesis by auto
qed

text \<open>
  Updating a key can leave more than \<open>maxBytes\<close> bytes stored. The loop's guard subtracts
  the old length twice and adds the key's: whenever the updated entry, so counted, fits but the
  real sum does not, nothing is evicted and the cache is over its capacity.
\<close>

theorem arc_update_overfills:
  assumes "ARC_inv a" and "ARC_entries a k = Some w"
    and "totalReal a - 2 * Value_Len w + entBytes k v \<le> a_maxBytes a"
    and "a_maxBytes a < totalReal a - Value_Len w + Value_Len v"
  shows "\<exists>a'. ARC_Add a k v = Some (a', []) \<and> a_maxBytes a' < totalReal a' \<and>
    totalReal a' = totalReal a - Value_Len w + Value_Len v"
proof -
  have awf: "ARC_wf a" using assms(1) by (simp add: ARC_inv_def)
  have "a_m1 a k \<noteq> None \<or> a_m2 a k \<noteq> None"
    using assms(2) ARC_entries_None [of a k] part_None [OF ARC_wfD(1) [OF awf], of k]
      part_None [OF ARC_wfD(2) [OF awf], of k] by auto
  then show ?thesis
  proof (elim disjE)
    assume "a_m1 a k \<noteq> None"
    then obtain e where e: "a_m1 a k = Some e" by blast
    from T1_entry [OF awf e] assms(2) obtain n where
      "list_Value (a_t1 a) e = Some n" "r_value n = w" by (metis option.inject)
    with e assms(3,4) show ?thesis
      by (simp add: ARC_Add_def ARC_Add_m1_def ARC_replaceLoop_def go_for_stop totalReal_def)
  next
    assume "a_m2 a k \<noteq> None"
    then obtain e where e: "a_m2 a k = Some e" by blast
    from T2_entry [OF awf e] assms(2) obtain n where
      "list_Value (a_t2 a) e = Some n" "r_value n = w" "a_m1 a k = None" by (metis option.inject)
    with e assms(3,4) show ?thesis
      by (simp add: ARC_Add_def ARC_Add_m2_def ARC_replaceLoop_def go_for_stop totalReal_def)
  qed
qed

theorem arc_update_overfills_witness:
  "ARC_inv arc_example \<and> a_maxBytes arc_example = 30 \<and>
   (\<exists>a'. ARC_Add arc_example ''a'' (ex_view ''0123456789012345678901234'') = Some (a', []) \<and>
      totalReal a' = 37)"
proof -
  let ?v = "ex_view ''0123456789012345678901234''" and ?w = "ex_view ''0123456789''"
  have h: "ARC_entries arc_example ''a'' = Some ?w"
    "totalReal arc_example - 2 * Value_Len ?w + entBytes ''a'' ?v \<le> a_maxBytes arc_example"
    "a_maxBytes arc_example < totalReal arc_example - Value_Len ?w + Value_Len ?v"
    "totalReal arc_example - Value_Len ?w + Value_Len ?v = 37" "a_maxBytes arc_example = 30"
    by code_simp+
  from arc_update_overfills [OF arc_example_inv h(1-3)] h(4,5) arc_example_inv show ?thesis by auto
qed

end
