(* ===== verification/Stores.thy ===== *)
theory Stores
  imports LRU LFU ARC
begin

text \<open>
  The interface value \<open>lru.CacheStore\<close> (\<open>lru/policy.go\<close>) as \<open>geecache.Group\<close> holds it: one of
  the three caches, its methods found by dynamic dispatch, and \<open>buildCacheStores\<close> of
  \<open>geecache/group.go\<close> that chooses between them. The contract \<open>cache_store\<close> holds of the
  dispatching methods because it holds of each cache.
\<close>

datatype CacheStore = IsCache Cache | IsLFU LFU | IsARC ARC

fun CacheStore_Get :: "CacheStore \<Rightarrow> string \<Rightarrow> Value option \<times> CacheStore" where
  "CacheStore_Get (IsCache c) key = apsnd IsCache (Cache_Get c key)"
| "CacheStore_Get (IsLFU f) key = apsnd IsLFU (LFU_Get f key)"
| "CacheStore_Get (IsARC a) key = apsnd IsARC (ARC_Get a key)"

fun CacheStore_Add :: "CacheStore \<Rightarrow> string \<Rightarrow> Value \<Rightarrow> (CacheStore \<times> evictions) option" where
  "CacheStore_Add (IsCache c) key value = map_option (apfst IsCache) (Cache_Add c key value)"
| "CacheStore_Add (IsLFU f) key value = map_option (apfst IsLFU) (LFU_Add f key value)"
| "CacheStore_Add (IsARC a) key value = map_option (apfst IsARC) (ARC_Add a key value)"

fun CacheStore_Remove :: "CacheStore \<Rightarrow> string \<Rightarrow> bool \<times> CacheStore" where
  "CacheStore_Remove (IsCache c) key = apsnd IsCache (Cache_Remove c key)"
| "CacheStore_Remove (IsLFU f) key = apsnd IsLFU (LFU_Remove f key)"
| "CacheStore_Remove (IsARC a) key = apsnd IsARC (ARC_Remove a key)"

text \<open>The callbacks are not \<open>nil\<close>; what they do is modelled with the group.\<close>

definition buildCacheStores :: "string \<Rightarrow> int \<Rightarrow> int \<Rightarrow> CacheStore \<times> CacheStore option" where
  "buildCacheStores eviction cacheBytes hotBytes =
     (if eviction = ''lfu'' \<or> eviction = ''LFU'' then
        (IsLFU (NewLFU cacheBytes True),
         if hotBytes > 0 then Some (IsLFU (NewLFU hotBytes True)) else None)
      else if eviction = ''arc'' \<or> eviction = ''ARC'' then
        (IsARC (NewARC cacheBytes True),
         if hotBytes > 0 then Some (IsARC (NewARC hotBytes True)) else None)
      else
        (IsCache (Cache_New cacheBytes True),
         if hotBytes > 0 then Some (IsCache (Cache_New hotBytes True)) else None))"

section \<open>The contract\<close>

fun store_inv :: "CacheStore \<Rightarrow> bool" where
  "store_inv (IsCache c) = Cache_inv c"
| "store_inv (IsLFU f) = LFU_inv f"
| "store_inv (IsARC a) = ARC_inv a"

fun store_entries :: "CacheStore \<Rightarrow> string \<Rightarrow> Value option" where
  "store_entries (IsCache c) = Cache_entries c"
| "store_entries (IsLFU f) = LFU_entries f"
| "store_entries (IsARC a) = ARC_entries a"

fun store_admits :: "CacheStore \<Rightarrow> string \<Rightarrow> Value \<Rightarrow> bool" where
  "store_admits (IsCache c) = Cache_admits c"
| "store_admits (IsLFU f) = LFU_admits f"
| "store_admits (IsARC a) = ARC_admits a"

fun store_notifies :: "CacheStore \<Rightarrow> bool" where
  "store_notifies (IsCache c) = c_onEvicted c"
| "store_notifies (IsLFU f) = f_onEvicted f"
| "store_notifies (IsARC a) = a_onEvicted a"

interpretation store: cache_store CacheStore_Get CacheStore_Add CacheStore_Remove
  store_inv store_entries store_admits store_notifies
proof (unfold_locales, goal_cases)
  case (1 s k) then show ?case
    by (cases s) (simp_all add: lru.get_value lfu.get_value arc.get_value)
next
  case (2 s k) then show ?case
    by (cases s) (simp_all add: lru.get_entries lfu.get_entries arc.get_entries)
next
  case (3 s k) then show ?case
    by (cases s) (simp_all add: lru.get_invar lfu.get_invar arc.get_invar)
next
  case (4 s k) then show ?case
    by (cases s) (simp_all add: lru.remove_entries lfu.remove_entries arc.remove_entries)
next
  case (5 s k) then show ?case
    by (cases s) (simp_all add: lru.remove_found lfu.remove_found arc.remove_found)
next
  case (6 s k) then show ?case
    by (cases s) (simp_all add: lru.remove_invar lfu.remove_invar arc.remove_invar)
next
  case (7 s k v) then show ?case
    by (cases s) (simp_all add: lru.add_returns lfu.add_returns arc.add_returns)
next
  case (8 s k v s' ev) then show ?case
    by (cases s) (auto intro: lru.add_invar lfu.add_invar arc.add_invar)
next
  case (9 s k v s' ev) then show ?case
    by (cases s) (auto intro: lru.add_stored lfu.add_stored arc.add_stored)
next
  case (10 s k v s' ev j) then show ?case
    by (cases s) (auto dest: lru.add_others lfu.add_others arc.add_others)
next
  case (11 s k v s' ev j w) then show ?case
    by (cases s) (auto dest: lru.add_evicted [of _ k v _ ev j w] lfu.add_evicted [of _ k v _ ev j w]
        arc.add_evicted [of _ k v _ ev j w])
qed

lemma New_notifies:
  "c_onEvicted (Cache_New b cb) = cb" "f_onEvicted (NewLFU b cb) = cb" "a_onEvicted (NewARC b cb) = cb"
  by (simp_all add: Cache_New_def NewLFU_def NewARC_def Let_def)

definition fresh :: "CacheStore \<Rightarrow> bool" where
  "fresh s \<longleftrightarrow> store_inv s \<and> store_entries s = Map.empty \<and> store_notifies s"

lemma fresh_New:
  "0 \<le> b \<Longrightarrow> fresh (IsCache (Cache_New b True))" "0 \<le> b \<Longrightarrow> fresh (IsLFU (NewLFU b True))"
  "fresh (IsARC (NewARC b True))"
  by (simp_all add: fresh_def New_notifies Cache_New_inv Cache_New_entries NewLFU_inv NewLFU_entries
      NewARC_inv NewARC_entries)

lemma buildCacheStores_ok:
  assumes "0 \<le> cacheBytes"
  shows "fresh (fst (buildCacheStores eviction cacheBytes hotBytes))"
    and "snd (buildCacheStores eviction cacheBytes hotBytes) = None \<longleftrightarrow> hotBytes \<le> 0"
    and "snd (buildCacheStores eviction cacheBytes hotBytes) = Some c \<Longrightarrow> fresh c"
proof -
  let ?lfu = "eviction = ''lfu'' \<or> eviction = ''LFU''" and ?arc = "eviction = ''arc'' \<or> eviction = ''ARC''"
  note new = fresh_New(1,2) [OF assms] fresh_New(3)
  consider ?lfu | "\<not> ?lfu" ?arc | "\<not> ?lfu" "\<not> ?arc" by argo
  note cases = this
  show "fresh (fst (buildCacheStores eviction cacheBytes hotBytes))"
    by (cases rule: cases) (simp_all only: buildCacheStores_def if_True if_False new fst_conv)
  show "snd (buildCacheStores eviction cacheBytes hotBytes) = None \<longleftrightarrow> hotBytes \<le> 0"
    by (cases rule: cases; cases "hotBytes > 0")
      (simp_all only: buildCacheStores_def if_True if_False snd_conv, simp_all)
  show "fresh c" if "snd (buildCacheStores eviction cacheBytes hotBytes) = Some c"
    using that fresh_New [of hotBytes] by (cases rule: cases; cases "hotBytes > 0")
      (simp_all only: buildCacheStores_def if_True if_False snd_conv, auto)
qed

text \<open>A lookup that misses changes nothing.\<close>

lemma CacheStore_Get_miss:
  assumes "store_inv s" and "store_entries s k = None"
  shows "CacheStore_Get s k = (None, s)"
proof (cases s)
  case (IsCache c)
  with assms have wf: "Cache_wf c" and "map_of (recency c) k = None"
    by (simp_all add: Cache_inv_def Cache_entries_def)
  then have "c_cache c k = None" using Cache_keys [OF wf, of k] by (simp add: map_of_eq_None_iff)
  with IsCache show ?thesis by (simp add: Cache_Get_def)
next
  case (IsLFU f)
  with assms show ?thesis by (simp add: LFU_Get_def LFU_entries_def)
next
  case (IsARC a)
  with assms have wf: "ARC_wf a" and "k \<notin> T1 a" "k \<notin> T2 a"
    by (simp_all add: ARC_inv_def ARC_entries_None)
  then have "a_m1 a k = None" "a_m2 a k = None"
    by (simp_all add: part_None [OF ARC_wfD(1) [OF wf]] part_None [OF ARC_wfD(2) [OF wf]])
  with IsARC show ?thesis by (simp add: ARC_Get_def)
qed

section \<open>Properties\<close>

text \<open>
  C28: No policy ever serves a stale value. Whatever eviction policy is configured, after any
  sequence of lookups, removals and insertions that fit, the run has returned, the cache is
  well-formed, and a lookup that hits returns what an unbounded map would hold at that key; this
  holds of the main tier and of the hot one.
\<close>

theorem cache_never_stale:
  assumes "0 \<le> cacheBytes"
    and "c = fst (buildCacheStores eviction cacheBytes hotBytes) \<or>
      Some c = snd (buildCacheStores eviction cacheBytes hotBytes)"
    and "admitted CacheStore_Get CacheStore_Add CacheStore_Remove store_admits c xs"
  shows "\<exists>c'. run_ops CacheStore_Get CacheStore_Add CacheStore_Remove c xs = Some c' \<and> store_inv c' \<and>
    (\<forall>k v. fst (CacheStore_Get c' k) = Some v \<longrightarrow> ideal_run Map.empty xs k = Some v)"
proof -
  have "fresh c" using assms(2) buildCacheStores_ok(1,3) [OF assms(1)] by metis
  then have inv: "store_inv c" and e: "store_entries c = Map.empty" by (simp_all add: fresh_def)
  from store.run_lossy [OF inv assms(3)] obtain c' where
    c': "run_ops CacheStore_Get CacheStore_Add CacheStore_Remove c xs = Some c'" "store_inv c'" by blast
  with store.run_get_fresh [OF inv assms(3) c'(1)] show ?thesis by (auto simp: e)
qed

theorem cache_never_stale_witness:
  "\<exists>c'. run_ops CacheStore_Get CacheStore_Add CacheStore_Remove
      (fst (buildCacheStores ''arc'' 30 0)) ex_ops = Some c' \<and> store_inv c'"
proof -
  have adm: "admitted CacheStore_Get CacheStore_Add CacheStore_Remove store_admits
      (fst (buildCacheStores ''arc'' 30 0)) ex_ops" by code_simp
  have "(0::int) \<le> 30" by simp
  from cache_never_stale [OF this disjI1 [OF refl] adm] show ?thesis by blast
qed

end
