(* ===== verification/BoltStore.thy ===== *)
theory BoltStore
  imports GC_Prelude "HOL-Library.AList"
begin

text \<open>
  \<open>geecache/boltstore.go\<close>: the on-disk copy of the main tier. The database itself, \<open>bbolt\<close>, is
  not part of the repository: it is a parameter, a record of the calls the file makes, each a
  function on the state of the world \<open>'w\<close>. A bucket is named by the path of bucket names that
  leads to it. \<open>bbolt_ok\<close> collects what the documentation of \<open>bbolt\<close> promises of these
  calls, as hypotheses over a view \<open>D\<close> of the committed and pending contents; a database in
  memory shows they can be met.
\<close>

section \<open>The calls of bbolt\<close>

record 'w bbolt =
  bb_Open :: "string \<Rightarrow> 'w \<Rightarrow> error option \<times> 'w"
  bb_Close :: "'w \<Rightarrow> error option \<times> 'w"
  bb_Sync :: "'w \<Rightarrow> error option \<times> 'w"
  bb_Update :: "('w \<Rightarrow> error option \<times> 'w) \<Rightarrow> 'w \<Rightarrow> error option \<times> 'w"
  bb_ViewBegin :: "'w \<Rightarrow> error option"
  bb_CreateBucketIfNotExists :: "bytes list \<Rightarrow> 'w \<Rightarrow> error option \<times> 'w"
  bb_Bucket :: "bytes list \<Rightarrow> 'w \<Rightarrow> bool"
  bb_Put :: "bytes list \<Rightarrow> bytes \<Rightarrow> bytes \<Rightarrow> 'w \<Rightarrow> error option \<times> 'w"
  bb_Delete :: "bytes list \<Rightarrow> bytes \<Rightarrow> 'w \<Rightarrow> error option \<times> 'w"
  bb_pairs :: "bytes list \<Rightarrow> 'w \<Rightarrow> (bytes \<times> bytes) list"

type_synonym 'w disk = "'w \<Rightarrow> bytes list \<Rightarrow> (bytes \<Rightarrow> bytes option) option"

text \<open>
  \<open>Update\<close> commits when the function and the commit succeed, and otherwise leaves the contents
  alone; a bucket can be created in a bucket that exists; \<open>Put\<close> and \<open>Delete\<close> act on one key of
  one bucket; \<open>ForEach\<close> enumerates each key of a bucket once.
\<close>

definition bbolt_ok :: "'w bbolt \<Rightarrow> 'w disk \<Rightarrow> bool" where
  "bbolt_ok B D \<longleftrightarrow>
     (\<forall>fn w w1 w'. fn w = (None, w1) \<longrightarrow> bb_Update B fn w = (None, w') \<longrightarrow> D w' = D w1) \<and>
     (\<forall>fn w w' e. bb_Update B fn w = (Some e, w') \<longrightarrow> D w' = D w) \<and>
     (\<forall>fn w w1 e. fn w = (Some e, w1) \<longrightarrow> fst (bb_Update B fn w) = Some e) \<and>
     (\<forall>p w w'. bb_CreateBucketIfNotExists B p w = (None, w') \<longrightarrow>
        D w' = (if D w p = None then (D w)(p \<mapsto> Map.empty) else D w)) \<and>
     (\<forall>p k v m w w'. D w p = Some m \<longrightarrow> bb_Put B p k v w = (None, w') \<longrightarrow>
        D w' = (D w)(p \<mapsto> m(k \<mapsto> v))) \<and>
     (\<forall>p k m w w'. D w p = Some m \<longrightarrow> bb_Delete B p k w = (None, w') \<longrightarrow>
        D w' = (D w)(p \<mapsto> m(k := None))) \<and>
     (\<forall>p w. bb_Bucket B p w \<longleftrightarrow> D w p \<noteq> None) \<and>
     (\<forall>p m w. D w p = Some m \<longrightarrow> map_of (bb_pairs B p w) = m \<and> distinct (map fst (bb_pairs B p w)))"

section \<open>The store\<close>

text \<open>\<open>db\<close> is whether the pointer is set; a store is \<open>None\<close> when the \<open>*BoltStore\<close> is \<open>nil\<close>.\<close>

record BoltStore =
  bs_db :: bool

definition boltRootBucket :: bytes where
  "boltRootBucket = ''g''"

definition closed_store :: "BoltStore option \<Rightarrow> bool" where
  "closed_store s \<longleftrightarrow> (case s of None \<Rightarrow> True | Some b \<Rightarrow> \<not> bs_db b)"

definition OpenBoltStore :: "'w bbolt \<Rightarrow> string \<Rightarrow> 'w \<Rightarrow> (error + BoltStore) \<times> 'w" where
  "OpenBoltStore B path w =
     (case bb_Open B path w of
        (Some err, w1) \<Rightarrow> (Inl (Wrapf (''bolt open '' @ path) err), w1)
      | (None, w1) \<Rightarrow>
          (case bb_Update B (bb_CreateBucketIfNotExists B [boltRootBucket]) w1 of
             (Some err, w2) \<Rightarrow> (Inl (Wrapf ''bolt init bucket'' err), snd (bb_Close B w2))
           | (None, w2) \<Rightarrow> (Inr \<lparr>bs_db = True\<rparr>, w2)))"

definition BoltStore_Put ::
  "'w bbolt \<Rightarrow> BoltStore option \<Rightarrow> string \<Rightarrow> string \<Rightarrow> bytes \<Rightarrow> 'w \<Rightarrow> error option \<times> 'w" where
  "BoltStore_Put B s grp key val w =
     (if closed_store s then (None, w)
      else
        bb_Update B
          (\<lambda>w. case bb_CreateBucketIfNotExists B [boltRootBucket] w of
                  (Some err, w1) \<Rightarrow> (Some err, w1)
                | (None, w1) \<Rightarrow>
                    (case bb_CreateBucketIfNotExists B [boltRootBucket, grp] w1 of
                       (Some err, w2) \<Rightarrow> (Some err, w2)
                     | (None, w2) \<Rightarrow> bb_Put B [boltRootBucket, grp] key val w2)) w)"

definition BoltStore_Delete ::
  "'w bbolt \<Rightarrow> BoltStore option \<Rightarrow> string \<Rightarrow> string \<Rightarrow> 'w \<Rightarrow> error option \<times> 'w" where
  "BoltStore_Delete B s grp key w =
     (if closed_store s then (None, w)
      else
        bb_Update B
          (\<lambda>w. if \<not> bb_Bucket B [boltRootBucket] w then (None, w)
               else if \<not> bb_Bucket B [boltRootBucket, grp] w then (None, w)
               else bb_Delete B [boltRootBucket, grp] key w) w)"

text \<open>
  \<open>Bucket.ForEach\<close> with the copying callback of \<open>LoadGroup\<close>: it stops at the first error. The
  callback \<open>fn\<close> acts on a state of its caller's and may itself fail to return.
\<close>

fun ForEach ::
  "(string \<Rightarrow> bytes \<Rightarrow> 's \<Rightarrow> (error option \<times> 's) outcome) \<Rightarrow> (bytes \<times> bytes) list \<Rightarrow> 's \<Rightarrow>
   (error option \<times> 's) outcome" where
  "ForEach fn [] st = Done (None, st)"
| "ForEach fn ((k, v) # ps) st =
     obind (fn k ([] @ v) st)
       (\<lambda>(e, st'). case e of Some err \<Rightarrow> Done (Some err, st') | None \<Rightarrow> ForEach fn ps st')"

text \<open>The read transaction sees the contents as they were when it began.\<close>

definition LoadGroup ::
  "'w bbolt \<Rightarrow> BoltStore option \<Rightarrow> string \<Rightarrow>
   (string \<Rightarrow> bytes \<Rightarrow> 's \<Rightarrow> (error option \<times> 's) outcome) \<Rightarrow> 'w \<Rightarrow> 's \<Rightarrow>
   (error option \<times> 's) outcome" where
  "LoadGroup B s grp fn w st =
     (if closed_store s then Done (None, st)
      else
        (case bb_ViewBegin B w of
           Some err \<Rightarrow> Done (Some err, st)
         | None \<Rightarrow>
             if \<not> bb_Bucket B [boltRootBucket] w then Done (None, st)
             else if \<not> bb_Bucket B [boltRootBucket, grp] w then Done (None, st)
             else ForEach fn (bb_pairs B [boltRootBucket, grp] w) st))"

definition BoltStore_Sync :: "'w bbolt \<Rightarrow> BoltStore option \<Rightarrow> 'w \<Rightarrow> error option \<times> 'w" where
  "BoltStore_Sync B s w = (if closed_store s then (None, w) else bb_Sync B w)"

definition BoltStore_Close ::
  "'w bbolt \<Rightarrow> BoltStore option \<Rightarrow> 'w \<Rightarrow> error option \<times> BoltStore option \<times> 'w" where
  "BoltStore_Close B s w =
     (if closed_store s then (None, s, w)
      else (case bb_Close B w of (err, w1) \<Rightarrow> (err, map_option (bs_db_update (\<lambda>_. False)) s, w1)))"

section \<open>The store as a map from groups and keys to bytes\<close>

definition stored :: "'w disk \<Rightarrow> 'w \<Rightarrow> string \<Rightarrow> string \<Rightarrow> bytes option" where
  "stored D w grp key = Option.bind (D w [boltRootBucket, grp]) (\<lambda>m. m key)"

lemma bbolt_okD:
  assumes "bbolt_ok B D"
  shows "fn w = (None, w1) \<Longrightarrow> bb_Update B fn w = (None, w') \<Longrightarrow> D w' = D w1"
    "bb_Update B fn w = (Some e, w') \<Longrightarrow> D w' = D w"
    "fn w = (Some e, w1) \<Longrightarrow> fst (bb_Update B fn w) = Some e"
    "bb_CreateBucketIfNotExists B p w = (None, w') \<Longrightarrow>
      D w' = (if D w p = None then (D w)(p \<mapsto> Map.empty) else D w)"
    "D w p = Some m \<Longrightarrow> bb_Put B p k v w = (None, w') \<Longrightarrow> D w' = (D w)(p \<mapsto> m(k \<mapsto> v))"
    "D w p = Some m \<Longrightarrow> bb_Delete B p k w = (None, w') \<Longrightarrow> D w' = (D w)(p \<mapsto> m(k := None))"
    "bb_Bucket B p w \<longleftrightarrow> D w p \<noteq> None"
    "D w p = Some m \<Longrightarrow> map_of (bb_pairs B p w) = m"
    "D w p = Some m \<Longrightarrow> distinct (map fst (bb_pairs B p w))"
proof -
  note all = assms [unfolded bbolt_ok_def]
  note c1 = conjunct1 [OF all] and r1 = conjunct2 [OF all]
  note c2 = conjunct1 [OF r1] and r2 = conjunct2 [OF r1]
  note c3 = conjunct1 [OF r2] and r3 = conjunct2 [OF r2]
  note c4 = conjunct1 [OF r3] and r4 = conjunct2 [OF r3]
  note c5 = conjunct1 [OF r4] and r5 = conjunct2 [OF r4]
  note c6 = conjunct1 [OF r5] and r6 = conjunct2 [OF r5]
  note c7 = conjunct1 [OF r6] and c8 = conjunct2 [OF r6]
  show "fn w = (None, w1) \<Longrightarrow> bb_Update B fn w = (None, w') \<Longrightarrow> D w' = D w1" by (rule c1 [rule_format])
  show "bb_Update B fn w = (Some e, w') \<Longrightarrow> D w' = D w" by (rule c2 [rule_format])
  show "fn w = (Some e, w1) \<Longrightarrow> fst (bb_Update B fn w) = Some e" by (rule c3 [rule_format])
  show "bb_CreateBucketIfNotExists B p w = (None, w') \<Longrightarrow>
      D w' = (if D w p = None then (D w)(p \<mapsto> Map.empty) else D w)" by (rule c4 [rule_format])
  show "D w p = Some m \<Longrightarrow> bb_Put B p k v w = (None, w') \<Longrightarrow> D w' = (D w)(p \<mapsto> m(k \<mapsto> v))"
    by (rule c5 [rule_format])
  show "D w p = Some m \<Longrightarrow> bb_Delete B p k w = (None, w') \<Longrightarrow> D w' = (D w)(p \<mapsto> m(k := None))"
    by (rule c6 [rule_format])
  show "bb_Bucket B p w \<longleftrightarrow> D w p \<noteq> None" using c7 by blast
  show "D w p = Some m \<Longrightarrow> map_of (bb_pairs B p w) = m"
    "D w p = Some m \<Longrightarrow> distinct (map fst (bb_pairs B p w))"
    using c8 by blast+
qed

text \<open>An update that reports success ran its function to the end.\<close>

lemma Update_ok:
  assumes "bbolt_ok B D" and "bb_Update B fn w = (None, w')"
  obtains w1 where "fn w = (None, w1)" and "D w' = D w1"
proof (cases "fn w")
  case (Pair e w1)
  with bbolt_okD(3) [OF assms(1), of fn w _ w1] assms(2) have "e = None" by (cases e) auto
  with Pair bbolt_okD(1) [OF assms(1)] assms(2) that show thesis by blast
qed

lemma BoltStore_Put_ok:
  assumes "bbolt_ok B D" and "\<not> closed_store s"
    and "BoltStore_Put B s grp key val w = (None, w')"
  shows "stored D w' = (stored D w)(grp := (stored D w grp)(key \<mapsto> val))"
    and "D w' [boltRootBucket] \<noteq> None"
proof -
  have "bb_Update B
      (\<lambda>w. case bb_CreateBucketIfNotExists B [boltRootBucket] w of
              (Some err, w1) \<Rightarrow> (Some err, w1)
            | (None, w1) \<Rightarrow>
                (case bb_CreateBucketIfNotExists B [boltRootBucket, grp] w1 of
                   (Some err, w2) \<Rightarrow> (Some err, w2)
                 | (None, w2) \<Rightarrow> bb_Put B [boltRootBucket, grp] key val w2)) w = (None, w')"
    using assms(2,3) by (simp add: BoltStore_Put_def)
  from Update_ok [OF assms(1) this] obtain w3 where
    run: "(case bb_CreateBucketIfNotExists B [boltRootBucket] w of
            (Some err, w1) \<Rightarrow> (Some err, w1)
          | (None, w1) \<Rightarrow>
              (case bb_CreateBucketIfNotExists B [boltRootBucket, grp] w1 of
                 (Some err, w2) \<Rightarrow> (Some err, w2)
               | (None, w2) \<Rightarrow> bb_Put B [boltRootBucket, grp] key val w2)) = (None, w3)"
    and D3: "D w' = D w3" by blast
  from run obtain w1 w2 where
    w1: "bb_CreateBucketIfNotExists B [boltRootBucket] w = (None, w1)"
    and w2: "bb_CreateBucketIfNotExists B [boltRootBucket, grp] w1 = (None, w2)"
    and w3: "bb_Put B [boltRootBucket, grp] key val w2 = (None, w3)"
    by (auto split: prod.splits option.splits)
  note c1 = bbolt_okD(4) [OF assms(1) w1] and c2 = bbolt_okD(4) [OF assms(1) w2]
  obtain m where m: "D w2 [boltRootBucket, grp] = Some m" using c2 by (auto split: if_splits)
  note c3 = bbolt_okD(5) [OF assms(1) m w3]
  have m_eq: "m = (case D w [boltRootBucket, grp] of None \<Rightarrow> Map.empty | Some m \<Rightarrow> m)"
    using m c1 c2 by (auto split: if_splits option.splits)
  have same: "D w' p = D w p" if "p \<noteq> [boltRootBucket]" "p \<noteq> [boltRootBucket, grp]" for p
    using that c1 c2 c3 D3 by simp
  show "D w' [boltRootBucket] \<noteq> None" using c1 c2 c3 D3 by (auto split: if_splits)
  show "stored D w' = (stored D w)(grp := (stored D w grp)(key \<mapsto> val))"
  proof (intro ext)
    fix g k
    show "stored D w' g k = ((stored D w)(grp := (stored D w grp)(key \<mapsto> val))) g k"
      using same [of "[boltRootBucket, g]"] c3 D3 m_eq
      by (cases "g = grp") (auto simp: stored_def split: option.splits)
  qed
qed

lemma BoltStore_Delete_ok:
  assumes "bbolt_ok B D" and "\<not> closed_store s" and "D w [boltRootBucket] \<noteq> None"
    and "BoltStore_Delete B s grp key w = (None, w')"
  shows "stored D w' = (stored D w)(grp := (stored D w grp)(key := None)) \<and>
    D w' [boltRootBucket] \<noteq> None"
proof -
  have "bb_Update B
      (\<lambda>w. if \<not> bb_Bucket B [boltRootBucket] w then (None, w)
           else if \<not> bb_Bucket B [boltRootBucket, grp] w then (None, w)
           else bb_Delete B [boltRootBucket, grp] key w) w = (None, w')"
    using assms(2,4) by (simp add: BoltStore_Delete_def)
  from Update_ok [OF assms(1) this] obtain w1 where
    run: "(if \<not> bb_Bucket B [boltRootBucket] w then (None, w)
           else if \<not> bb_Bucket B [boltRootBucket, grp] w then (None, w)
           else bb_Delete B [boltRootBucket, grp] key w) = (None, w1)" and D1: "D w' = D w1" by blast
  show ?thesis
  proof (cases "D w [boltRootBucket, grp]")
    case None
    with run assms(3) have "w1 = w" by (simp add: bbolt_okD(7) [OF assms(1)])
    with D1 None assms(3) show ?thesis by (auto simp: stored_def fun_eq_iff)
  next
    case (Some m)
    with run assms(3) have "bb_Delete B [boltRootBucket, grp] key w = (None, w1)"
      by (simp add: bbolt_okD(7) [OF assms(1)])
    from bbolt_okD(6) [OF assms(1) Some this] D1 Some assms(3) show ?thesis
      by (auto simp: stored_def fun_eq_iff)
  qed
qed

text \<open>Collecting what \<open>LoadGroup\<close> hands to its callback.\<close>

definition collect :: "string \<Rightarrow> bytes \<Rightarrow> (string \<times> bytes) list \<Rightarrow> (error option \<times> (string \<times> bytes) list) outcome"
  where "collect k v acc = Done (None, acc @ [(k, v)])"

lemma ForEach_collect: "ForEach collect ps acc = Done (None, acc @ ps)"
  by (induction ps arbitrary: acc) (auto simp: collect_def)

lemma LoadGroup_collect:
  assumes "bbolt_ok B D" and "\<not> closed_store s" and "bb_ViewBegin B w = None"
    and "D w [boltRootBucket] \<noteq> None"
  shows "\<exists>ps. LoadGroup B s grp collect w [] = Done (None, ps) \<and> map_of ps = stored D w grp \<and>
    distinct (map fst ps)"
proof (cases "D w [boltRootBucket, grp]")
  case None
  then show ?thesis using assms
    by (simp add: LoadGroup_def bbolt_okD(7) [OF assms(1)] stored_def fun_eq_iff)
next
  case (Some m)
  with bbolt_okD(8,9) [OF assms(1) Some] assms show ?thesis
    by (simp add: LoadGroup_def bbolt_okD(7) [OF assms(1)] stored_def ForEach_collect fun_eq_iff)
qed

text \<open>An error, from the function or from the commit, leaves the contents alone.\<close>

lemma BoltStore_error:
  assumes "bbolt_ok B D"
  shows "BoltStore_Put B s grp key val w = (Some e, w') \<Longrightarrow> D w' = D w"
    and "BoltStore_Delete B s grp key w = (Some e, w') \<Longrightarrow> D w' = D w"
  using bbolt_okD(2) [OF assms]
  by (auto simp: BoltStore_Put_def BoltStore_Delete_def split: if_splits)

text \<open>Opening creates the root bucket that \<open>Delete\<close> and \<open>LoadGroup\<close> look for.\<close>

lemma OpenBoltStore_root:
  assumes "bbolt_ok B D" and "OpenBoltStore B path w = (Inr s, w')"
  shows "bs_db s \<and> D w' [boltRootBucket] \<noteq> None"
proof -
  from assms(2) obtain w1 where
    u: "bb_Update B (bb_CreateBucketIfNotExists B [boltRootBucket]) w1 = (None, w')" and s: "bs_db s"
    by (auto simp: OpenBoltStore_def split: prod.splits option.splits)
  from Update_ok [OF assms(1) u] obtain w2 where
    "bb_CreateBucketIfNotExists B [boltRootBucket] w1 = (None, w2)" "D w' = D w2" by blast
  with bbolt_okD(4) [OF assms(1)] s show ?thesis by (metis fun_upd_same option.distinct(1))
qed

section \<open>A database in memory\<close>

type_synonym mem_world = "(bytes list \<times> (bytes \<times> bytes) list) list"

definition mem_disk :: "(mem_world \<times> 'x) disk" where
  "mem_disk w p = map_option map_of (map_of (fst w) p)"

text \<open>The world is the buckets and anything else.\<close>

definition mem_bbolt :: "(mem_world \<times> 'x) bbolt" where
  "mem_bbolt =
     \<lparr>bb_Open = (\<lambda>_ w. (None, w)), bb_Close = (\<lambda>w. (None, w)), bb_Sync = (\<lambda>w. (None, w)),
      bb_Update = (\<lambda>fn w. case fn w of (None, w1) \<Rightarrow> (None, w1) | (Some e, _) \<Rightarrow> (Some e, w)),
      bb_ViewBegin = (\<lambda>_. None),
      bb_CreateBucketIfNotExists =
        (\<lambda>p (w, x). if last p = [] then (Some (Errorf ''bucket name required''), w, x)
                    else (None, if map_of w p = None then (p, []) # w else w, x)),
      bb_Bucket = (\<lambda>p w. map_of (fst w) p \<noteq> None),
      bb_Put =
        (\<lambda>p k v (w, x). case map_of w p of
                          None \<Rightarrow> (Some (Errorf ''bucket not found''), w, x)
                        | Some m \<Rightarrow> if k = [] then (Some (Errorf ''key required''), w, x)
                                    else (None, (p, (k, v) # m) # w, x)),
      bb_Delete =
        (\<lambda>p k (w, x). case map_of w p of
                        None \<Rightarrow> (Some (Errorf ''bucket not found''), w, x)
                      | Some m \<Rightarrow> (None, (p, AList.delete k m) # w, x)),
      bb_pairs = (\<lambda>p w. case map_of (fst w) p of None \<Rightarrow> [] | Some m \<Rightarrow> AList.clearjunk m)\<rparr>"

lemma mem_bbolt_ok: "bbolt_ok mem_bbolt mem_disk"
  unfolding bbolt_ok_def
  by (intro conjI; auto simp: mem_bbolt_def mem_disk_def AList.delete_conv' map_of_clearjunk
      distinct_clearjunk split: prod.splits option.splits if_splits)

section \<open>Properties\<close>

text \<open>
  C27: The store is a map on disk: when \<open>Put\<close> reports success, \<open>LoadGroup\<close> enumerates what the
  group held before with the key set to the new bytes, each key once, and other groups are as
  they were; when \<open>Delete\<close> does, the same without the key; when either reports an error, nothing
  has changed.
\<close>

theorem bolt_put_delete_load:
  assumes "bbolt_ok B D" and "\<not> closed_store s" and "D w [boltRootBucket] \<noteq> None"
    and "\<And>w. bb_ViewBegin B w = None"
    and "BoltStore_Put B s grp key val w = (e, w1)" and "BoltStore_Delete B s grp key w = (e', w2)"
  shows "(e = None \<longrightarrow> (\<exists>ps. LoadGroup B s grp collect w1 [] = Done (None, ps) \<and>
       distinct (map fst ps) \<and> map_of ps = (stored D w grp)(key \<mapsto> val)) \<and>
       (\<forall>h. h \<noteq> grp \<longrightarrow> stored D w1 h = stored D w h)) \<and>
    (e' = None \<longrightarrow> (\<exists>ps. LoadGroup B s grp collect w2 [] = Done (None, ps) \<and>
       distinct (map fst ps) \<and> map_of ps = (stored D w grp)(key := None)) \<and>
       (\<forall>h. h \<noteq> grp \<longrightarrow> stored D w2 h = stored D w h)) \<and>
    (e \<noteq> None \<longrightarrow> stored D w1 = stored D w) \<and> (e' \<noteq> None \<longrightarrow> stored D w2 = stored D w)"
proof -
  note put = BoltStore_Put_ok [OF assms(1,2)] and del = BoltStore_Delete_ok [OF assms(1-3)]
  note load = LoadGroup_collect [OF assms(1,2) assms(4)]
  have "\<exists>ps. LoadGroup B s grp collect w1 [] = Done (None, ps) \<and> distinct (map fst ps) \<and>
      map_of ps = (stored D w grp)(key \<mapsto> val)" "\<forall>h. h \<noteq> grp \<longrightarrow> stored D w1 h = stored D w h"
    if "e = None"
    using put [of grp key val w w1] load [of w1 grp] assms(5) that by auto
  moreover have "\<exists>ps. LoadGroup B s grp collect w2 [] = Done (None, ps) \<and> distinct (map fst ps) \<and>
      map_of ps = (stored D w grp)(key := None)" "\<forall>h. h \<noteq> grp \<longrightarrow> stored D w2 h = stored D w h"
    if "e' = None"
    using del [of grp key w2] load [of w2 grp] assms(6) that by auto
  moreover have "stored D w1 = stored D w" if "e \<noteq> None"
    using BoltStore_error(1) [OF assms(1)] assms(5) that by (fastforce simp: stored_def fun_eq_iff)
  moreover have "stored D w2 = stored D w" if "e' \<noteq> None"
    using BoltStore_error(2) [OF assms(1)] assms(6) that by (fastforce simp: stored_def fun_eq_iff)
  ultimately show ?thesis by blast
qed

definition bolt_example :: "mem_world \<times> unit" where
  "bolt_example = ([([''g''], []), ([''g'', ''scores''], [(''Tom'', ''630'')])], ())"

theorem bolt_put_delete_load_witness:
  "\<exists>w1 ps. BoltStore_Put mem_bbolt (Some \<lparr>bs_db = True\<rparr>) ''scores'' ''Sam'' ''567'' bolt_example = (None, w1) \<and>
     LoadGroup mem_bbolt (Some \<lparr>bs_db = True\<rparr>) ''scores'' collect w1 [] = Done (None, ps) \<and>
     map_of ps = [''Tom'' \<mapsto> ''630'', ''Sam'' \<mapsto> ''567'']"
proof -
  let ?s = "Some \<lparr>bs_db = True\<rparr>"
  obtain e w1 e' w2 where p: "BoltStore_Put mem_bbolt ?s ''scores'' ''Sam'' ''567'' bolt_example = (e, w1)"
    and d: "BoltStore_Delete mem_bbolt ?s ''scores'' ''Sam'' bolt_example = (e', w2)" by (meson surj_pair)
  have "fst (BoltStore_Put mem_bbolt ?s ''scores'' ''Sam'' ''567'' bolt_example) = None" by code_simp
  then have e: "e = None" using p by simp
  have c: "\<not> closed_store ?s" by (simp add: closed_store_def)
  have r: "mem_disk bolt_example [boltRootBucket] \<noteq> None"
    by (simp add: mem_disk_def bolt_example_def boltRootBucket_def)
  have v: "\<And>w. bb_ViewBegin mem_bbolt w = None" by (simp add: mem_bbolt_def)
  have "stored mem_disk bolt_example ''scores'' = [''Tom'' \<mapsto> ''630'']"
    by (simp add: stored_def mem_disk_def bolt_example_def boltRootBucket_def fun_eq_iff)
  with bolt_put_delete_load [OF mem_bbolt_ok c r v p d] e p show ?thesis by auto
qed

end
