(* ===== verification/Group.thy ===== *)
theory Group
  imports Complex_Main Stores BoltStore
begin

text \<open>
  \<open>geecache/group.go\<close>: a cache namespace with a main and a hot tier, a negative cache, a bloom
  filter of misses, an optional copy on disk and optional peers. The record has the fields of
  the struct that change or configure it; \<open>getter\<close>, \<open>peers\<close> and what is outside the
  repository (the clock, \<open>math/rand\<close>, the bloom filter, \<open>bbolt\<close>) are fields of the parameter
  \<open>ext\<close>, functions on the state of the world \<open>'w\<close>. The metrics of \<open>metrics/metrics.go\<close> are
  counters in the record.

  The functions are those of one goroutine at a time; \<open>load\<close> runs the body it passes to
  \<open>singleFlight.Do\<close> (see \<open>SingleFlight\<close> for the interleavings). The eviction callbacks
  run, in order, when \<open>Add\<close> has returned: they touch the metrics and the disk, which \<open>Add\<close>
  does not read.
\<close>

section \<open>Metrics and the outside\<close>

datatype metric =
    CacheHits | Loads | LoadErrors | PeerRequestDuration | CacheEvictions | CacheExpired
  | NegativeCacheHits | BloomMissBlocks | PenetrationMissRecorded

record 'w PeerWriter =
  pw_IsOwner :: "string \<Rightarrow> 'w \<Rightarrow> bool"
  pw_ForwardSet :: "string \<Rightarrow> string \<Rightarrow> bytes \<Rightarrow> 'w \<Rightarrow> error option \<times> 'w"
  pw_ForwardPurge :: "string \<Rightarrow> string \<Rightarrow> 'w \<Rightarrow> error option \<times> 'w"
  pw_BroadcastInvalidate :: "string \<Rightarrow> string \<Rightarrow> 'w \<Rightarrow> error option \<times> 'w"

text \<open>
  A peer is named by its address; calling a peer may panic (a \<open>nil\<close> client); \<open>pp_writer\<close> is the
  result of the type assertion.
\<close>

record 'w PeerPicker =
  pp_PickPeer :: "string \<Rightarrow> 'w \<Rightarrow> string"
  pp_Proto :: "string \<Rightarrow> string"
  pp_Get :: "string \<Rightarrow> string \<Rightarrow> string \<Rightarrow> 'w \<Rightarrow> ((error + bytes) \<times> 'w) outcome"
  pp_writer :: "'w PeerWriter option"

record ('w, 'b) ext =
  x_now :: "'w \<Rightarrow> time \<times> 'w"
  x_Int63n :: "int \<Rightarrow> 'w \<Rightarrow> int \<times> 'w"
  x_getter :: "string \<Rightarrow> 'w \<Rightarrow> (error + bytes) \<times> 'w"
  x_peers :: "'w PeerPicker option"
  x_bolt :: "'w bbolt"
  x_bloomNew :: "int \<Rightarrow> rat \<Rightarrow> 'b"
  x_bloomTest :: "'b \<Rightarrow> string \<Rightarrow> bool"
  x_bloomAdd :: "'b \<Rightarrow> string \<Rightarrow> 'b"

record 'b Group =
  g_name :: string
  g_mainCache :: "CacheStore option"
  g_hotCache :: "CacheStore option"
  g_ttl :: duration
  g_ttlJitter :: duration
  g_negTTL :: duration
  g_negUntil :: "string \<Rightarrow> time option"
  g_missBloom :: "'b option"
  g_missBloomStart :: time
  g_bloomN :: int
  g_bloomFP :: rat
  g_bloomRotate :: duration
  g_persist :: "BoltStore option"
  g_metrics :: "metric \<Rightarrow> string list \<Rightarrow> nat"

definition inc :: "metric \<Rightarrow> string list \<Rightarrow> 'b Group \<Rightarrow> 'b Group" where
  "inc m ls g = g\<lparr>g_metrics := (g_metrics g)(m := (g_metrics g m)(ls := Suc (g_metrics g m ls)))\<rparr>"

text \<open>The type assertion \<open>g.peers.(PeerWriter)\<close>; it fails on a \<open>nil\<close> interface.\<close>

definition peerWriter :: "('w, 'b) ext \<Rightarrow> 'w PeerWriter option" where
  "peerWriter E = Option.bind (x_peers E) pp_writer"

section \<open>Tiers\<close>

datatype tier = Main | Hot

fun tier_cache :: "tier \<Rightarrow> 'b Group \<Rightarrow> CacheStore option" where
  "tier_cache Main g = g_mainCache g"
| "tier_cache Hot g = g_hotCache g"

fun set_tier :: "tier \<Rightarrow> CacheStore \<Rightarrow> 'b Group \<Rightarrow> 'b Group" where
  "set_tier Main c g = g\<lparr>g_mainCache := Some c\<rparr>"
| "set_tier Hot c g = g\<lparr>g_hotCache := Some c\<rparr>"

fun valueToPersistBytes :: "Value \<Rightarrow> bytes" where
  "valueToPersistBytes (VView t) = ByteSlice t"
| "valueToPersistBytes (VTtl t) = ByteSlice (view t)"

definition persistPutView ::
  "('w, 'b) ext \<Rightarrow> string \<Rightarrow> ByteView \<Rightarrow> 'b Group \<times> 'w \<Rightarrow> 'b Group \<times> 'w" where
  "persistPutView E key v = (\<lambda>(g, w).
     (g, if g_persist g = None then w
         else snd (BoltStore_Put (x_bolt E) (g_persist g) (g_name g) key (ByteSlice v) w)))"

definition persistDeleteKey ::
  "('w, 'b) ext \<Rightarrow> string \<Rightarrow> 'b Group \<times> 'w \<Rightarrow> 'b Group \<times> 'w" where
  "persistDeleteKey E key = (\<lambda>(g, w).
     (g, if g_persist g = None then w
         else snd (BoltStore_Delete (x_bolt E) (g_persist g) (g_name g) key w)))"

text \<open>The callbacks \<open>onMain\<close> and \<open>onHot\<close> that \<open>NewGroup\<close> installs.\<close>

definition onMain ::
  "('w, 'b) ext \<Rightarrow> string \<times> Value \<Rightarrow> 'b Group \<times> 'w \<Rightarrow> 'b Group \<times> 'w" where
  "onMain E kv = (\<lambda>(g, w).
     (inc CacheEvictions [g_name g, ''main''] g,
      if g_persist g \<noteq> None \<and> len (valueToPersistBytes (snd kv)) > 0
      then snd (BoltStore_Put (x_bolt E) (g_persist g) (g_name g) (fst kv)
                 (valueToPersistBytes (snd kv)) w)
      else w))"

definition onHot :: "string \<times> Value \<Rightarrow> 'b Group \<times> 'w \<Rightarrow> 'b Group \<times> 'w" where
  "onHot kv = (\<lambda>(g, w). (inc CacheEvictions [g_name g, ''hot''] g, w))"

fun onEvicted ::
  "('w, 'b) ext \<Rightarrow> tier \<Rightarrow> string \<times> Value \<Rightarrow> 'b Group \<times> 'w \<Rightarrow> 'b Group \<times> 'w" where
  "onEvicted E Main = onMain E"
| "onEvicted E Hot = onHot"

text \<open>\<open>c.Add(key, v)\<close> and \<open>c.Remove(key)\<close> on a tier.\<close>

definition tier_Add ::
  "('w, 'b) ext \<Rightarrow> tier \<Rightarrow> CacheStore \<Rightarrow> string \<Rightarrow> Value \<Rightarrow> 'b Group \<times> 'w \<Rightarrow>
   ('b Group \<times> 'w) outcome" where
  "tier_Add E t c key v = (\<lambda>(g, w).
     case CacheStore_Add c key v of
       None \<Rightarrow> Diverges
     | Some (c', ev) \<Rightarrow> Done (fold (onEvicted E t) ev (set_tier t c' g, w)))"

definition tier_Remove :: "tier \<Rightarrow> string \<Rightarrow> 'b Group \<Rightarrow> 'b Group" where
  "tier_Remove t key g =
     (case tier_cache t g of
        None \<Rightarrow> g
      | Some c \<Rightarrow> set_tier t (snd (CacheStore_Remove c key)) g)"

text \<open>
  Durations are 64-bit; \<open>rand.Int63n\<close> panics when its argument is not positive.
\<close>

definition wrap64 :: "int \<Rightarrow> int" where
  "wrap64 x = (x + 2 ^ 63) mod 2 ^ 64 - 2 ^ 63"

definition cacheTTLWithJitter ::
  "('w, 'b) ext \<Rightarrow> 'b Group \<Rightarrow> 'w \<Rightarrow> (duration \<times> 'w) outcome" where
  "cacheTTLWithJitter E g w =
     (if g_ttl g \<le> 0 then Done (0, w)
      else if g_ttlJitter g \<le> 0 then Done (g_ttl g, w)
      else
        (let n = wrap64 (g_ttlJitter g + 1) in
         if n \<le> 0 then Panics ''invalid argument to Int63n''
         else (case x_Int63n E n w of (r, w1) \<Rightarrow> Done (wrap64 (g_ttl g + r), w1))))"

definition peekTier ::
  "('w, 'b) ext \<Rightarrow> tier \<Rightarrow> string \<Rightarrow> 'b Group \<times> 'w \<Rightarrow>
   (ByteView option \<times> 'b Group \<times> 'w) outcome" where
  "peekTier E t key = (\<lambda>(g, w).
     case tier_cache t g of
       None \<Rightarrow> Done (None, g, w)
     | Some c \<Rightarrow>
         (case CacheStore_Get c key of
            (None, c1) \<Rightarrow> Done (None, set_tier t c1 g, w)
          | (Some vi, c1) \<Rightarrow>
              if g_ttl g \<le> 0 then
                (case vi of
                   VView v \<Rightarrow> Done (Some v, set_tier t c1 g, w)
                 | VTtl _ \<Rightarrow> Panics ''interface conversion: ttlEntry, not ByteView'')
              else
                (case vi of
                   VView _ \<Rightarrow> Panics ''interface conversion: ByteView, not ttlEntry''
                 | VTtl e \<Rightarrow>
                     (case x_now E w of
                        (now, w1) \<Rightarrow>
                          if now > until e then
                            (case persistDeleteKey E key (tier_Remove t key (set_tier t c1 g), w1) of
                               (g2, w2) \<Rightarrow> Done (None, inc CacheExpired [g_name g2] g2, w2))
                          else Done (Some (view e), set_tier t c1 g, w1)))))"

definition putTier ::
  "('w, 'b) ext \<Rightarrow> tier \<Rightarrow> string \<Rightarrow> ByteView \<Rightarrow> 'b Group \<times> 'w \<Rightarrow> ('b Group \<times> 'w) outcome" where
  "putTier E t key v = (\<lambda>(g, w).
     case tier_cache t g of
       None \<Rightarrow> Done (g, w)
     | Some c \<Rightarrow>
         if g_ttl g > 0 then
           (case x_now E w of
              (now, w1) \<Rightarrow>
                obind (cacheTTLWithJitter E g w1)
                  (\<lambda>(d, w2). tier_Add E t c key (VTtl \<lparr>view = v, until = now + d\<rparr>) (g, w2)))
         else tier_Add E t c key (VView v) (g, w))"

section \<open>The negative cache and the bloom filter\<close>

definition peekNegative ::
  "('w, 'b) ext \<Rightarrow> string \<Rightarrow> 'b Group \<times> 'w \<Rightarrow> bool \<times> 'b Group \<times> 'w" where
  "peekNegative E key = (\<lambda>(g, w).
     if g_negTTL g \<le> 0 then (False, g, w)
     else
       (case x_now E w of
          (now, w1) \<Rightarrow>
            (case g_negUntil g key of
               None \<Rightarrow> (False, g, w1)
             | Some u \<Rightarrow>
                 if now > u then (False, g\<lparr>g_negUntil := (g_negUntil g)(key := None)\<rparr>, w1)
                 else (True, g, w1))))"

definition recordNotFound ::
  "('w, 'b) ext \<Rightarrow> string \<Rightarrow> 'b Group \<times> 'w \<Rightarrow> 'b Group \<times> 'w" where
  "recordNotFound E key = (\<lambda>(g, w).
     let g1 = inc PenetrationMissRecorded [g_name g] g;
         (g2, w2) =
           (if g_negTTL g1 > 0 then
              (case x_now E w of
                 (now, w1) \<Rightarrow> (g1\<lparr>g_negUntil := (g_negUntil g1)(key \<mapsto> now + g_negTTL g1)\<rparr>, w1))
            else (g1, w))
     in (case g_missBloom g2 of
           None \<Rightarrow> g2
         | Some b \<Rightarrow> g2\<lparr>g_missBloom := Some (x_bloomAdd E b key)\<rparr>, w2))"

definition maybeRotateMissBloom :: "('w, 'b) ext \<Rightarrow> 'b Group \<times> 'w \<Rightarrow> 'b Group \<times> 'w" where
  "maybeRotateMissBloom E = (\<lambda>(g, w).
     if g_missBloom g = None \<or> g_bloomRotate g \<le> 0 then (g, w)
     else
       (case x_now E w of
          (now, w1) \<Rightarrow>
            if now - g_missBloomStart g < g_bloomRotate g then (g, w1)
            else
              (case x_now E w1 of
                 (now2, w2) \<Rightarrow>
                   (g\<lparr>g_missBloom := Some (x_bloomNew E (g_bloomN g) (g_bloomFP g)),
                      g_missBloomStart := now2\<rparr>, w2))))"

definition resetMissBloom :: "('w, 'b) ext \<Rightarrow> 'b Group \<times> 'w \<Rightarrow> 'b Group \<times> 'w" where
  "resetMissBloom E = (\<lambda>(g, w).
     if g_missBloom g = None \<or> g_bloomN g \<le> 0 then (g, w)
     else
       (case x_now E w of
          (now, w1) \<Rightarrow>
            (g\<lparr>g_missBloom := Some (x_bloomNew E (g_bloomN g) (g_bloomFP g)),
               g_missBloomStart := now\<rparr>, w1)))"

section \<open>Loading\<close>

definition getFromPeer ::
  "('w, 'b) ext \<Rightarrow> 'w PeerPicker \<Rightarrow> string \<Rightarrow> string \<Rightarrow> 'b Group \<times> 'w \<Rightarrow>
   ((error + ByteView) \<times> 'b Group \<times> 'w) outcome" where
  "getFromPeer E pp addr key = (\<lambda>(g, w).
     case x_now E w of
       (start, w1) \<Rightarrow>
         obind (pp_Get pp addr (g_name g) key w1)
           (\<lambda>(res, w2).
              case x_now E w2 of
                (now, w3) \<Rightarrow>
                  let g1 = inc PeerRequestDuration [g_name g, pp_Proto pp addr] g in
                  (case res of
                     Inl err \<Rightarrow> Done (Inl err, inc LoadErrors [g_name g, ''peer''] g1, w3)
                   | Inr bs \<Rightarrow> Done (Inr (NewByteView bs), inc Loads [g_name g, ''peer''] g1, w3))))"

definition getLocally ::
  "('w, 'b) ext \<Rightarrow> string \<Rightarrow> 'b Group \<times> 'w \<Rightarrow> (error + ByteView) \<times> 'b Group \<times> 'w" where
  "getLocally E key = (\<lambda>(g, w).
     case x_getter E key w of
       (Inl err, w1) \<Rightarrow> (Inl err, inc LoadErrors [g_name g, ''getter''] g, w1)
     | (Inr bs, w1) \<Rightarrow> (Inr (NewByteView bs), inc Loads [g_name g, ''getter''] g, w1))"

text \<open>The part of the loader after the peers were of no help (lines 247 to 273).\<close>

definition load_getter ::
  "('w, 'b) ext \<Rightarrow> string \<Rightarrow> 'b Group \<times> 'w \<Rightarrow> ((error + ByteView) \<times> 'b Group \<times> 'w) outcome" where
  "load_getter E key s =
     (case maybeRotateMissBloom E s of
        (g, w) \<Rightarrow>
          if (case g_missBloom g of None \<Rightarrow> False | Some b \<Rightarrow> x_bloomTest E b key)
          then Done (Inl ErrNotFound, inc BloomMissBlocks [g_name g] g, w)
          else
            (case getLocally E key (g, w) of
               (Inl err, s1) \<Rightarrow>
                 Done (Inl err, if errors_Is err ErrNotFound then recordNotFound E key s1 else s1)
             | (Inr v, s1) \<Rightarrow>
                 obind (putTier E Main key v s1)
                   (\<lambda>s2. case persistPutView E key v s2 of
                      (g3, w3) \<Rightarrow> Done (Inr v, tier_Remove Hot key g3, w3))))"

text \<open>The body of the function passed to \<open>singleFlight.Do\<close>.\<close>

definition load_fn ::
  "('w, 'b) ext \<Rightarrow> string \<Rightarrow> 'b Group \<times> 'w \<Rightarrow> ((error + ByteView) \<times> 'b Group \<times> 'w) outcome" where
  "load_fn E key s =
     (case x_peers E of
        None \<Rightarrow> load_getter E key s
      | Some pp \<Rightarrow>
          (let addr = pp_PickPeer pp key (snd s) in
           if addr = [] then load_getter E key s
           else
             obind (getFromPeer E pp addr key s)
               (\<lambda>(r, s1). case r of
                  Inr v \<Rightarrow>
                    obind (putTier E (if g_hotCache (fst s1) \<noteq> None then Hot else Main) key v s1)
                      (\<lambda>s2. Done (Inr v, s2))
                | Inl err \<Rightarrow> load_getter E key s1)))"

definition load ::
  "('w, 'b) ext \<Rightarrow> string \<Rightarrow> 'b Group \<times> 'w \<Rightarrow> ((error + ByteView) \<times> 'b Group \<times> 'w) outcome" where
  "load E key s = load_fn E key s"

section \<open>The methods\<close>

definition Group_Get ::
  "('w, 'b) ext \<Rightarrow> string \<Rightarrow> 'b Group \<times> 'w \<Rightarrow> ((error + ByteView) \<times> 'b Group \<times> 'w) outcome" where
  "Group_Get E key s =
     (if key = [] then Done (Inl (Errorf ''key is required''), s)
      else
        obind (peekTier E Main key s)
          (\<lambda>(r, g1, w1). case r of
             Some v \<Rightarrow> Done (Inr v, inc CacheHits [g_name g1] g1, w1)
           | None \<Rightarrow>
               obind (if g_hotCache g1 \<noteq> None then peekTier E Hot key (g1, w1) else Done (None, g1, w1))
                 (\<lambda>(r2, g2, w2). case r2 of
                    Some v \<Rightarrow> Done (Inr v, inc CacheHits [g_name g2] g2, w2)
                  | None \<Rightarrow>
                      (case peekNegative E key (g2, w2) of
                         (True, g3, w3) \<Rightarrow>
                           Done (Inl ErrNotFound, inc NegativeCacheHits [g_name g3] g3, w3)
                       | (False, g3, w3) \<Rightarrow> load E key (g3, w3)))))"

definition broadcast ::
  "('w, 'b) ext \<Rightarrow> string \<Rightarrow> 'b Group \<times> 'w \<Rightarrow> error option \<times> 'b Group \<times> 'w" where
  "broadcast E key = (\<lambda>(g, w).
     case peerWriter E of
       None \<Rightarrow> (None, g, w)
     | Some pw \<Rightarrow> (case pw_BroadcastInvalidate pw (g_name g) key w of (err, w1) \<Rightarrow> (err, g, w1)))"

definition setLocalAndBroadcast ::
  "('w, 'b) ext \<Rightarrow> string \<Rightarrow> bytes \<Rightarrow> 'b Group \<times> 'w \<Rightarrow> (error option \<times> 'b Group \<times> 'w) outcome" where
  "setLocalAndBroadcast E key value = (\<lambda>(g, w).
     let v = NewByteView value;
         g1 = g\<lparr>g_negUntil := (g_negUntil g)(key := None)\<rparr>
     in obind (putTier E Main key v (resetMissBloom E (g1, w)))
          (\<lambda>s2. case persistPutView E key v s2 of
             (g3, w3) \<Rightarrow> Done (broadcast E key (tier_Remove Hot key g3, w3))))"

definition InvalidateLocal ::
  "('w, 'b) ext \<Rightarrow> string \<Rightarrow> 'b Group \<times> 'w \<Rightarrow> error option \<times> 'b Group \<times> 'w" where
  "InvalidateLocal E key = (\<lambda>(g, w).
     if key = [] then (Some (Errorf ''key is required''), g, w)
     else
       (case resetMissBloom E (g\<lparr>g_negUntil := (g_negUntil g)(key := None)\<rparr>, w) of
          (g1, w1) \<Rightarrow>
            (None, persistDeleteKey E key (tier_Remove Hot key (tier_Remove Main key g1), w1))))"

text \<open>The guard of \<open>Set\<close> and \<open>PurgeKey\<close>: peers can write, and another member owns the key.\<close>

definition forwards :: "('w, 'b) ext \<Rightarrow> string \<Rightarrow> 'w \<Rightarrow> 'w PeerWriter option" where
  "forwards E key w =
     (case peerWriter E of
        None \<Rightarrow> None
      | Some pw \<Rightarrow> if pw_IsOwner pw key w then None else Some pw)"

definition Group_Set ::
  "('w, 'b) ext \<Rightarrow> string \<Rightarrow> bytes \<Rightarrow> 'b Group \<times> 'w \<Rightarrow> (error option \<times> 'b Group \<times> 'w) outcome" where
  "Group_Set E key value = (\<lambda>(g, w).
     if key = [] then Done (Some (Errorf ''key is required''), g, w)
     else
       (case forwards E key w of
          Some pw \<Rightarrow>
            (case pw_ForwardSet pw (g_name g) key value w of (err, w1) \<Rightarrow> Done (err, g, w1))
        | None \<Rightarrow> setLocalAndBroadcast E key value (g, w)))"

definition PurgeKey ::
  "('w, 'b) ext \<Rightarrow> string \<Rightarrow> 'b Group \<times> 'w \<Rightarrow> error option \<times> 'b Group \<times> 'w" where
  "PurgeKey E key = (\<lambda>(g, w).
     if key = [] then (Some (Errorf ''key is required''), g, w)
     else
       (case forwards E key w of
          Some pw \<Rightarrow> (case pw_ForwardPurge pw (g_name g) key w of (err, w1) \<Rightarrow> (err, g, w1))
        | None \<Rightarrow>
            (case InvalidateLocal E key (g, w) of
               (Some err, s1) \<Rightarrow> (Some err, s1)
             | (None, s1) \<Rightarrow> broadcast E key s1)))"

section \<open>Construction\<close>

text \<open>\<open>warmFromBolt\<close>: the callback counts the entries it has put into the main tier.\<close>

definition warmFromBolt ::
  "('w, 'b) ext \<Rightarrow> 'b Group \<times> 'w \<Rightarrow> (error option \<times> int \<times> 'b Group \<times> 'w) outcome" where
  "warmFromBolt E = (\<lambda>(g, w).
     if g_persist g = None then Done (None, 0, g, w)
     else
       LoadGroup (x_bolt E) (g_persist g) (g_name g)
         (\<lambda>key val (n, s). obind (putTier E Main key (NewByteView val) s)
            (\<lambda>s1. Done (None, n + 1, s1))) w (0, g, w))"

definition NewGroup ::
  "('w, 'b) ext \<Rightarrow> string \<Rightarrow> int \<Rightarrow> int \<Rightarrow> string \<Rightarrow> duration \<Rightarrow> duration \<Rightarrow> duration \<Rightarrow> int \<Rightarrow> rat \<Rightarrow>
   bool \<Rightarrow> BoltStore option \<Rightarrow> bool \<Rightarrow> (string \<Rightarrow> 'b Group option) \<Rightarrow> 'w \<Rightarrow>
   ('b Group \<times> (string \<Rightarrow> 'b Group option) \<times> 'w) outcome" where
  "NewGroup E name cacheBytes hotBytes eviction ttl ttlJitter negTTL bloomN bloomFP
     getterSet persist warm Groups w =
     (if \<not> getterSet then Panics ''nil Getter''
      else
        (let fp = (if bloomN > 0 \<and> bloomFP \<le> 0 then 1 / 100 else bloomFP);
             (main, hot) = buildCacheStores eviction cacheBytes hotBytes;
             g = \<lparr>g_name = name, g_mainCache = Some main,
                  g_hotCache = (if hotBytes > 0 then hot else None),
                  g_ttl = ttl, g_ttlJitter = ttlJitter, g_negTTL = negTTL,
                  g_negUntil = (\<lambda>_. None), g_missBloom = None, g_missBloomStart = 0,
                  g_bloomN = 0, g_bloomFP = 0, g_bloomRotate = 0, g_persist = persist,
                  g_metrics = (\<lambda>_ _. 0)\<rparr>;
             (g1, w1) =
               (if bloomN > 0 then
                  (case x_now E w of
                     (now, w1) \<Rightarrow>
                       (g\<lparr>g_missBloom := Some (x_bloomNew E bloomN fp), g_missBloomStart := now,
                          g_bloomN := bloomN, g_bloomFP := fp,
                          g_bloomRotate :=
                            (if wrap64 (5 * negTTL) \<le> 0 then 60 * 10 ^ 9 else wrap64 (5 * negTTL))\<rparr>, w1))
                else (g, w))
         in obind (if persist \<noteq> None \<and> warm then warmFromBolt E (g1, w1) else Done (None, 0, g1, w1))
              (\<lambda>(_, _, g2, w2). Done (g2, Groups(name \<mapsto> g2), w2))))"

definition GetGroup :: "(string \<Rightarrow> 'b Group option) \<Rightarrow> string \<Rightarrow> 'b Group option" where
  "GetGroup Groups name = Groups name"

section \<open>What a group holds\<close>

definition held :: "tier \<Rightarrow> 'b Group \<Rightarrow> string \<Rightarrow> Value option" where
  "held t g = (case tier_cache t g of None \<Rightarrow> Map.empty | Some c \<Rightarrow> store_entries c)"

text \<open>With a TTL the tiers hold \<open>ttlEntry\<close> values, without one plain views.\<close>

definition value_ok :: "duration \<Rightarrow> Value \<Rightarrow> bool" where
  "value_ok ttl v \<longleftrightarrow> (if ttl \<le> 0 then \<exists>b. v = VView b else \<exists>e. v = VTtl e)"

definition group_inv :: "'b Group \<Rightarrow> bool" where
  "group_inv g \<longleftrightarrow> (\<forall>t c. tier_cache t g = Some c \<longrightarrow>
     store_inv c \<and> (\<forall>k v. store_entries c k = Some v \<longrightarrow> value_ok (g_ttl g) v))"

definition fits :: "tier \<Rightarrow> 'b Group \<Rightarrow> string \<Rightarrow> ByteView \<Rightarrow> bool" where
  "fits t g key v \<longleftrightarrow> (case tier_cache t g of None \<Rightarrow> True | Some c \<Rightarrow> store_admits c key (VView v))"

definition config where
  "config g = (g_name g, g_ttl g, g_ttlJitter g, g_negTTL g, g_persist g, g_bloomN g, g_bloomFP g,
     g_bloomRotate g)"

definition misses where
  "misses g = (g_negUntil g, g_missBloom g, g_missBloomStart g)"

lemma configD:
  assumes "config g' = config g"
  shows "g_name g' = g_name g" "g_ttl g' = g_ttl g" "g_ttlJitter g' = g_ttlJitter g"
    "g_negTTL g' = g_negTTL g" "g_persist g' = g_persist g" "g_bloomN g' = g_bloomN g"
    "g_bloomFP g' = g_bloomFP g" "g_bloomRotate g' = g_bloomRotate g"
  using assms by (simp_all add: config_def)

lemma missesD:
  assumes "misses g' = misses g"
  shows "g_negUntil g' = g_negUntil g" "g_missBloom g' = g_missBloom g"
    "g_missBloomStart g' = g_missBloomStart g"
  using assms by (simp_all add: misses_def)

lemma inc_frame [simp]:
  "config (inc m ls g) = config g" "misses (inc m ls g) = misses g"
  "tier_cache t (inc m ls g) = tier_cache t g" "held t (inc m ls g) = held t g"
  "g_ttl (inc m ls g) = g_ttl g" "g_name (inc m ls g) = g_name g"
  "g_persist (inc m ls g) = g_persist g" "g_negTTL (inc m ls g) = g_negTTL g"
  "g_missBloom (inc m ls g) = g_missBloom g" "g_negUntil (inc m ls g) = g_negUntil g"
  "g_hotCache (inc m ls g) = g_hotCache g" "g_mainCache (inc m ls g) = g_mainCache g"
  by (cases t; simp add: inc_def config_def misses_def held_def)+

lemma group_inv_inc [simp]: "group_inv (inc m ls g) = group_inv g"
  by (simp add: group_inv_def)

lemma set_tier_frame [simp]:
  "config (set_tier t c g) = config g" "misses (set_tier t c g) = misses g"
  "tier_cache u (set_tier t c g) = (if u = t then Some c else tier_cache u g)"
  "held u (set_tier t c g) = (if u = t then store_entries c else held u g)"
  "g_ttl (set_tier t c g) = g_ttl g" "g_name (set_tier t c g) = g_name g"
  "g_persist (set_tier t c g) = g_persist g" "g_metrics (set_tier t c g) = g_metrics g"
  by (cases t; cases u; simp add: config_def misses_def held_def)+

lemma held_Some: "tier_cache t g = Some c \<Longrightarrow> held t g = store_entries c"
  by (simp add: held_def)

lemma held_None: "tier_cache t g = None \<Longrightarrow> held t g = Map.empty"
  by (simp add: held_def)

lemma group_invD:
  assumes "group_inv g" and "tier_cache t g = Some c"
  shows "store_inv c" and "store_entries c k = Some v \<Longrightarrow> value_ok (g_ttl g) v"
  using assms unfolding group_inv_def by blast+

lemma group_inv_set_tier:
  assumes "group_inv g" and "store_inv c"
    and "\<And>k v. store_entries c k = Some v \<Longrightarrow> value_ok (g_ttl g) v"
  shows "group_inv (set_tier t c g)"
  using assms unfolding group_inv_def by (auto split: if_splits)

text \<open>Callbacks leave everything but the metrics and the disk alone.\<close>

definition same_tiers :: "'b Group \<Rightarrow> 'b Group \<Rightarrow> bool" where
  "same_tiers g g' \<longleftrightarrow> (\<forall>t. tier_cache t g' = tier_cache t g) \<and> config g' = config g \<and>
     misses g' = misses g"

lemma same_tiers_refl [simp]: "same_tiers g g"
  by (simp add: same_tiers_def)

lemma onEvicted_frame: "same_tiers g (fst (onEvicted E t kv (g, w)))"
  by (cases t) (simp_all add: same_tiers_def onMain_def onHot_def)

lemma onEvicted_fold: "same_tiers g (fst (fold (onEvicted E t) ev (g, w)))"
proof (induction ev arbitrary: g w)
  case (Cons kv ev)
  obtain g1 w1 where s: "onEvicted E t kv (g, w) = (g1, w1)" by fastforce
  with Cons [of g1 w1] onEvicted_frame [of g E t kv w] show ?case by (simp add: same_tiers_def)
qed simp

lemma same_tiers_inv: "same_tiers g g' \<Longrightarrow> group_inv g' = group_inv g"
  using configD(2) [of g' g] by (simp add: same_tiers_def group_inv_def)

lemma same_tiers_held: "same_tiers g g' \<Longrightarrow> held t g' = held t g"
  by (simp add: same_tiers_def held_def)

text \<open>An insertion depends on the length of the value only.\<close>

lemma store_admits_len:
  "Value_Len v = Value_Len v' \<Longrightarrow> store_admits s k v = store_admits s k v'"
  by (cases s) (simp_all add: Cache_admits_def LFU_admits_def ARC_admits_def entBytes_def
      split: option.splits)

lemma tier_Add_ok:
  assumes "group_inv g" and "tier_cache t g = Some c" and "store_admits c key v"
    and "value_ok (g_ttl g) v"
  shows "\<exists>g' w'. tier_Add E t c key v (g, w) = Done (g', w') \<and> group_inv g' \<and>
    held t g' key = Some v \<and> held t g' \<subseteq>\<^sub>m (held t g)(key \<mapsto> v) \<and>
    (\<forall>u. u \<noteq> t \<longrightarrow> tier_cache u g' = tier_cache u g) \<and> tier_cache t g' \<noteq> None \<and>
    config g' = config g \<and> misses g' = misses g"
proof -
  note ci = group_invD [OF assms(1,2)]
  obtain c' ev where add: "CacheStore_Add c key v = Some (c', ev)"
    using store.add_returns [OF ci(1) assms(3)] by fastforce
  note inv = store.add_invar [OF ci(1) assms(3) add]
    and lossy = store.add_lossy [OF ci(1) assms(3) add]
    and stored = store.add_stored [OF ci(1) assms(3) add]
  have ok: "value_ok (g_ttl g) x" if "store_entries c' k = Some x" for k x
  proof -
    from that lossy have "((store_entries c)(key \<mapsto> v)) k = Some x"
      by (metis domI map_le_def)
    then show ?thesis using ci(2) [of k x] assms(4) by (auto split: if_splits)
  qed
  obtain g' w' where f: "fold (onEvicted E t) ev (set_tier t c' g, w) = (g', w')" by fastforce
  with onEvicted_fold [of "set_tier t c' g" E t ev w] have st: "same_tiers (set_tier t c' g) g'" by simp
  have "group_inv g'"
    using same_tiers_inv [OF st] group_inv_set_tier [OF assms(1) inv ok] by simp
  with st stored lossy show ?thesis
    by (auto simp: tier_Add_def add f same_tiers_held [OF st] held_Some [OF assms(2)])
      (auto simp: same_tiers_def)
qed

lemma tier_Remove_ok:
  assumes "group_inv g"
  shows "group_inv (tier_Remove t key g)"
    and "held u (tier_Remove t key g) = (if u = t then (held t g)(key := None) else held u g)"
    and "config (tier_Remove t key g) = config g" and "misses (tier_Remove t key g) = misses g"
    and "tier_cache u (tier_Remove t key g) = None \<longleftrightarrow> tier_cache u g = None"
    and "u \<noteq> t \<Longrightarrow> tier_cache u (tier_Remove t key g) = tier_cache u g"
    and "g_metrics (tier_Remove t key g) = g_metrics g"
proof -
  note all = group_inv_set_tier [OF assms, of _ t] held_Some [of t g] held_None [of t g]
  show "group_inv (tier_Remove t key g)"
  proof (cases "tier_cache t g")
    case (Some c)
    note ci = group_invD [OF assms Some]
    have "group_inv (set_tier t (snd (CacheStore_Remove c key)) g)"
      using ci by (intro group_inv_set_tier [OF assms])
        (auto simp: store.remove_invar store.remove_entries split: if_splits)
    with Some show ?thesis by (simp add: tier_Remove_def)
  qed (simp add: tier_Remove_def assms)
  show "held u (tier_Remove t key g) = (if u = t then (held t g)(key := None) else held u g)"
    using group_invD(1) [OF assms]
    by (auto simp: tier_Remove_def all(2,3) store.remove_entries split: option.splits)
  show "config (tier_Remove t key g) = config g" "misses (tier_Remove t key g) = misses g"
    "tier_cache u (tier_Remove t key g) = None \<longleftrightarrow> tier_cache u g = None"
    "u \<noteq> t \<Longrightarrow> tier_cache u (tier_Remove t key g) = tier_cache u g"
    "g_metrics (tier_Remove t key g) = g_metrics g"
    by (auto simp: tier_Remove_def split: option.splits if_splits)
qed

section \<open>Reading and writing a tier\<close>

text \<open>What is relied on of \<open>rand.Int63n\<close>: a number in \<open>[0, n)\<close>.\<close>

definition rand_ok :: "('w, 'b) ext \<Rightarrow> bool" where
  "rand_ok E \<longleftrightarrow> (\<forall>n w. 0 < n \<longrightarrow> 0 \<le> fst (x_Int63n E n w) \<and> fst (x_Int63n E n w) < n)"

text \<open>The longest lifetime of an entry is a duration of 64 bits.\<close>

definition durations_ok :: "'b Group \<Rightarrow> bool" where
  "durations_ok g \<longleftrightarrow> g_ttl g + max 0 (g_ttlJitter g) < 2 ^ 63"

lemma wrap64_id: "- (2 ^ 63) \<le> x \<Longrightarrow> x < 2 ^ 63 \<Longrightarrow> wrap64 x = x"
  by (simp add: wrap64_def)

lemma cacheTTL_bounds:
  assumes "rand_ok E" and "durations_ok g" and "0 < g_ttl g"
  shows "\<exists>d w'. cacheTTLWithJitter E g w = Done (d, w') \<and> g_ttl g \<le> d \<and>
    d \<le> g_ttl g + max 0 (g_ttlJitter g)"
proof (cases "g_ttlJitter g \<le> 0")
  case True
  with assms(3) show ?thesis by (simp add: cacheTTLWithJitter_def)
next
  case False
  let ?n = "g_ttlJitter g + 1"
  from False assms(2,3) have n: "wrap64 ?n = ?n"
    by (intro wrap64_id) (simp_all add: durations_ok_def)
  obtain r w1 where r: "x_Int63n E ?n w = (r, w1)" by fastforce
  from False have "0 < ?n" by simp
  with assms(1) have "0 \<le> fst (x_Int63n E ?n w) \<and> fst (x_Int63n E ?n w) < ?n"
    unfolding rand_ok_def by blast
  with r have b: "0 \<le> r" "r < ?n" by simp_all
  have "wrap64 (g_ttl g + r) = g_ttl g + r"
    using b assms(2,3) False by (intro wrap64_id) (simp_all add: durations_ok_def)
  with n r b False assms(3) show ?thesis by (simp add: cacheTTLWithJitter_def Let_def)
qed

definition value_view :: "Value \<Rightarrow> ByteView" where
  "value_view x = (case x of VView v \<Rightarrow> v | VTtl e \<Rightarrow> view e)"

text \<open>What a stored value is worth at time \<open>now\<close>.\<close>

definition live_view :: "time \<Rightarrow> Value \<Rightarrow> ByteView option" where
  "live_view now x =
     (case x of VView v \<Rightarrow> Some v | VTtl e \<Rightarrow> if now > until e then None else Some (view e))"

text \<open>The value \<open>putTier\<close> stores for \<open>v\<close> when the clock reads \<open>now\<close>.\<close>

definition lifetime :: "'b Group \<Rightarrow> time \<Rightarrow> ByteView \<Rightarrow> Value \<Rightarrow> bool" where
  "lifetime g now v x \<longleftrightarrow>
     (if g_ttl g \<le> 0 then x = VView v
      else \<exists>u. x = VTtl \<lparr>view = v, until = u\<rparr> \<and> now + g_ttl g \<le> u \<and>
        u \<le> now + g_ttl g + max 0 (g_ttlJitter g))"

definition put_done ::
  "tier \<Rightarrow> string \<Rightarrow> ByteView \<Rightarrow> time \<Rightarrow> 'b Group \<Rightarrow> 'b Group \<Rightarrow> bool" where
  "put_done t key v now g g' \<longleftrightarrow> group_inv g' \<and> config g' = config g \<and> misses g' = misses g \<and>
     (\<forall>u. u \<noteq> t \<longrightarrow> tier_cache u g' = tier_cache u g) \<and>
     (tier_cache t g' = None \<longleftrightarrow> tier_cache t g = None) \<and>
     (tier_cache t g \<noteq> None \<longrightarrow> (\<exists>x. lifetime g now v x \<and> held t g' key = Some x \<and>
        held t g' \<subseteq>\<^sub>m (held t g)(key \<mapsto> x)))"

lemma putTier_ok:
  assumes "group_inv g" and "fits t g key v" and "durations_ok g" and "rand_ok E"
  shows "\<exists>g' w'. putTier E t key v (g, w) = Done (g', w') \<and> put_done t key v (fst (x_now E w)) g g'"
proof (cases "tier_cache t g")
  case None
  with assms(1) show ?thesis by (simp add: putTier_def put_done_def)
next
  case (Some c)
  have adm: "store_admits c key (VView v)" using assms(2) Some by (simp add: fits_def)
  show ?thesis
  proof (cases "g_ttl g > 0")
    case False
    then have "value_ok (g_ttl g) (VView v)" by (simp add: value_ok_def)
    from tier_Add_ok [OF assms(1) Some adm this, of E w] False Some show ?thesis
      by (auto simp: putTier_def put_done_def lifetime_def)
  next
    case True
    obtain now w1 where now: "x_now E w = (now, w1)" by fastforce
    from cacheTTL_bounds [OF assms(4,3) True, of w1] obtain d w2 where
      d: "cacheTTLWithJitter E g w1 = Done (d, w2)" "g_ttl g \<le> d" "d \<le> g_ttl g + max 0 (g_ttlJitter g)"
      by blast
    let ?x = "VTtl \<lparr>view = v, until = now + d\<rparr>"
    have "store_admits c key ?x"
      using adm store_admits_len [of ?x "VView v" c key] by (simp add: ttlEntry_Len_def)
    moreover have "value_ok (g_ttl g) ?x" using True by (simp add: value_ok_def)
    ultimately obtain g' w' where
      a: "tier_Add E t c key ?x (g, w2) = Done (g', w')" "group_inv g'" "held t g' key = Some ?x"
        "held t g' \<subseteq>\<^sub>m (held t g)(key \<mapsto> ?x)" "\<forall>u. u \<noteq> t \<longrightarrow> tier_cache u g' = tier_cache u g"
        "tier_cache t g' \<noteq> None" "config g' = config g" "misses g' = misses g"
      using tier_Add_ok [OF assms(1) Some, of key ?x E w2] by blast
    have "lifetime g now v ?x" using d True by (simp add: lifetime_def)
    with a Some True now d(1) show ?thesis
      by (auto simp: putTier_def put_done_def simp del: not_None_eq)
  qed
qed

definition peek_done ::
  "tier \<Rightarrow> string \<Rightarrow> time \<Rightarrow> 'b Group \<Rightarrow> ByteView option \<Rightarrow> 'b Group \<Rightarrow> bool" where
  "peek_done t key now g r g' \<longleftrightarrow> group_inv g' \<and> config g' = config g \<and> misses g' = misses g \<and>
     (\<forall>u. u \<noteq> t \<longrightarrow> tier_cache u g' = tier_cache u g) \<and>
     (tier_cache t g' = None \<longleftrightarrow> tier_cache t g = None) \<and>
     r = Option.bind (held t g key) (live_view now) \<and>
     held t g' = (if r = None then (held t g)(key := None) else held t g)"

lemma peek_doneD:
  assumes "peek_done t key now g r g'"
  shows "group_inv g'" "config g' = config g" "misses g' = misses g"
    "u \<noteq> t \<Longrightarrow> tier_cache u g' = tier_cache u g" "tier_cache t g' = None \<longleftrightarrow> tier_cache t g = None"
    "r = Option.bind (held t g key) (live_view now)" "r = None \<Longrightarrow> held t g' = (held t g)(key := None)"
    "r \<noteq> None \<Longrightarrow> held t g' = held t g"
  using assms unfolding peek_done_def by auto

lemma persistDelete_group: "fst (persistDeleteKey E key (g, w)) = g"
  by (simp add: persistDeleteKey_def)

lemma persistPut_group: "fst (persistPutView E key v (g, w)) = g"
  by (simp add: persistPutView_def)

lemma peekTier_ok:
  assumes "group_inv g"
  shows "\<exists>r g' w'. peekTier E t key (g, w) = Done (r, g', w') \<and>
    peek_done t key (fst (x_now E w)) g r g'"
proof (cases "tier_cache t g")
  case None
  with assms show ?thesis by (simp add: peekTier_def peek_done_def held_None)
next
  case (Some c)
  note ci = group_invD [OF assms Some]
  obtain vi c1 where get: "CacheStore_Get c key = (vi, c1)" by fastforce
  have vi: "vi = store_entries c key" and e1: "store_entries c1 = store_entries c"
    and i1: "store_inv c1"
    using store.get_value [OF ci(1), of key] store.get_entries [OF ci(1), of key]
      store.get_invar [OF ci(1), of key] get by simp_all
  let ?g1 = "set_tier t c1 g"
  have inv1: "group_inv ?g1" using ci(2) i1 e1 by (intro group_inv_set_tier [OF assms]) simp_all
  have held: "held t g = store_entries c" using Some by (rule held_Some)
  show ?thesis
  proof (cases vi)
    case None
    with Some get vi inv1 e1 held show ?thesis
      by (auto simp: peekTier_def peek_done_def fun_upd_idem)
  next
    case (Some x)
    with vi ci(2) have ok: "value_ok (g_ttl g) x" by simp
    show ?thesis
    proof (cases "g_ttl g \<le> 0")
      case True
      with ok obtain b where "x = VView b" by (auto simp: value_ok_def)
      with True Some get vi inv1 e1 held \<open>tier_cache t g = Some c\<close> show ?thesis
        by (simp add: peekTier_def peek_done_def live_view_def)
    next
      case False
      with ok obtain e where x: "x = VTtl e" by (auto simp: value_ok_def)
      obtain now w1 where now: "x_now E w = (now, w1)" by fastforce
      show ?thesis
      proof (cases "now > until e")
        case True
        let ?g2 = "tier_Remove t key ?g1"
        note rem = tier_Remove_ok [OF inv1, where t = t and key = key]
        obtain w2 where del: "persistDeleteKey E key (?g2, w1) = (?g2, w2)"
          using persistDelete_group [of E key ?g2 w1] by (metis prod.collapse)
        have "peekTier E t key (g, w) = Done (None, inc CacheExpired [g_name ?g2] ?g2, w2)"
          using False True x Some get now \<open>tier_cache t g = Some c\<close> by (simp add: peekTier_def del)
        moreover have "tier_cache u ?g2 = tier_cache u g" if "u \<noteq> t" for u
          using that rem(6) [of u] by simp
        ultimately show ?thesis
          using rem True x Some vi e1 held now \<open>tier_cache t g = Some c\<close>
          by (simp add: peek_done_def live_view_def del: not_None_eq)
      next
        case before: False
        with False x Some get now vi inv1 e1 held \<open>tier_cache t g = Some c\<close> show ?thesis
          by (simp add: peekTier_def peek_done_def live_view_def)
      qed
    qed
  qed
qed

section \<open>The methods\<close>

lemma resetMissBloom_frame:
  assumes "resetMissBloom E (g, w) = (g', w')"
  shows "tier_cache t g' = tier_cache t g" "held t g' = held t g" "config g' = config g"
    "g_negUntil g' = g_negUntil g" "g_metrics g' = g_metrics g" "group_inv g' = group_inv g"
    "g_missBloom g \<noteq> None \<Longrightarrow> 0 < g_bloomN g \<Longrightarrow>
      g_missBloom g' = Some (x_bloomNew E (g_bloomN g) (g_bloomFP g))"
    "g_missBloom g = None \<Longrightarrow> g_missBloom g' = None"
proof -
  have all: "tier_cache u g' = tier_cache u g" "config g' = config g"
    "g_negUntil g' = g_negUntil g" "g_metrics g' = g_metrics g" for u
    using assms by (cases u; auto simp: resetMissBloom_def config_def split: if_splits prod.splits)+
  then show "tier_cache t g' = tier_cache t g" "held t g' = held t g" "config g' = config g"
    "g_negUntil g' = g_negUntil g" "g_metrics g' = g_metrics g" "group_inv g' = group_inv g"
    using configD(2) [OF all(2)] by (simp_all add: held_def group_inv_def)
  show "g_missBloom g \<noteq> None \<Longrightarrow> 0 < g_bloomN g \<Longrightarrow>
      g_missBloom g' = Some (x_bloomNew E (g_bloomN g) (g_bloomFP g))"
    "g_missBloom g = None \<Longrightarrow> g_missBloom g' = None"
    using assms by (auto simp: resetMissBloom_def split: if_splits prod.splits)
qed

lemma forget_miss_frame:
  "tier_cache t (g\<lparr>g_negUntil := n\<rparr>) = tier_cache t g" "held t (g\<lparr>g_negUntil := n\<rparr>) = held t g"
  "config (g\<lparr>g_negUntil := n\<rparr>) = config g" "group_inv (g\<lparr>g_negUntil := n\<rparr>) = group_inv g"
proof -
  have t: "tier_cache u (g\<lparr>g_negUntil := n\<rparr>) = tier_cache u g" for u by (cases u) simp_all
  then show "tier_cache t (g\<lparr>g_negUntil := n\<rparr>) = tier_cache t g"
    "held t (g\<lparr>g_negUntil := n\<rparr>) = held t g" "group_inv (g\<lparr>g_negUntil := n\<rparr>) = group_inv g"
    by (simp_all add: held_def group_inv_def)
qed (simp add: config_def)

lemma broadcast_group: "fst (snd (broadcast E key (g, w))) = g"
  by (simp add: broadcast_def split: option.splits prod.splits)

lemma durations_config: "config g' = config g \<Longrightarrow> durations_ok g' = durations_ok g"
  using configD [of g' g] by (simp add: durations_ok_def)

lemma lifetime_config: "config g' = config g \<Longrightarrow> lifetime g' now v x = lifetime g now v x"
  using configD(2,3) [of g' g] by (simp only: lifetime_def)

lemma setLocalAndBroadcast_ok:
  assumes "group_inv g" and "g_mainCache g \<noteq> None" and "fits Main g key (NewByteView value)"
    and "durations_ok g" and "rand_ok E"
    and "resetMissBloom E (g\<lparr>g_negUntil := (g_negUntil g)(key := None)\<rparr>, w) = (g1, w1)"
  shows "\<exists>err g' w' x. setLocalAndBroadcast E key value (g, w) = Done (err, g', w') \<and>
    group_inv g' \<and> config g' = config g \<and> lifetime g (fst (x_now E w1)) (NewByteView value) x \<and>
    held Main g' key = Some x \<and> held Main g' \<subseteq>\<^sub>m (held Main g)(key \<mapsto> x) \<and>
    held Hot g' = (held Hot g)(key := None) \<and> g_negUntil g' = (g_negUntil g)(key := None) \<and>
    g_missBloom g' = g_missBloom g1"
proof -
  let ?v = "NewByteView value" and ?g0 = "g\<lparr>g_negUntil := (g_negUntil g)(key := None)\<rparr>"
  note r = resetMissBloom_frame [OF assms(6)] and f0 = forget_miss_frame [where g = g]
  have inv1: "group_inv g1" using r(6) f0 assms(1) by simp
  have c1: "config g1 = config g" using r(3) f0 by simp
  have "fits Main g1 key ?v" using assms(3) r(1) f0 by (simp add: fits_def)
  from putTier_ok [OF inv1 this _ assms(5), of w1] durations_config [OF c1] assms(4)
  obtain g2 w2 where put: "putTier E Main key ?v (g1, w1) = Done (g2, w2)"
    and pd: "put_done Main key ?v (fst (x_now E w1)) g1 g2" by blast
  have "tier_cache Main g1 \<noteq> None" using r(1) f0 assms(2) by simp
  with pd obtain x where x: "lifetime g1 (fst (x_now E w1)) ?v x" "held Main g2 key = Some x"
    "held Main g2 \<subseteq>\<^sub>m (held Main g1)(key \<mapsto> x)" by (auto simp: put_done_def)
  from pd have d: "group_inv g2" "config g2 = config g1" "misses g2 = misses g1"
    "tier_cache Hot g2 = tier_cache Hot g1" by (auto simp: put_done_def)
  note rem = tier_Remove_ok [OF d(1), where t = Hot and key = key]
  obtain w3 where w3: "persistPutView E key ?v (g2, w2) = (g2, w3)"
    using persistPut_group [of E key ?v g2 w2] by (metis prod.collapse)
  obtain err w4 where w4: "broadcast E key (tier_Remove Hot key g2, w3) = (err, tier_Remove Hot key g2, w4)"
    using broadcast_group [of E key "tier_Remove Hot key g2" w3] by (metis prod.collapse)
  have "setLocalAndBroadcast E key value (g, w) = Done (err, tier_Remove Hot key g2, w4)"
    by (simp add: setLocalAndBroadcast_def assms(6) put w3 w4)
  moreover have "lifetime g (fst (x_now E w1)) ?v x"
    using x(1) by (simp only: lifetime_config [OF c1])
  moreover have "held Hot g2 = held Hot g" "held Main g1 = held Main g"
    using d(4) r(1,2) f0 by (simp_all add: held_def)
  moreover have "g_negUntil g2 = (g_negUntil g)(key := None)" "g_missBloom g2 = g_missBloom g1"
    using missesD [OF d(3)] r(4) by simp_all
  ultimately show ?thesis
    using x rem d(1,2) c1 missesD [OF rem(4)] by (intro exI conjI) (assumption | simp)+
qed

text \<open>A live value in the main tier is what \<open>Get\<close> returns.\<close>

lemma Group_Get_main:
  assumes "group_inv g" and "key \<noteq> []" and "held Main g key = Some x"
    and "live_view (fst (x_now E w)) x = Some v"
  shows "\<exists>g' w'. Group_Get E key (g, w) = Done (Inr v, inc CacheHits [g_name g] g', w') \<and>
    group_inv g' \<and> held Main g' = held Main g"
proof -
  from peekTier_ok [OF assms(1), of E Main key w] obtain r g' w' where
    p: "peekTier E Main key (g, w) = Done (r, g', w')" "peek_done Main key (fst (x_now E w)) g r g'"
    by blast
  with assms(3,4) have "r = Some v" "group_inv g'" "held Main g' = held Main g" "g_name g' = g_name g"
    by (simp_all add: peek_done_def config_def)
  with p assms(2) show ?thesis by (intro exI [of _ g'] exI [of _ w']) (simp add: Group_Get_def)
qed

text \<open>When neither tier has a live value, \<open>Get\<close> has dropped what they had and goes on.\<close>

lemma Group_Get_miss:
  assumes "group_inv g" and "key \<noteq> []"
    and "\<And>x. held Main g key = Some x \<Longrightarrow> live_view (fst (x_now E w)) x = None"
    and "\<And>r g1 w1 x. peekTier E Main key (g, w) = Done (r, g1, w1) \<Longrightarrow> held Hot g key = Some x \<Longrightarrow>
      live_view (fst (x_now E w1)) x = None"
  shows "\<exists>g2 w2. Group_Get E key (g, w) =
      (case peekNegative E key (g2, w2) of
         (True, g3, w3) \<Rightarrow> Done (Inl ErrNotFound, inc NegativeCacheHits [g_name g3] g3, w3)
       | (False, g3, w3) \<Rightarrow> load E key (g3, w3)) \<and>
    group_inv g2 \<and> config g2 = config g \<and> misses g2 = misses g \<and>
    (\<forall>t. held t g2 = (held t g)(key := None)) \<and>
    (\<forall>t. tier_cache t g2 = None \<longleftrightarrow> tier_cache t g = None)"
proof -
  from peekTier_ok [OF assms(1), of E Main key w] obtain r1 g1 w1 where
    p1: "peekTier E Main key (g, w) = Done (r1, g1, w1)" "peek_done Main key (fst (x_now E w)) g r1 g1"
    by blast
  have n1: "r1 = None"
    using p1(2) assms(3) by (cases "held Main g key") (simp_all add: peek_done_def)
  have h1: "held Main g1 = (held Main g)(key := None)" "group_inv g1"
      "config g1 = config g" "misses g1 = misses g" "tier_cache Hot g1 = tier_cache Hot g"
      "tier_cache Main g1 = None \<longleftrightarrow> tier_cache Main g = None"
    using peek_doneD(7) [OF p1(2) n1] peek_doneD(1-3,5) [OF p1(2)] peek_doneD(4) [OF p1(2), of Hot]
    by blast+
  have hot1: "held Hot g1 = held Hot g" using h1(5) by (simp add: held_def)
  from peekTier_ok [OF h1(2), of E Hot key w1] obtain r2 g2 w2 where
    p2: "peekTier E Hot key (g1, w1) = Done (r2, g2, w2)" "peek_done Hot key (fst (x_now E w1)) g1 r2 g2"
    by blast
  have n2: "r2 = None"
    using p2(2) assms(4) [OF p1(1)] hot1 by (cases "held Hot g key") (simp_all add: peek_done_def)
  have h2: "held Hot g2 = (held Hot g)(key := None)" "group_inv g2"
      "config g2 = config g1" "misses g2 = misses g1" "tier_cache Main g2 = tier_cache Main g1"
      "tier_cache Hot g2 = None \<longleftrightarrow> tier_cache Hot g1 = None"
    using peek_doneD(7) [OF p2(2) n2, unfolded hot1] peek_doneD(1-3,5) [OF p2(2)]
      peek_doneD(4) [OF p2(2), of Main] by blast+
  have main2: "held Main g2 = held Main g1" using h2(5) by (simp add: held_def)
  have eq: "Group_Get E key (g, w) =
      obind (if g_hotCache g1 \<noteq> None then peekTier E Hot key (g1, w1) else Done (None, g1, w1))
        (\<lambda>(r2, g2, w2). case r2 of
           Some v \<Rightarrow> Done (Inr v, inc CacheHits [g_name g2] g2, w2)
         | None \<Rightarrow> (case peekNegative E key (g2, w2) of
              (True, g3, w3) \<Rightarrow> Done (Inl ErrNotFound, inc NegativeCacheHits [g_name g3] g3, w3)
            | (False, g3, w3) \<Rightarrow> load E key (g3, w3)))"
    using assms(2) by (simp add: Group_Get_def p1(1) n1)
  show ?thesis
  proof (cases "g_hotCache g1 = None")
    case True
    then have "held Hot g1 = (held Hot g)(key := None)" using hot1 by (simp add: held_def)
    then have "held t g1 = (held t g)(key := None)" for t using h1(1) by (cases t) simp_all
    moreover have "tier_cache t g1 = None \<longleftrightarrow> tier_cache t g = None" for t
      using h1(5,6) by (cases t) simp_all
    ultimately show ?thesis
      using eq True h1 by (intro exI [of _ g1] exI [of _ w1]) simp
  next
    case False
    have nn: "tier_cache t g2 = None \<longleftrightarrow> tier_cache t g = None" for t
      using h1(5,6) h2(5,6) by (cases t) simp_all
    have "held t g2 = (held t g)(key := None)" for t using h1(1) h2(1) main2 by (cases t) simp_all
    with False eq p2(1) n2 h1 h2 nn show ?thesis
      by (intro exI [of _ g2] exI [of _ w2]) simp
  qed
qed

end
