(* ===== verification/GroupProps.thy ===== *)
theory GroupProps
  imports Group
begin

text \<open>
  What the methods of \<open>Group\<close> promise: a value that was set is read back until it expires, an
  expired one is dropped, the loader's paths, the negative cache, invalidation, and that no type
  assertion fails.
\<close>

section \<open>Expired entries\<close>

lemma peekTier_expired:
  assumes "group_inv g" and "held t g key \<noteq> None"
    and "\<And>x. held t g key = Some x \<Longrightarrow> live_view (fst (x_now E w)) x = None"
    and "peekTier E t key (g, w) = Done (r, g', w')"
  shows "r = None \<and> w' = (if g_persist g = None then snd (x_now E w)
    else snd (BoltStore_Delete (x_bolt E) (g_persist g) (g_name g) key (snd (x_now E w))))"
proof -
  obtain c x where c: "tier_cache t g = Some c" "store_entries c key = Some x"
    using assms(2) by (auto simp: held_def split: option.splits)
  note ci = group_invD [OF assms(1) c(1)]
  obtain c1 where get: "CacheStore_Get c key = (Some x, c1)"
    using store.get_value [OF ci(1), of key] c(2) by (metis prod.collapse)
  have e1: "store_entries c1 = store_entries c" and i1: "store_inv c1"
    using store.get_entries [OF ci(1), of key] store.get_invar [OF ci(1), of key] get by simp_all
  have "group_inv (set_tier t c1 g)" using ci(2) i1 e1 by (intro group_inv_set_tier [OF assms(1)]) simp_all
  then have k: "config (tier_Remove t key (set_tier t c1 g)) = config g"
    by (simp add: tier_Remove_ok(3))
  have "live_view (fst (x_now E w)) x = None" using assms(3) c by (simp add: held_Some)
  then obtain e where e: "x = VTtl e" "until e < fst (x_now E w)"
    by (auto simp: live_view_def split: Value.splits if_splits)
  with ci(2) [OF c(2)] have "0 < g_ttl g" by (auto simp: value_ok_def split: if_splits)
  with assms(4) c(1) get e show ?thesis
    by (auto simp: peekTier_def persistDeleteKey_def configD(1,5) [OF k] split: prod.splits if_splits)
qed

section \<open>The loader\<close>

lemma rotate_frame:
  assumes "maybeRotateMissBloom E (g, w) = (g', w')"
  shows "tier_cache t g' = tier_cache t g" "held t g' = held t g" "config g' = config g"
    "g_negUntil g' = g_negUntil g" "group_inv g' = group_inv g"
proof -
  have all: "tier_cache u g' = tier_cache u g" "config g' = config g"
    "g_negUntil g' = g_negUntil g" for u
    using assms by (cases u; auto simp: maybeRotateMissBloom_def config_def split: if_splits prod.splits)+
  then show "tier_cache t g' = tier_cache t g" "held t g' = held t g" "config g' = config g"
    "g_negUntil g' = g_negUntil g" "group_inv g' = group_inv g"
    using configD(2) [OF all(2)] by (simp_all add: held_def group_inv_def)
qed

text \<open>The filter, as it is after a rotation that is due, holds the key.\<close>

definition blocked :: "('w, 'b) ext \<Rightarrow> string \<Rightarrow> 'b Group \<Rightarrow> bool" where
  "blocked E key g \<longleftrightarrow> (case g_missBloom g of None \<Rightarrow> False | Some b \<Rightarrow> x_bloomTest E b key)"

lemma load_getter_value:
  assumes "group_inv g" and "maybeRotateMissBloom E (g, w) = (g1, w1)" and "\<not> blocked E key g1"
    and "x_getter E key w1 = (Inr bs, w2)" and "fits Main g key (NewByteView bs)"
    and "durations_ok g" and "rand_ok E" and "g_mainCache g \<noteq> None"
  shows "\<exists>g' w3 w' x. load_getter E key (g, w) = Done (Inr (NewByteView bs), g', w') \<and>
    group_inv g' \<and> config g' = config g \<and> misses g' = misses g1 \<and>
    lifetime g (fst (x_now E w2)) (NewByteView bs) x \<and> held Main g' key = Some x \<and>
    held Main g' \<subseteq>\<^sub>m (held Main g)(key \<mapsto> x) \<and> held Hot g' = (held Hot g)(key := None) \<and>
    w' = (if g_persist g = None then w3
          else snd (BoltStore_Put (x_bolt E) (g_persist g) (g_name g) key (ByteSlice (NewByteView bs)) w3))"
proof -
  let ?v = "NewByteView bs"
  note r = rotate_frame [OF assms(2)]
  let ?g1 = "inc Loads [g_name g1, ''getter''] g1"
  have inv1: "group_inv ?g1" using r(5) assms(1) by simp
  have c1: "config ?g1 = config g" using r(3) by simp
  have "fits Main ?g1 key ?v" using assms(5) r(1) [of Main] by (simp add: fits_def)
  from putTier_ok [OF inv1 this _ assms(7), of w2] durations_config [OF c1] assms(6)
  obtain g2 w3 where put: "putTier E Main key ?v (?g1, w2) = Done (g2, w3)"
    and pd: "put_done Main key ?v (fst (x_now E w2)) ?g1 g2" by blast
  have "tier_cache Main ?g1 \<noteq> None" using r(1) [of Main] assms(8) by simp
  with pd obtain x where x: "lifetime ?g1 (fst (x_now E w2)) ?v x" "held Main g2 key = Some x"
    "held Main g2 \<subseteq>\<^sub>m (held Main g)(key \<mapsto> x)" using r(2) [of Main] by (auto simp: put_done_def)
  from pd have d: "group_inv g2" "config g2 = config ?g1" "misses g2 = misses g1"
    "tier_cache Hot g2 = tier_cache Hot g1" by (auto simp: put_done_def)
  note rem = tier_Remove_ok [OF d(1), where t = Hot and key = key]
  have c2: "config g2 = config g" using d(2) c1 by simp
  have "load_getter E key (g, w) = Done (Inr ?v, tier_Remove Hot key g2,
      if g_persist g = None then w3
      else snd (BoltStore_Put (x_bolt E) (g_persist g) (g_name g) key (ByteSlice ?v) w3))"
    using assms(2-4) put configD(1,5) [OF c2]
    by (simp add: load_getter_def blocked_def getLocally_def persistPutView_def)
  moreover have "lifetime g (fst (x_now E w2)) ?v x" using x(1) by (simp only: lifetime_config [OF c1])
  moreover have "held Hot g2 = held Hot g" using d(4) r(1) [of Hot] by (simp add: held_def)
  ultimately show ?thesis
    using x rem d(1,3) c2 by (intro exI conjI) (assumption | simp)+
qed

lemma load_getter_error:
  assumes "maybeRotateMissBloom E (g, w) = (g1, w1)" and "\<not> blocked E key g1"
    and "x_getter E key w1 = (Inl err, w2)"
  shows "load_getter E key (g, w) =
    (let s1 = (inc LoadErrors [g_name g1, ''getter''] g1, w2)
     in Done (Inl err, if errors_Is err ErrNotFound then recordNotFound E key s1 else s1))"
  using assms by (simp add: load_getter_def blocked_def getLocally_def)

lemma recordNotFound_frame:
  assumes "recordNotFound E key (g, w) = (g', w')"
  shows "tier_cache t g' = tier_cache t g" "held t g' = held t g" "config g' = config g"
    "group_inv g' = group_inv g"
    "g_negUntil g' = (if 0 < g_negTTL g then (g_negUntil g)(key \<mapsto> fst (x_now E w) + g_negTTL g)
       else g_negUntil g)"
    "g_missBloom g' = map_option (\<lambda>b. x_bloomAdd E b key) (g_missBloom g)"
    "g_missBloomStart g' = g_missBloomStart g"
    "w' = (if 0 < g_negTTL g then snd (x_now E w) else w)"
proof -
  have all: "tier_cache u g' = tier_cache u g" "config g' = config g" for u
    using assms by (cases u; auto simp: recordNotFound_def inc_def config_def Let_def
        split: if_splits prod.splits option.splits)+
  then show "tier_cache t g' = tier_cache t g" "held t g' = held t g" "config g' = config g"
    "group_inv g' = group_inv g"
    using configD(2) [OF all(2)] by (simp_all add: held_def group_inv_def)
  show "g_negUntil g' = (if 0 < g_negTTL g then (g_negUntil g)(key \<mapsto> fst (x_now E w) + g_negTTL g)
       else g_negUntil g)"
    "g_missBloom g' = map_option (\<lambda>b. x_bloomAdd E b key) (g_missBloom g)"
    "g_missBloomStart g' = g_missBloomStart g"
    "w' = (if 0 < g_negTTL g then snd (x_now E w) else w)"
    using assms by (auto simp: recordNotFound_def inc_def Let_def
        split: if_splits prod.splits option.splits)
qed

section \<open>Misses\<close>

lemma set_tier_same: "tier_cache t g = Some c \<Longrightarrow> set_tier t c g = g"
  by (cases t) simp_all

lemma peekTier_absent:
  assumes "group_inv g" and "held t g key = None"
  shows "peekTier E t key (g, w) = Done (None, g, w)"
proof (cases "tier_cache t g")
  case (Some c)
  with CacheStore_Get_miss [OF group_invD(1) [OF assms(1) Some]] assms(2) show ?thesis
    by (simp add: peekTier_def held_Some set_tier_same)
qed (simp add: peekTier_def)

lemma Group_Get_absent:
  assumes "group_inv g" and "key \<noteq> []" and "\<And>t. held t g key = None"
  shows "Group_Get E key (g, w) =
    (case peekNegative E key (g, w) of
       (True, g3, w3) \<Rightarrow> Done (Inl ErrNotFound, inc NegativeCacheHits [g_name g3] g3, w3)
     | (False, g3, w3) \<Rightarrow> load E key (g3, w3))"
  using assms(2) by (simp add: Group_Get_def peekTier_absent [OF assms(1,3)])

lemma peekNegative_absent:
  "g_negUntil g key = None \<Longrightarrow>
    peekNegative E key (g, w) = (False, g, if g_negTTL g \<le> 0 then w else snd (x_now E w))"
  by (simp add: peekNegative_def split: prod.splits)

lemma peekNegative_hit:
  "g_negUntil g key = Some u \<Longrightarrow> fst (x_now E w) \<le> u \<Longrightarrow> 0 < g_negTTL g \<Longrightarrow>
    peekNegative E key (g, w) = (True, g, snd (x_now E w))"
  by (auto simp: peekNegative_def split: prod.splits)

lemma load_no_peer:
  assumes "\<And>pp. x_peers E = Some pp \<Longrightarrow> pp_PickPeer pp key w = []"
  shows "load E key (g, w) = load_getter E key (g, w)"
  using assms by (simp add: load_def load_fn_def split: option.splits)

lemma ByteSlice_NewByteView: "ByteSlice (NewByteView bs) = bs"
  by (simp add: ByteSlice_def NewByteView_def cloneBytes_def go_copy_def)

section \<open>Panics\<close>

lemma tier_Add_no_panic [panic_rules]: "no_panic (tier_Add E t c key v (g, w))"
  by (simp add: tier_Add_def split: option.splits prod.splits)

text \<open>\<open>Int63n\<close> gets a positive argument exactly when the jitter is below the largest duration.\<close>

definition jitter_ok :: "'b Group \<Rightarrow> bool" where
  "jitter_ok g \<longleftrightarrow> g_ttlJitter g < 2 ^ 63 - 1"

lemma jitter_config: "config g' = config g \<Longrightarrow> jitter_ok g' = jitter_ok g"
  using configD(3) [of g' g] by (simp add: jitter_ok_def)

lemma cacheTTL_no_panic [panic_rules]:
  assumes "jitter_ok g"
  shows "no_panic (cacheTTLWithJitter E g w)"
proof (cases "g_ttlJitter g \<le> 0")
  case False
  with assms have "wrap64 (g_ttlJitter g + 1) = g_ttlJitter g + 1"
    by (intro wrap64_id) (simp_all add: jitter_ok_def)
  with False show ?thesis by (simp add: cacheTTLWithJitter_def Let_def split: prod.splits)
qed (simp add: cacheTTLWithJitter_def)

lemma putTier_no_panic [panic_rules]:
  "jitter_ok g \<Longrightarrow> no_panic (putTier E t key v (g, w))"
  by (auto simp: putTier_def split: option.splits prod.splits intro!: panic_rules no_panic_obind)

lemma load_getter_no_panic [panic_rules]:
  assumes "jitter_ok g"
  shows "no_panic (load_getter E key (g, w))"
proof -
  obtain g1 w1 where r: "maybeRotateMissBloom E (g, w) = (g1, w1)" by fastforce
  obtain res g2 w2 where gl: "getLocally E key (g1, w1) = (res, g2, w2)" by (metis surj_pair)
  then have "config g2 = config g1"
    by (auto simp: getLocally_def split: prod.splits sum.splits)
  then have "jitter_ok g2" using jitter_config [of g2 g] rotate_frame(3) [OF r] assms by simp
  then show ?thesis
    by (auto simp: load_getter_def r gl split: sum.splits prod.splits intro!: panic_rules no_panic_obind)
qed

text \<open>The peers that \<open>PickPeer\<close> chooses can be called.\<close>

definition peers_callable :: "('w, 'b) ext \<Rightarrow> bool" where
  "peers_callable E \<longleftrightarrow> (\<forall>pp key w grp w'. x_peers E = Some pp \<longrightarrow> pp_PickPeer pp key w \<noteq> [] \<longrightarrow>
     no_panic (pp_Get pp (pp_PickPeer pp key w) grp key w'))"

lemma load_no_panic [panic_rules]:
  assumes "jitter_ok g" and "peers_callable E"
  shows "no_panic (load E key (g, w))"
proof (cases "x_peers E")
  case None
  then show ?thesis using load_getter_no_panic [OF assms(1)] by (simp add: load_def load_fn_def)
next
  case (Some pp)
  have "no_panic (getFromPeer E pp (pp_PickPeer pp key w) key (g, w))" if "pp_PickPeer pp key w \<noteq> []"
    using assms(2) Some that
    by (auto simp: getFromPeer_def peers_callable_def Let_def split: prod.splits sum.splits
        intro!: no_panic_obind)
  moreover have "jitter_ok g1"
    if "getFromPeer E pp (pp_PickPeer pp key w) key (g, w) = Done (r, g1, w1)" for r g1 w1
  proof -
    have "config g1 = config g"
      using that
      by (cases "pp_Get pp (pp_PickPeer pp key w) (g_name g) key (snd (x_now E w))")
        (auto simp: getFromPeer_def Let_def split: prod.splits sum.splits)
    then show ?thesis using jitter_config [of g1 g] assms(1) by simp
  qed
  ultimately show ?thesis
    using Some assms(1)
    by (auto simp: load_def load_fn_def Let_def split: sum.splits intro!: panic_rules no_panic_obind)
qed

lemma peekTier_no_panic [panic_rules]: "group_inv g \<Longrightarrow> no_panic (peekTier E t key (g, w))"
  using peekTier_ok [of g E t key w] by auto

lemma Group_Get_no_panic:
  assumes "group_inv g" and "jitter_ok g" and "peers_callable E"
  shows "no_panic (Group_Get E key (g, w))"
proof -
  obtain r1 g1 w1 where p1: "peekTier E Main key (g, w) = Done (r1, g1, w1)"
    "peek_done Main key (fst (x_now E w)) g r1 g1"
    using peekTier_ok [OF assms(1), of E Main key w] by blast
  obtain r2 g2 w2 where p2: "(if g_hotCache g1 \<noteq> None then peekTier E Hot key (g1, w1) else Done (None, g1, w1))
      = Done (r2, g2, w2)" and c2: "config g2 = config g1"
    using peekTier_ok [OF peek_doneD(1) [OF p1(2)], of E Hot key w1]
    by (cases "g_hotCache g1 = None") (auto dest: peek_doneD(2))
  obtain b g3 w3 where n: "peekNegative E key (g2, w2) = (b, g3, w3)" by (metis surj_pair)
  then have "config g3 = config g2"
    by (auto simp: peekNegative_def config_def split: if_splits prod.splits option.splits)
  then have "jitter_ok g3"
    using jitter_config [of g3 g] c2 peek_doneD(2) [OF p1(2)] assms(2) by simp
  then have "no_panic (load E key (g3, w3))" using assms(3) by (rule panic_rules)
  then have "no_panic (obind (Done (r2, g2, w2))
      (\<lambda>(r2, g2, w2). case r2 of
         Some v \<Rightarrow> Done (Inr v, inc CacheHits [g_name g2] g2, w2)
       | None \<Rightarrow> (case peekNegative E key (g2, w2) of
            (True, g3, w3) \<Rightarrow> Done (Inl ErrNotFound, inc NegativeCacheHits [g_name g3] g3, w3)
          | (False, g3, w3) \<Rightarrow> load E key (g3, w3))))"
    by (simp add: n split: option.splits bool.splits)
  then show ?thesis
    unfolding Group_Get_def p1(1) obind.simps prod.case p2 [symmetric] by (auto split: option.splits)
qed

lemma Group_Set_no_panic:
  assumes "jitter_ok g"
  shows "no_panic (Group_Set E key value (g, w))"
proof -
  obtain g1 w1 where r: "resetMissBloom E (g\<lparr>g_negUntil := (g_negUntil g)(key := None)\<rparr>, w) = (g1, w1)"
    by fastforce
  have "jitter_ok g1"
    using resetMissBloom_frame(3) [OF r] forget_miss_frame(3) [where g = g] jitter_config [of g1 g] assms
    by simp
  then show ?thesis
    by (auto simp: Group_Set_def setLocalAndBroadcast_def r Let_def split: option.splits prod.splits
        intro!: panic_rules no_panic_obind)
qed

lemma InvalidateLocal_ok:
  assumes "group_inv g" and "key \<noteq> []" and "InvalidateLocal E key (g, w) = (err, g', w')"
  shows "err = None \<and> group_inv g' \<and> config g' = config g \<and>
    (\<forall>t. held t g' = (held t g)(key := None)) \<and> g_negUntil g' = (g_negUntil g)(key := None) \<and>
    (g_missBloom g = None \<longrightarrow> g_missBloom g' = None) \<and>
    (g_missBloom g \<noteq> None \<and> 0 < g_bloomN g \<longrightarrow>
       g_missBloom g' = Some (x_bloomNew E (g_bloomN g) (g_bloomFP g))) \<and>
    (\<exists>w0. w' = (if g_persist g = None then w0
       else snd (BoltStore_Delete (x_bolt E) (g_persist g) (g_name g) key w0)))"
proof -
  let ?g0 = "g\<lparr>g_negUntil := (g_negUntil g)(key := None)\<rparr>"
  obtain g1 w1 where r: "resetMissBloom E (?g0, w) = (g1, w1)" by fastforce
  note f = resetMissBloom_frame [OF r] and f0 = forget_miss_frame [where g = g]
  have inv1: "group_inv g1" using f(6) f0(4) assms(1) by simp
  note m = tier_Remove_ok [OF inv1, where t = Main and key = key]
  note h = tier_Remove_ok [OF m(1), where t = Hot and key = key]
  let ?g2 = "tier_Remove Hot key (tier_Remove Main key g1)"
  have eq: "err = None" "g' = ?g2" "w' = snd (persistDeleteKey E key (?g2, w1))"
    using assms(2,3) r by (auto simp: InvalidateLocal_def persistDeleteKey_def)
  have c: "config ?g2 = config g" using h(3) m(3) f(3) f0(3) by simp
  have held: "held t ?g2 = (held t g)(key := None)" for t
    using h(2) m(2) f(2) f0(2) by (cases t) simp_all
  have "misses ?g2 = misses g1" using h(4) m(4) by simp
  note miss = missesD [OF this]
  have "g_missBloom g = None \<longrightarrow> g_missBloom ?g2 = None" using miss(2) f(8) by simp
  moreover have "g_missBloom g \<noteq> None \<and> 0 < g_bloomN g \<longrightarrow>
      g_missBloom ?g2 = Some (x_bloomNew E (g_bloomN g) (g_bloomFP g))"
    using miss(2) f(7) by simp
  moreover have "w' = (if g_persist g = None then w1
      else snd (BoltStore_Delete (x_bolt E) (g_persist g) (g_name g) key w1))"
    using eq(3) configD(1,5) [OF c] by (simp add: persistDeleteKey_def)
  ultimately show ?thesis using eq(1,2) h(1) c held miss(1) f(4) by auto
qed

text \<open>A value from a peer goes to the hot tier, or to the main tier when there is no hot one.\<close>

lemma load_peer_value:
  assumes "group_inv g" and "x_peers E = Some pp" and "pp_PickPeer pp key w = addr" and "addr \<noteq> []"
    and "pp_Get pp addr (g_name g) key (snd (x_now E w)) = Done (Inr bs, w1)"
    and "durations_ok g" and "rand_ok E" and "t = (if g_hotCache g \<noteq> None then Hot else Main)"
    and "fits t g key (NewByteView bs)" and "tier_cache t g \<noteq> None"
  shows "\<exists>g1 g' w' x. load E key (g, w) = Done (Inr (NewByteView bs), g', w') \<and> group_inv g' \<and>
    held t g' key = Some x \<and> lifetime g (fst (x_now E (snd (x_now E w1)))) (NewByteView bs) x \<and>
    misses g' = misses g \<and> (\<forall>u. u \<noteq> t \<longrightarrow> tier_cache u g' = tier_cache u g) \<and>
    putTier E t key (NewByteView bs) (g1, snd (x_now E w1)) = Done (g', w')"
proof -
  obtain t0 w0 where n0: "x_now E w = (t0, w0)" by fastforce
  obtain t2 w2 where n2: "x_now E w1 = (t2, w2)" by fastforce
  let ?g1 = "inc Loads [g_name g, ''peer''] (inc PeerRequestDuration [g_name g, pp_Proto pp addr] g)"
  have c: "config ?g1 = config g" by simp
  have "group_inv ?g1" "fits t ?g1 key (NewByteView bs)" "durations_ok ?g1"
    using assms(1,6,9) durations_config [OF c] by (simp_all add: fits_def)
  from putTier_ok [OF this assms(7), of w2] obtain g' w' where
    p: "putTier E t key (NewByteView bs) (?g1, w2) = Done (g', w')"
      "put_done t key (NewByteView bs) (fst (x_now E w2)) ?g1 g'" by blast
  have "load E key (g, w) = Done (Inr (NewByteView bs), g', w')"
    using assms(2-5,8) n0 n2 p(1) by (simp add: load_def load_fn_def getFromPeer_def Let_def)
  moreover from p(2) assms(10) obtain x where
    "held t g' key = Some x" "lifetime ?g1 (fst (x_now E w2)) (NewByteView bs) x" by (auto simp: put_done_def)
  ultimately show ?thesis
    using p n2 lifetime_config [OF c] by (intro exI conjI) (assumption | simp add: put_done_def)+
qed

section \<open>Construction\<close>

lemma NewGroup_cold:
  assumes "0 \<le> cacheBytes" and "persist = None \<or> \<not> warm"
  shows "\<exists>g w'. NewGroup E name cacheBytes hotBytes eviction ttl ttlJitter negTTL bloomN bloomFP True
      persist warm Groups w = Done (g, Groups(name \<mapsto> g), w') \<and>
    group_inv g \<and> (\<forall>t. held t g = Map.empty) \<and> g_mainCache g \<noteq> None \<and>
    (g_hotCache g = None \<longleftrightarrow> hotBytes \<le> 0) \<and> g_name g = name \<and> g_ttl g = ttl \<and>
    g_ttlJitter g = ttlJitter \<and> g_negTTL g = negTTL \<and> g_persist g = persist \<and>
    g_negUntil g = Map.empty \<and> (g_missBloom g = None \<longleftrightarrow> bloomN \<le> 0)"
proof -
  obtain main hot where b: "buildCacheStores eviction cacheBytes hotBytes = (main, hot)" by fastforce
  note ok = buildCacheStores_ok [OF assms(1), where eviction = eviction and hotBytes = hotBytes, unfolded b]
  obtain now w1 where now: "x_now E w = (now, w1)" by fastforce
  let ?h = "if hotBytes > 0 then hot else None"
  have hot: "?h = None \<longleftrightarrow> hotBytes \<le> 0" using ok(2) by auto
  have f: "fresh main" "?h = Some c \<Longrightarrow> fresh c" for c using ok(1,3) by (auto split: if_splits)
  have inv: "group_inv g \<and> (\<forall>t. held t g = Map.empty)"
    if "g_mainCache g = Some main" "g_hotCache g = ?h" for g :: "'a Group"
  proof -
    have "tier_cache t g = Some c \<Longrightarrow> fresh c" for t c
      using that f by (cases t) auto
    then show ?thesis by (auto simp: group_inv_def held_def fresh_def split: option.splits)
  qed
  from assms(2) have "\<not> (persist \<noteq> None \<and> warm)" by blast
  then show ?thesis
    using inv hot by (cases "bloomN > 0") (auto simp: NewGroup_def b now Let_def)
qed

section \<open>An example\<close>

text \<open>
  A world with a disk and a clock that advances by one at each reading; the getter knows one
  key, and the filter is the list of the keys added to it.
\<close>

definition ex_ext :: "(mem_world \<times> int, string list) ext" where
  "ex_ext =
     \<lparr>x_now = (\<lambda>(d, t). (t, d, t + 1)), x_Int63n = (\<lambda>n w. (n - 1, w)),
      x_getter = (\<lambda>key w. (if key = ''Tom'' then Inr ''630'' else Inl (Wrapf ''db'' ErrNotFound), w)),
      x_peers = None, x_bolt = mem_bbolt, x_bloomNew = (\<lambda>_ _. []),
      x_bloomTest = (\<lambda>b key. key \<in> set b), x_bloomAdd = (\<lambda>b key. key # b)\<rparr>"

definition ex_new :: "(string list Group \<times> (string \<Rightarrow> string list Group option) \<times> mem_world \<times> int) outcome" where
  "ex_new = NewGroup ex_ext ''scores'' 2048 512 ''lru'' 100 10 50 1000 0 True
     (Some \<lparr>bs_db = True\<rparr>) False (\<lambda>_. None) ([([''g''], [])], 0)"

definition ex_group :: "string list Group" where
  "ex_group = (case ex_new of Done (g, _) \<Rightarrow> g)"

lemma ex_group_ok:
  "group_inv ex_group" "held t ex_group = Map.empty" "g_mainCache ex_group \<noteq> None"
  "g_name ex_group = ''scores''" "g_ttl ex_group = 100" "g_ttlJitter ex_group = 10"
  "g_negTTL ex_group = 50" "g_persist ex_group = Some \<lparr>bs_db = True\<rparr>"
proof -
  have b: "(0::int) \<le> 2048" by simp
  from NewGroup_cold [OF b, of "Some \<lparr>bs_db = True\<rparr>" False ex_ext "''scores''" 512 "''lru''" 100 10 50
      1000 0 "\<lambda>_. None" "([([''g''], [])], 0)"]
  have *: "group_inv ex_group \<and> (\<forall>t. held t ex_group = Map.empty) \<and> g_mainCache ex_group \<noteq> None \<and>
      g_name ex_group = ''scores'' \<and> g_ttl ex_group = 100 \<and> g_ttlJitter ex_group = 10 \<and>
      g_negTTL ex_group = 50 \<and> g_persist ex_group = Some \<lparr>bs_db = True\<rparr>"
    by (auto simp: ex_group_def ex_new_def)
  then show "group_inv ex_group" "held t ex_group = Map.empty" "g_mainCache ex_group \<noteq> None"
    "g_name ex_group = ''scores''" "g_ttl ex_group = 100" "g_ttlJitter ex_group = 10"
    "g_negTTL ex_group = 50" "g_persist ex_group = Some \<lparr>bs_db = True\<rparr>" by simp_all
qed

lemma ex_ext_rand: "rand_ok ex_ext"
  by (simp add: rand_ok_def ex_ext_def)

lemma ex_durations: "durations_ok ex_group"
  by (simp add: durations_ok_def ex_group_ok)

lemma ex_fits: "fits Main ex_group ''Sam'' (NewByteView ''567'')" "fits Main ex_group ''Tom'' (NewByteView ''630'')"
  by code_simp+

section \<open>Properties\<close>

text \<open>
  C8: A key set on its owner is read back: when the value fits into the main tier, \<open>Set\<close>
  returns, the main tier holds the value with a lifetime between the TTL and the TTL plus the
  jitter, counted from the clock when it was put there, the hot tier and the negative cache have
  forgotten the key, and every \<open>Get\<close> of the key in that state returns the value as long as the
  clock it reads has not passed the deadline.
\<close>

theorem group_set_get:
  assumes "group_inv g" and "g_mainCache g \<noteq> None" and "key \<noteq> []" and "forwards E key w = None"
    and "fits Main g key (NewByteView value)" and "durations_ok g" and "rand_ok E"
    and "resetMissBloom E (g\<lparr>g_negUntil := (g_negUntil g)(key := None)\<rparr>, w) = (g0, w0)"
  shows "\<exists>err g1 w1 x. Group_Set E key value (g, w) = Done (err, g1, w1) \<and> group_inv g1 \<and>
    held Main g1 key = Some x \<and> lifetime g (fst (x_now E w0)) (NewByteView value) x \<and>
    held Hot g1 key = None \<and> g_negUntil g1 key = None \<and>
    (\<forall>w2. live_view (fst (x_now E w2)) x \<noteq> None \<longrightarrow>
       (\<exists>g2 w3. Group_Get E key (g1, w2) = Done (Inr (NewByteView value), g2, w3)))"
proof -
  from setLocalAndBroadcast_ok [OF assms(1,2,5-8)] obtain err g1 w1 x where
    set: "setLocalAndBroadcast E key value (g, w) = Done (err, g1, w1)" and g1: "group_inv g1"
      "lifetime g (fst (x_now E w0)) (NewByteView value) x" "held Main g1 key = Some x"
      "held Hot g1 = (held Hot g)(key := None)" "g_negUntil g1 = (g_negUntil g)(key := None)" by blast
  have v: "live_view t x = Some (NewByteView value)" if "live_view t x \<noteq> None" for t
    using that g1(2) by (auto simp: lifetime_def live_view_def split: if_splits)
  have "\<exists>g2 w3. Group_Get E key (g1, w2) = Done (Inr (NewByteView value), g2, w3)"
    if "live_view (fst (x_now E w2)) x \<noteq> None" for w2
    using Group_Get_main [OF g1(1) assms(3) g1(3) v [OF that]] by blast
  with set g1 assms(3,4) show ?thesis by (simp add: Group_Set_def)
qed

theorem group_set_get_witness:
  "\<exists>err g1 w1 x. Group_Set ex_ext ''Sam'' ''567'' (ex_group, ([([''g''], [])], 1)) = Done (err, g1, w1) \<and>
     held Main g1 ''Sam'' = Some x \<and>
     (\<exists>g2 w3. Group_Get ex_ext ''Sam'' (g1, ([], 50)) = Done (Inr (NewByteView ''567''), g2, w3))"
proof -
  let ?w = "([([''g''], [])], 1)"
  obtain g0 w0 where r: "resetMissBloom ex_ext
      (ex_group\<lparr>g_negUntil := (g_negUntil ex_group)(''Sam'' := None)\<rparr>, ?w) = (g0, w0)"
    by (meson surj_pair)
  have w0: "snd (snd (resetMissBloom ex_ext
      (ex_group\<lparr>g_negUntil := (g_negUntil ex_group)(''Sam'' := None)\<rparr>, ?w))) = 2" by code_simp
  have "forwards ex_ext ''Sam'' ?w = None" by (simp add: forwards_def peerWriter_def ex_ext_def)
  from group_set_get [OF ex_group_ok(1,3) _ this ex_fits(1) ex_durations ex_ext_rand r] obtain err g1 w1 x
    where *: "Group_Set ex_ext ''Sam'' ''567'' (ex_group, ?w) = Done (err, g1, w1)"
      "held Main g1 ''Sam'' = Some x" "lifetime ex_group (fst (x_now ex_ext w0)) (NewByteView ''567'') x"
      "\<forall>w2. live_view (fst (x_now ex_ext w2)) x \<noteq> None \<longrightarrow>
       (\<exists>g2 w3. Group_Get ex_ext ''Sam'' (g1, w2) = Done (Inr (NewByteView ''567''), g2, w3))" by blast
  have "fst (x_now ex_ext w0) = 2" using r w0 by (cases w0) (simp add: ex_ext_def)
  with *(3) have "live_view (fst (x_now ex_ext ([], 50))) x \<noteq> None"
    by (auto simp: lifetime_def live_view_def ex_group_ok ex_ext_def)
  with * show ?thesis by blast
qed

text \<open>
  C9: A miss is loaded: when no peer is responsible and the filter lets the key pass, \<open>load\<close> asks the
  getter and returns what it got; the main tier then holds it with its lifetime, a copy that the hot
  tier had (another goroutine may have put one there since the tiers were looked at) is gone and its
  other entries are kept, and with a store on disk the last thing that happened to the world is that
  the bytes were put there. \<open>Get\<close> does just this when neither tier nor the negative cache holds the key.
  The conditions are that the value fits into the main tier and that the durations of the group are
  such that TTL and jitter add up to a duration.
\<close>

theorem group_miss_loads:
  assumes "group_inv g" and "g_mainCache g \<noteq> None"
    and "w0 = (if g_negTTL g \<le> 0 then w else snd (x_now E w))"
    and "\<And>pp. x_peers E = Some pp \<Longrightarrow> pp_PickPeer pp key w0 = []"
    and "maybeRotateMissBloom E (g, w0) = (g1, w1)" and "\<not> blocked E key g1"
    and "x_getter E key w1 = (Inr bs, w2)" and "fits Main g key (NewByteView bs)"
    and "durations_ok g" and "rand_ok E"
  shows "\<exists>g' w3 w' x. load E key (g, w0) = Done (Inr (NewByteView bs), g', w') \<and>
    (key \<noteq> [] \<and> (\<forall>t. held t g key = None) \<and> g_negUntil g key = None \<longrightarrow>
       Group_Get E key (g, w) = Done (Inr (NewByteView bs), g', w')) \<and>
    group_inv g' \<and> lifetime g (fst (x_now E w2)) (NewByteView bs) x \<and> held Main g' key = Some x \<and>
    held Main g' \<subseteq>\<^sub>m (held Main g)(key \<mapsto> x) \<and> held Hot g' = (held Hot g)(key := None) \<and>
    w' = (if g_persist g = None then w3
          else snd (BoltStore_Put (x_bolt E) (g_persist g) (g_name g) key bs w3))"
proof -
  have load: "load E key (g, w0) = load_getter E key (g, w0)" by (rule load_no_peer [OF assms(4)])
  have "Group_Get E key (g, w) = load E key (g, w0)"
    if "key \<noteq> []" "\<And>t. held t g key = None" "g_negUntil g key = None"
    by (simp add: Group_Get_absent [OF assms(1) that(1,2)] peekNegative_absent [OF that(3)] assms(3))
  with load_getter_value [OF assms(1,5-10,2)] load show ?thesis
    by (fastforce simp: ByteSlice_NewByteView)
qed

text \<open>A group whose hot tier has an older copy of the key, as \<open>load\<close> puts it there for a peer's answer.\<close>

definition hot_group :: "string list Group" where
  "hot_group = (case putTier ex_ext Hot ''Tom'' (NewByteView ''629'') (ex_group, ([([''g''], [])], 1)) of
     Done (g, _) \<Rightarrow> g)"

lemma hot_group_ok:
  "group_inv hot_group" "config hot_group = config ex_group"
  "tier_cache Main hot_group = tier_cache Main ex_group" "\<exists>x. held Hot hot_group ''Tom'' = Some x"
proof -
  have "fits Hot ex_group ''Tom'' (NewByteView ''629'')" by code_simp
  from putTier_ok [OF ex_group_ok(1) this ex_durations ex_ext_rand, of "([([''g''], [])], 1)"]
  obtain g' w' where *: "putTier ex_ext Hot ''Tom'' (NewByteView ''629'') (ex_group, ([([''g''], [])], 1)) =
      Done (g', w')" "put_done Hot ''Tom'' (NewByteView ''629'') (fst (x_now ex_ext ([([''g''], [])], 1))) ex_group g'"
    by blast
  then have "hot_group = g'" by (simp add: hot_group_def)
  moreover have "tier_cache Hot ex_group \<noteq> None" by code_simp
  ultimately show "group_inv hot_group" "config hot_group = config ex_group"
    "tier_cache Main hot_group = tier_cache Main ex_group" "\<exists>x. held Hot hot_group ''Tom'' = Some x"
    using *(2) by (auto simp: put_done_def)
qed

theorem group_miss_loads_witness:
  "(\<exists>x. held Hot hot_group ''Tom'' = Some x) \<and>
   (\<exists>g' w' x. load ex_ext ''Tom'' (hot_group, ([([''g''], [])], 6)) = Done (Inr (NewByteView ''630''), g', w') \<and>
     held Main g' ''Tom'' = Some x \<and> held Hot g' ''Tom'' = None)"
proof -
  let ?w = "([([''g''], [])], 5 :: int)" and ?wb = "([([''g''], [])], 6 :: int)"
  obtain g1 w1 where r: "maybeRotateMissBloom ex_ext (hot_group, ?wb) = (g1, w1)" by (meson surj_pair)
  have "\<not> blocked ex_ext ''Tom'' (fst (maybeRotateMissBloom ex_ext (hot_group, ?wb)))" by code_simp
  then have b: "\<not> blocked ex_ext ''Tom'' g1" using r by simp
  have e: "x_getter ex_ext ''Tom'' w1 = (Inr ''630'', w1)" "x_peers ex_ext = None"
    by (simp_all add: ex_ext_def)
  have t: "?wb = (if g_negTTL hot_group \<le> 0 then ?w else snd (x_now ex_ext ?w))"
    using configD(4) [OF hot_group_ok(2)] by (simp add: ex_ext_def ex_group_ok)
  have "g_mainCache hot_group \<noteq> None" "fits Main hot_group ''Tom'' (NewByteView ''630'')"
    using hot_group_ok(3) ex_group_ok(3) ex_fits(2) by (simp_all add: fits_def)
  from group_miss_loads [OF hot_group_ok(1) this(1) t _ r b e(1) this(2) _ ex_ext_rand] e(2)
    durations_config [OF hot_group_ok(2)] ex_durations hot_group_ok(4)
  show ?thesis by fastforce
qed

text \<open>
  C10: Misses are remembered: when the getter answers, directly or wrapped, that the key does not
  exist, \<open>Get\<close> passes that on, records the key until the negative TTL from now and adds it to the
  filter; until then every \<open>Get\<close> of the key answers \<open>ErrNotFound\<close>, and all it does to the world
  is to read the clock: neither getter nor peers nor disk are asked.
\<close>

theorem group_negative_cache:
  assumes "group_inv g" and "key \<noteq> []" and "\<And>t. held t g key = None"
    and "g_negUntil g key = None" and "0 < g_negTTL g"
    and "\<And>pp. x_peers E = Some pp \<Longrightarrow> pp_PickPeer pp key (snd (x_now E w)) = []"
    and "maybeRotateMissBloom E (g, snd (x_now E w)) = (g1, w1)" and "\<not> blocked E key g1"
    and "x_getter E key w1 = (Inl err, w2)" and "errors_Is err ErrNotFound"
  shows "\<exists>g' w3. Group_Get E key (g, w) = Done (Inl err, g', w3) \<and>
    g_negUntil g' key = Some (fst (x_now E w2) + g_negTTL g) \<and>
    g_missBloom g' = map_option (\<lambda>b. x_bloomAdd E b key) (g_missBloom g1) \<and>
    (\<forall>w4. fst (x_now E w4) \<le> fst (x_now E w2) + g_negTTL g \<longrightarrow>
       Group_Get E key (g', w4) =
         Done (Inl ErrNotFound, inc NegativeCacheHits [g_name g] g', snd (x_now E w4)))"
proof -
  note r = rotate_frame [OF assms(7)]
  let ?s1 = "(inc LoadErrors [g_name g1, ''getter''] g1, w2)"
  obtain g' w3 where rec: "recordNotFound E key ?s1 = (g', w3)" by fastforce
  note f = recordNotFound_frame [OF rec]
  have "Group_Get E key (g, w) = load_getter E key (g, snd (x_now E w))"
    using assms(5) by (simp add: Group_Get_absent [OF assms(1-3)] peekNegative_absent [OF assms(4)]
        load_no_peer [OF assms(6)])
  also have "\<dots> = Done (Inl err, g', w3)"
    using load_getter_error [OF assms(7-9)] assms(10) rec by simp
  finally have get: "Group_Get E key (g, w) = Done (Inl err, g', w3)" .
  have c: "config g' = config g" using f(3) r(3) by simp
  have neg: "g_negUntil g' key = Some (fst (x_now E w2) + g_negTTL g)"
    using f(5) configD(4) [OF r(3)] assms(5) by simp
  have inv: "group_inv g'" using f(4) r(5) assms(1) by simp
  have none: "held t g' key = None" for t using f(2) [of t] r(2) [of t] assms(3) by simp
  have "Group_Get E key (g', w4) =
      Done (Inl ErrNotFound, inc NegativeCacheHits [g_name g] g', snd (x_now E w4))"
    if "fst (x_now E w4) \<le> fst (x_now E w2) + g_negTTL g" for w4
    using configD(1,4) [OF c] assms(5)
    by (simp add: Group_Get_absent [OF inv assms(2) none] peekNegative_hit [OF neg that])
  with get neg f(6) show ?thesis by (intro exI conjI) (assumption | simp)+
qed

theorem group_negative_cache_witness:
  "\<exists>g' w3. Group_Get ex_ext ''Bob'' (ex_group, ([([''g''], [])], 1)) = Done (Inl (Wrapf ''db'' ErrNotFound), g', w3) \<and>
     Group_Get ex_ext ''Bob'' (g', ([], 40)) =
       Done (Inl ErrNotFound, inc NegativeCacheHits [''scores''] g', ([], 41))"
proof -
  let ?w = "([([''g''], [])], 1)"
  obtain g1 w1 where r: "maybeRotateMissBloom ex_ext (ex_group, snd (x_now ex_ext ?w)) = (g1, w1)"
    by (meson surj_pair)
  have n: "g_negUntil ex_group ''Bob'' = None" by code_simp
  have "\<not> blocked ex_ext ''Bob'' (fst (maybeRotateMissBloom ex_ext (ex_group, snd (x_now ex_ext ?w))))"
    "snd (snd (maybeRotateMissBloom ex_ext (ex_group, snd (x_now ex_ext ?w)))) = 3" by code_simp+
  then have b: "\<not> blocked ex_ext ''Bob'' g1" and t: "snd w1 = 3" using r by simp_all
  have g: "x_getter ex_ext ''Bob'' w1 = (Inl (Wrapf ''db'' ErrNotFound), w1)" by (simp add: ex_ext_def)
  have p: "x_peers ex_ext = None" by (simp add: ex_ext_def)
  have now: "x_now ex_ext ([], 40) = (40, [], 41)" "fst (x_now ex_ext w1) = 3"
    using t by (cases w1; simp add: ex_ext_def)+
  have "errors_Is (Wrapf ''db'' ErrNotFound) ErrNotFound" "(0::int) < g_negTTL ex_group" "''Bob'' \<noteq> []"
    by (simp_all add: ex_group_ok)
  from group_negative_cache [OF ex_group_ok(1) this(3) _ n this(2) _ r b g this(1)] p
  obtain g' w3 where *: "Group_Get ex_ext ''Bob'' (ex_group, ?w) = Done (Inl (Wrapf ''db'' ErrNotFound), g', w3)"
    "\<forall>w4. fst (x_now ex_ext w4) \<le> fst (x_now ex_ext w1) + g_negTTL ex_group \<longrightarrow>
       Group_Get ex_ext ''Bob'' (g', w4) =
         Done (Inl ErrNotFound, inc NegativeCacheHits [g_name ex_group] g', snd (x_now ex_ext w4))"
    by (auto simp: ex_group_ok(2))
  from *(2) [rule_format, of "([], 40)"] now *(1) show ?thesis by (simp add: ex_group_ok)
qed

text \<open>
  C11: An expired entry is never served: when what the tiers hold under the key is past its deadline by
  the clocks that \<open>Get\<close> reads when it looks at them, first at the main tier and then at the hot one,
  \<open>Get\<close> has removed it from both tiers before it goes on to the negative cache and to loading the key;
  other keys are untouched. An entry that expired in the main tier is deleted on disk as well.
\<close>

theorem group_expired_dropped:
  assumes "group_inv g" and "key \<noteq> []" and "peekTier E Main key (g, w) = Done (r, g1, w1)"
    and "\<And>x. held Main g key = Some x \<Longrightarrow> live_view (fst (x_now E w)) x = None"
    and "\<And>x. held Hot g key = Some x \<Longrightarrow> live_view (fst (x_now E w1)) x = None"
  shows "(\<exists>g2 w2. Group_Get E key (g, w) =
      (case peekNegative E key (g2, w2) of
         (True, g3, w3) \<Rightarrow> Done (Inl ErrNotFound, inc NegativeCacheHits [g_name g3] g3, w3)
       | (False, g3, w3) \<Rightarrow> load E key (g3, w3)) \<and>
      group_inv g2 \<and> config g2 = config g \<and> misses g2 = misses g \<and>
      (\<forall>t. held t g2 = (held t g)(key := None))) \<and>
    (held Main g key \<noteq> None \<longrightarrow> r = None \<and>
       w1 = (if g_persist g = None then snd (x_now E w)
             else snd (BoltStore_Delete (x_bolt E) (g_persist g) (g_name g) key (snd (x_now E w)))))"
proof -
  have "\<exists>g2 w2. Group_Get E key (g, w) =
      (case peekNegative E key (g2, w2) of
         (True, g3, w3) \<Rightarrow> Done (Inl ErrNotFound, inc NegativeCacheHits [g_name g3] g3, w3)
       | (False, g3, w3) \<Rightarrow> load E key (g3, w3)) \<and>
    group_inv g2 \<and> config g2 = config g \<and> misses g2 = misses g \<and>
    (\<forall>t. held t g2 = (held t g)(key := None)) \<and>
    (\<forall>t. tier_cache t g2 = None \<longleftrightarrow> tier_cache t g = None)"
    using assms(3,5) by (intro Group_Get_miss [OF assms(1,2,4)]) simp_all
  moreover have "r = None \<and> w1 = (if g_persist g = None then snd (x_now E w)
      else snd (BoltStore_Delete (x_bolt E) (g_persist g) (g_name g) key (snd (x_now E w))))"
    if "held Main g key \<noteq> None" using peekTier_expired [OF assms(1) _ assms(4,3)] that by blast
  ultimately show ?thesis by blast
qed

text \<open>A value that was set at time 1, with a TTL of 100 and a jitter of up to 10, and is read at time 200.\<close>

theorem group_expired_dropped_witness:
  "\<exists>err g w x r g1 w1 g2 w2. Group_Set ex_ext ''Sam'' ''567'' (ex_group, ([([''g''], [])], 1)) = Done (err, g, w) \<and>
     held Main g ''Sam'' = Some x \<and>
     peekTier ex_ext Main ''Sam'' (g, ([([''g''], [])], 200)) = Done (r, g1, w1) \<and> r = None \<and>
     Group_Get ex_ext ''Sam'' (g, ([([''g''], [])], 200)) =
       (case peekNegative ex_ext ''Sam'' (g2, w2) of
          (True, g3, w3) \<Rightarrow> Done (Inl ErrNotFound, inc NegativeCacheHits [g_name g3] g3, w3)
        | (False, g3, w3) \<Rightarrow> load ex_ext ''Sam'' (g3, w3)) \<and>
     held Main g2 ''Sam'' = None"
proof -
  let ?w = "([([''g''], [])], 1)" and ?w' = "([([''g''], [])], 200)"
  let ?g = "ex_group\<lparr>g_negUntil := (g_negUntil ex_group)(''Sam'' := None)\<rparr>"
  obtain g0 w0 where r0: "resetMissBloom ex_ext (?g, ?w) = (g0, w0)" by (meson surj_pair)
  have "snd (snd (resetMissBloom ex_ext (?g, ?w))) = 2" by code_simp
  then have t0: "fst (x_now ex_ext w0) = 2" using r0 by (cases w0) (simp add: ex_ext_def)
  have f: "forwards ex_ext ''Sam'' ?w = None" by (simp add: forwards_def peerWriter_def ex_ext_def)
  from setLocalAndBroadcast_ok [OF ex_group_ok(1,3) ex_fits(1) ex_durations ex_ext_rand r0]
  obtain err g w x where g: "setLocalAndBroadcast ex_ext ''Sam'' ''567'' (ex_group, ?w) = Done (err, g, w)"
    "group_inv g" "lifetime ex_group 2 (NewByteView ''567'') x" "held Main g ''Sam'' = Some x"
    "held Hot g = (held Hot ex_group)(''Sam'' := None)" unfolding t0 by blast
  have set: "Group_Set ex_ext ''Sam'' ''567'' (ex_group, ?w) = Done (err, g, w)"
    using g(1) f by (simp add: Group_Set_def)
  have main: "live_view (fst (x_now ex_ext ?w')) y = None" if "held Main g ''Sam'' = Some y" for y
    using that g(3,4) by (auto simp: lifetime_def live_view_def ex_group_ok ex_ext_def)
  obtain r g1 w1 where p: "peekTier ex_ext Main ''Sam'' (g, ?w') = Done (r, g1, w1)"
    using peekTier_ok [OF g(2), of ex_ext Main "''Sam''" ?w'] by blast
  from group_expired_dropped [OF g(2) _ p main] g(4,5) obtain g2 w2 where
    "Group_Get ex_ext ''Sam'' (g, ?w') =
       (case peekNegative ex_ext ''Sam'' (g2, w2) of
          (True, g3, w3) \<Rightarrow> Done (Inl ErrNotFound, inc NegativeCacheHits [g_name g3] g3, w3)
        | (False, g3, w3) \<Rightarrow> load ex_ext ''Sam'' (g3, w3))"
    "held Main g2 = (held Main g)(''Sam'' := None)" "r = None" by auto
  then have "held Main g2 ''Sam'' = None" by simp
  with set g(4) p \<open>r = None\<close> \<open>Group_Get ex_ext ''Sam'' (g, ?w') = _\<close> show ?thesis by blast
qed

text \<open>
  Invalidation is complete on the member that does it: afterwards neither tier, nor the
  negative cache, nor the filter (which starts afresh) knows the key, all other keys are as they
  were, and with a store on disk the last thing that happened to the world is that the key was
  deleted there.
\<close>

theorem group_invalidate_local:
  assumes "group_inv g" and "key \<noteq> []" and "InvalidateLocal E key (g, w) = (err, g', w')"
  shows "err = None \<and> group_inv g' \<and> config g' = config g \<and>
    (\<forall>t. held t g' = (held t g)(key := None)) \<and> g_negUntil g' = (g_negUntil g)(key := None) \<and>
    (g_missBloom g = None \<longrightarrow> g_missBloom g' = None) \<and>
    (g_missBloom g \<noteq> None \<and> 0 < g_bloomN g \<longrightarrow>
       g_missBloom g' = Some (x_bloomNew E (g_bloomN g) (g_bloomFP g))) \<and>
    (\<exists>w0. w' = (if g_persist g = None then w0
       else snd (BoltStore_Delete (x_bolt E) (g_persist g) (g_name g) key w0)))"
  by (rule InvalidateLocal_ok [OF assms])

theorem group_invalidate_local_witness:
  "\<exists>err g' w'. InvalidateLocal ex_ext ''Sam'' (ex_group, ([([''g''], [])], 1)) = (err, g', w') \<and>
     err = None \<and> held Main g' ''Sam'' = None \<and> g_negUntil g' ''Sam'' = None"
proof -
  obtain err g' w' where i: "InvalidateLocal ex_ext ''Sam'' (ex_group, ([([''g''], [])], 1)) = (err, g', w')"
    by (metis surj_pair)
  have "''Sam'' \<noteq> []" by simp
  from group_invalidate_local [OF ex_group_ok(1) this i] i show ?thesis by auto
qed

text \<open>
  What a peer answers goes to the hot tier, or to the main tier when there is no hot one, and
  to nothing else of the group but its metrics; when the peer fails, the getter path is taken as
  if there had been no peer.
\<close>

theorem group_peer_load:
  assumes "group_inv g" and "x_peers E = Some pp" and "pp_PickPeer pp key w = addr" and "addr \<noteq> []"
    and "pp_Get pp addr (g_name g) key (snd (x_now E w)) = Done (res, w1)"
    and "durations_ok g" and "rand_ok E" and "t = (if g_hotCache g \<noteq> None then Hot else Main)"
  shows "(\<forall>bs. res = Inr bs \<and> fits t g key (NewByteView bs) \<and> tier_cache t g \<noteq> None \<longrightarrow>
      (\<exists>g' w' x. load E key (g, w) = Done (Inr (NewByteView bs), g', w') \<and> group_inv g' \<and>
         held t g' key = Some x \<and> lifetime g (fst (x_now E (snd (x_now E w1)))) (NewByteView bs) x \<and>
         misses g' = misses g \<and> (\<forall>u. u \<noteq> t \<longrightarrow> tier_cache u g' = tier_cache u g))) \<and>
    (\<forall>err. res = Inl err \<longrightarrow>
       (\<exists>g1. load E key (g, w) = load_getter E key (g1, snd (x_now E w1)) \<and> same_tiers g g1))"
proof -
  obtain t0 w0 where n0: "x_now E w = (t0, w0)" by fastforce
  obtain t2 w2 where n2: "x_now E w1 = (t2, w2)" by fastforce
  have "\<exists>g1. load E key (g, w) = load_getter E key (g1, w2) \<and> same_tiers g g1"
    if "res = Inl err" for err
    using assms(2-5) that n0 n2
    by (intro exI [of _ "inc LoadErrors [g_name g, ''peer''] (inc PeerRequestDuration [g_name g, pp_Proto pp addr] g)"])
      (simp add: load_def load_fn_def getFromPeer_def Let_def same_tiers_def)
  moreover have "\<exists>g' w' x. load E key (g, w) = Done (Inr (NewByteView bs), g', w') \<and> group_inv g' \<and>
         held t g' key = Some x \<and> lifetime g (fst (x_now E (snd (x_now E w1)))) (NewByteView bs) x \<and>
         misses g' = misses g \<and> (\<forall>u. u \<noteq> t \<longrightarrow> tier_cache u g' = tier_cache u g)"
    if "res = Inr bs" "fits t g key (NewByteView bs)" "tier_cache t g \<noteq> None" for bs
    using load_peer_value [OF assms(1-4) _ assms(6-8) that(2,3), of w1] assms(5) that(1) by blast
  ultimately show ?thesis using n2 by simp
qed

definition peer_ext :: "(mem_world \<times> int, string list) ext" where
  "peer_ext = ex_ext\<lparr>x_peers := Some
     \<lparr>pp_PickPeer = (\<lambda>key _. if key = ''Sam'' then ''http://b'' else []), pp_Proto = (\<lambda>_. ''http''),
      pp_Get = (\<lambda>_ _ _ w. Done (Inr ''567'', w)), pp_writer = None\<rparr>\<rparr>"

theorem group_peer_load_witness:
  "\<exists>g' w' x. load peer_ext ''Sam'' (ex_group, ([], 1)) = Done (Inr (NewByteView ''567''), g', w') \<and>
     held Hot g' ''Sam'' = Some x \<and> tier_cache Main g' = tier_cache Main ex_group"
proof -
  let ?pp = "the (x_peers peer_ext)"
  have e: "x_peers peer_ext = Some ?pp" "pp_PickPeer ?pp ''Sam'' ([], 1) = ''http://b''" "''http://b'' \<noteq> []"
    "pp_Get ?pp ''http://b'' (g_name ex_group) ''Sam'' (snd (x_now peer_ext ([], 1)))
      = Done (Inr ''567'', snd (x_now peer_ext ([], 1)))"
    by (simp_all add: peer_ext_def)
  have r: "rand_ok peer_ext" by (simp add: peer_ext_def rand_ok_def ex_ext_def)
  have hot: "g_hotCache ex_group \<noteq> None" by code_simp
  have "fits Hot ex_group ''Sam'' (NewByteView ''567'')" by code_simp
  with group_peer_load [OF ex_group_ok(1) e ex_durations r refl] hot show ?thesis by fastforce
qed

text \<open>
  C12: No type assertion fails and \<open>Int63n\<close> is never called with a bad argument. On a group whose
  tiers hold what \<open>putTier\<close> stores, whose jitter is below the largest duration (\<open>jitter_ok\<close>) and whose
  peers can be called without a panic (\<open>peers_callable\<close>; a stopped pool cannot), neither \<open>Get\<close> nor
  \<open>Set\<close> panics, for any key, value, getter and clock.
\<close>

theorem group_no_panic:
  assumes "group_inv g" and "jitter_ok g" and "peers_callable E"
  shows "Group_Get E key (g, w) \<noteq> Panics msg \<and> Group_Set E key value (g, w) \<noteq> Panics msg"
  using Group_Get_no_panic [OF assms, of key w] Group_Set_no_panic [OF assms(2), of E key "value" w]
  by (simp add: no_panic_iff)

theorem group_no_panic_witness:
  "group_inv ex_group \<and> jitter_ok ex_group \<and>
   Group_Get ex_ext ''Tom'' (ex_group, ([], 1)) \<noteq> Panics ''interface conversion: ttlEntry, not ByteView''"
proof -
  have j: "jitter_ok ex_group" by (simp add: jitter_ok_def ex_group_ok)
  have p: "peers_callable ex_ext" by (simp add: peers_callable_def ex_ext_def)
  from group_no_panic [OF ex_group_ok(1) j p, of "''Tom''" "([], 1)"] j ex_group_ok(1)
  show ?thesis by blast
qed

text \<open>
  The lifetime of an entry lies between the TTL and the TTL plus the jitter as long as their
  sum is a duration of 64 bits. With the largest duration as jitter the argument of \<open>Int63n\<close>
  wraps around to a negative number, and the call panics.
\<close>

theorem group_ttl_jitter:
  assumes "rand_ok E" and "0 < g_ttl g"
  shows "(g_ttl g + max 0 (g_ttlJitter g) < 2 ^ 63 \<longrightarrow>
      (\<exists>d w'. cacheTTLWithJitter E g w = Done (d, w') \<and> g_ttl g \<le> d \<and>
         d \<le> g_ttl g + max 0 (g_ttlJitter g))) \<and>
    (g_ttlJitter g = 2 ^ 63 - 1 \<longrightarrow>
      cacheTTLWithJitter E g w = Panics ''invalid argument to Int63n'')"
  using cacheTTL_bounds [OF assms(1) _ assms(2), of w] assms(2)
  by (auto simp: durations_ok_def cacheTTLWithJitter_def wrap64_def Let_def)

theorem group_ttl_jitter_witness:
  "rand_ok ex_ext \<and> 0 < g_ttl ex_group \<and>
   (\<exists>d w'. cacheTTLWithJitter ex_ext ex_group ([], 1) = Done (d, w') \<and> 100 \<le> d \<and> d \<le> 110)"
proof -
  have t: "0 < g_ttl ex_group" by (simp add: ex_group_ok)
  from group_ttl_jitter [OF ex_ext_rand t, of "([], 1)"] ex_ext_rand t show ?thesis
    by (simp add: ex_group_ok)
qed

end
