(* ===== verification/HTTPPool.thy ===== *)
theory HTTPPool
  imports PeerClients ConsistentHash Registry GroupProps
begin

text \<open>
  The pool of \<open>geecache/http.go\<close>: the ring of members, the clients for them, ownership, forwarding
  and broadcasting, registration in etcd and shutdown. The struct is a record, its maps are maps;
  where the code ranges over a map, the order of the visit is an argument. The network and etcd are
  the parameters \<open>net\<close> and \<open>etcd\<close>. \<open>ServeHTTP\<close> is in \<open>Server\<close>.
\<close>

section \<open>The pool\<close>

record HTTPPool =
  p_self :: string
  p_basePath :: string
  p_peers :: Map
  p_httpGetters :: "string \<Rightarrow> httpGetter option"
  p_grpcClients :: "string \<Rightarrow> GRPCClient option"
  p_registry :: "EtcdRegistry option"
  p_useGRPC :: bool
  p_invalPrefix :: string
  p_invalCancel :: bool
  p_peerAuthToken :: string
  p_peerClientTLS :: "tls_Config option"

definition defaultPath :: string where
  "defaultPath = ''/geecache''"

definition DefaultEtcdInvalidationPrefix :: string where
  "DefaultEtcdInvalidationPrefix = ''/geecache/inval/''"

text \<open>The refusal of peers that are not \<open>https\<close> when TLS is on: the first such peer.\<close>

definition tls_offender :: "string list \<Rightarrow> string option" where
  "tls_offender peers =
     List.find (\<lambda>peer. TrimSpace peer \<noteq> [] \<and> \<not> HasPrefix (TrimSpace peer) ''https://'') peers"

definition make_getters :: "HTTPPool \<Rightarrow> string list \<Rightarrow> string \<Rightarrow> httpGetter option" where
  "make_getters p peers =
     fold (\<lambda>peer m. m(peer \<mapsto> NewHTTPGetter peer (p_basePath p) (p_peerAuthToken p) (p_peerClientTLS p)))
       peers Map.empty"

definition make_grpcClients :: "'w net \<Rightarrow> HTTPPool \<Rightarrow> string list \<Rightarrow> string \<Rightarrow> GRPCClient option" where
  "make_grpcClients N p peers =
     fold (\<lambda>peer m. case NewGRPCClient N peer (grpcTarget peer) (p_peerAuthToken p) (p_peerClientTLS p) of
        Inl err \<Rightarrow> m
      | Inr c \<Rightarrow> m(peer \<mapsto> c)) peers Map.empty"

definition Pool_Set :: "'w net \<Rightarrow> string list \<Rightarrow> HTTPPool \<Rightarrow> error option \<times> HTTPPool" where
  "Pool_Set N peers p =
     (case (if p_peerClientTLS p \<noteq> None then tls_offender peers else None) of
        Some peer \<Rightarrow>
          (Some (Errorf ''geecache: peer TLS enabled: peer URL must use https://''), p)
      | None \<Rightarrow>
          (None, p\<lparr>p_peers := Map_Add (Map_New 3 None) peers, p_httpGetters := make_getters p peers,
             p_grpcClients := make_grpcClients N p peers\<rparr>))"

definition AddPeers :: "'w net \<Rightarrow> string list \<Rightarrow> HTTPPool \<Rightarrow> error option \<times> HTTPPool" where
  "AddPeers N peers p = Pool_Set N peers p"

definition NewHTTPPool :: "'w net \<Rightarrow> string \<Rightarrow> string list \<Rightarrow> HTTPPool" where
  "NewHTTPPool N self peers =
     snd (AddPeers N peers
       \<lparr>p_self = self, p_basePath = defaultPath, p_peers = Map_New 3 None, p_httpGetters = (\<lambda>_. None),
        p_grpcClients = (\<lambda>_. None), p_registry = None, p_useGRPC = False, p_invalPrefix = [],
        p_invalCancel = False, p_peerAuthToken = [], p_peerClientTLS = None\<rparr>)"

definition SetRegistry :: "EtcdRegistry option \<Rightarrow> HTTPPool \<Rightarrow> HTTPPool" where
  "SetRegistry reg p = p\<lparr>p_registry := reg\<rparr>"

definition SetPeerAuthToken :: "string \<Rightarrow> HTTPPool \<Rightarrow> HTTPPool" where
  "SetPeerAuthToken token p = p\<lparr>p_peerAuthToken := token\<rparr>"

definition SetPeerClientTLS :: "tls_Config option \<Rightarrow> HTTPPool \<Rightarrow> HTTPPool" where
  "SetPeerClientTLS cfg p = p\<lparr>p_peerClientTLS := cfg\<rparr>"

definition UseGRPC :: "bool \<Rightarrow> HTTPPool \<Rightarrow> HTTPPool" where
  "UseGRPC b p = p\<lparr>p_useGRPC := b\<rparr>"

definition RemovePeer :: "'w net \<Rightarrow> string \<Rightarrow> HTTPPool \<times> 'w \<Rightarrow> HTTPPool \<times> 'w" where
  "RemovePeer N peer = (\<lambda>(p, w).
     let p1 = p\<lparr>p_peers := Map_Remove (p_peers p) peer,
               p_httpGetters := (p_httpGetters p)(peer := None)\<rparr> in
     case p_grpcClients p peer of
       None \<Rightarrow> (p1, w)
     | Some c \<Rightarrow>
         (p1\<lparr>p_grpcClients := (p_grpcClients p)(peer := None)\<rparr>, snd (n_Close N (c_target c) w)))"

section \<open>Ownership\<close>

text \<open>
  A \<open>PeerGetter\<close> that is not \<open>nil\<close>: a gRPC client, or the entry of \<open>httpGetters\<close>, which is a
  \<open>nil\<close> pointer inside the interface when there is none.
\<close>

datatype PeerGetter = PGrpc GRPCClient | PHttp "httpGetter option"

definition peer_client :: "HTTPPool \<Rightarrow> string \<Rightarrow> PeerGetter" where
  "peer_client p peer =
     (case (if p_useGRPC p then p_grpcClients p peer else None) of
        Some c \<Rightarrow> PGrpc c
      | None \<Rightarrow> PHttp (p_httpGetters p peer))"

definition PickPeer :: "HTTPPool \<Rightarrow> string \<Rightarrow> PeerGetter option \<times> string" where
  "PickPeer p key =
     (let peer = Map_Get (p_peers p) key in
      if peer = [] \<or> peer = p_self p then (None, []) else (Some (peer_client p peer), peer))"

definition IsOwner :: "HTTPPool \<Rightarrow> string \<Rightarrow> bool" where
  "IsOwner p key \<longleftrightarrow> fst (PickPeer p key) = None"

definition ownerForKey :: "HTTPPool \<Rightarrow> string \<Rightarrow> error + string" where
  "ownerForKey p key =
     (if Map_IsEmpty (p_peers p) then Inl (Errorf ''geecache: no peer ring'')
      else
        (let owner = Map_Get (p_peers p) key in
         if owner = [] \<or> owner = p_self p then Inl (Errorf ''geecache: local node owns key'')
         else Inr owner))"

text \<open>The methods of the interface; a \<open>nil\<close> \<open>httpGetter\<close> has a protocol and nothing else.\<close>

fun PeerGetter_Get ::
  "'w net \<Rightarrow> PeerGetter \<Rightarrow> string \<Rightarrow> string \<Rightarrow> 'w \<Rightarrow> ((error + bytes) \<times> 'w) outcome" where
  "PeerGetter_Get N (PGrpc c) grp key w = Done (GRPCClient_Get N c grp key w)"
| "PeerGetter_Get N (PHttp (Some h)) grp key w = Done (httpGetter_Get N h grp key w)"
| "PeerGetter_Get N (PHttp None) grp key w = Panics ''nil pointer dereference''"

fun PeerGetter_Proto :: "PeerGetter \<Rightarrow> string" where
  "PeerGetter_Proto (PGrpc c) = GRPCClient_Proto c"
| "PeerGetter_Proto (PHttp h) = httpGetter_Proto h"

section \<open>Writing\<close>

definition ForwardSet ::
  "'w net \<Rightarrow> HTTPPool \<Rightarrow> string \<Rightarrow> string \<Rightarrow> bytes \<Rightarrow> 'w \<Rightarrow> error option \<times> 'w" where
  "ForwardSet N p grp key val w =
     (case ownerForKey p key of
        Inl err \<Rightarrow> (Some err, w)
      | Inr owner \<Rightarrow>
          (case (if p_useGRPC p then p_grpcClients p owner else None) of
             Some gc \<Rightarrow> GRPCClient_Set N gc grp key val w
           | None \<Rightarrow>
               (case p_httpGetters p owner of
                  None \<Rightarrow> (Some (Errorf (''geecache: ForwardSet: no client for owner '' @ owner)), w)
                | Some hg \<Rightarrow> httpGetter_Set N hg grp key val w)))"

definition ForwardPurge ::
  "'w net \<Rightarrow> HTTPPool \<Rightarrow> string \<Rightarrow> string \<Rightarrow> 'w \<Rightarrow> error option \<times> 'w" where
  "ForwardPurge N p grp key w =
     (case ownerForKey p key of
        Inl err \<Rightarrow> (Some err, w)
      | Inr owner \<Rightarrow>
          (case (if p_useGRPC p then p_grpcClients p owner else None) of
             Some gc \<Rightarrow> GRPCClient_Purge N gc grp key w
           | None \<Rightarrow>
               (case p_httpGetters p owner of
                  None \<Rightarrow> (Some (Errorf (''geecache: ForwardPurge: no client for owner '' @ owner)), w)
                | Some hg \<Rightarrow> httpGetter_Purge N hg grp key w)))"

definition publishInvalidationViaEtcd ::
  "'w etcd \<Rightarrow> HTTPPool \<Rightarrow> string \<Rightarrow> string \<Rightarrow> 'w \<Rightarrow> 'w" where
  "publishInvalidationViaEtcd D p grp key w =
     (case p_registry p of
        None \<Rightarrow> w
      | Some reg \<Rightarrow>
          if p_invalPrefix p = [] then w
          else
            (case PutKV D (etcdInvalKey (p_invalPrefix p) grp key) ''1'' (reg, w) of (_, _, w1) \<Rightarrow> w1))"

text \<open>One peer of the broadcast.\<close>

definition invalidate_peer ::
  "'w net \<Rightarrow> HTTPPool \<Rightarrow> string \<Rightarrow> string \<Rightarrow> string \<Rightarrow> 'w \<Rightarrow> error option \<times> 'w" where
  "invalidate_peer N p grp key peer w =
     (case (if p_useGRPC p then p_grpcClients p peer else None) of
        Some gc \<Rightarrow> GRPCClient_Invalidate N gc grp key w
      | None \<Rightarrow>
          (case p_httpGetters p peer of
             Some hg \<Rightarrow> httpGetter_Invalidate N hg grp key w
           | None \<Rightarrow> (Some (Errorf (''no invalidate transport for peer '' @ peer)), w)))"

text \<open>\<open>order\<close> is the order in which \<open>range clients\<close> visits them; the first error is kept.\<close>

definition BroadcastInvalidate ::
  "'w net \<Rightarrow> 'w etcd \<Rightarrow> string list \<Rightarrow> HTTPPool \<Rightarrow> string \<Rightarrow> string \<Rightarrow> 'w \<Rightarrow> error option \<times> 'w" where
  "BroadcastInvalidate N D order p grp key w =
     (case fold (\<lambda>peer (firstErr, w).
             case invalidate_peer N p grp key peer w of
               (err, w1) \<Rightarrow>
                 (case (firstErr, err) of
                    (None, Some e) \<Rightarrow> (Some (Wrapf (''peer '' @ peer) e), w1)
                  | _ \<Rightarrow> (firstErr, w1))) order (None, w) of
        (firstErr, w1) \<Rightarrow> (firstErr, publishInvalidationViaEtcd D p grp key w1))"

definition broadcast_peers :: "HTTPPool \<Rightarrow> string set" where
  "broadcast_peers p = dom (p_httpGetters p) - {p_self p}"

section \<open>Discovery in etcd\<close>

datatype event_type = EventTypePut | EventTypeDelete

record Event =
  ev_Type :: event_type
  ev_Key :: string
  ev_Value :: string

text \<open>The handler of \<open>reg.Watch\<close>.\<close>

definition node_event :: "'w net \<Rightarrow> Event \<Rightarrow> HTTPPool \<times> 'w \<Rightarrow> HTTPPool \<times> 'w" where
  "node_event N ev = (\<lambda>(p, w).
     case ev_Type ev of
       EventTypePut \<Rightarrow> (snd (AddPeers N [ev_Value ev] p), w)
     | EventTypeDelete \<Rightarrow> RemovePeer N (ev_Value ev) (p, w))"

definition nodesPrefix :: string where
  "nodesPrefix = ''/geecache/nodes/''"

text \<open>
  The goroutine for the lease is answered with a success; \<open>log.Fatalf\<close> in \<open>NewEtcdRegistry\<close> ends
  the process. After a success the watch delivers events to \<open>node_event\<close>.
\<close>

definition RegisterWithEtcd ::
  "'w net \<Rightarrow> 'w etcd \<Rightarrow> error option \<Rightarrow> int \<Rightarrow> HTTPPool \<times> 'w \<Rightarrow>
   ((error + lease_loop) \<times> HTTPPool \<times> 'w) outcome" where
  "RegisterWithEtcd N D dial ttl = (\<lambda>(p, w).
     case NewEtcdRegistry dial of
       None \<Rightarrow> Panics ''log.Fatalf''
     | Some reg \<Rightarrow>
         (case Register D (nodesPrefix @ p_self p) (p_self p) ttl (reg, w) of
            (Inl err, r1, w1) \<Rightarrow> Done (Inl err, p\<lparr>p_registry := Some r1\<rparr>, w1)
          | (Inr loop, r1, w1) \<Rightarrow>
              obind (GetServices D nodesPrefix (r1, w1))
                (\<lambda>(res, r2, w2).
                   let p2 = p\<lparr>p_registry := Some r2\<rparr> in
                   case res of
                     Inl err \<Rightarrow> Done (Inl err, p2, w2)
                   | Inr services \<Rightarrow>
                       (case Pool_Set N services p2 of
                          (Some err, p3) \<Rightarrow> Done (Inl err, p3, w2)
                        | (None, p3) \<Rightarrow> Done (Inr loop, p3, w2)))))"

definition EnableEtcdInvalidation :: "string \<Rightarrow> HTTPPool \<Rightarrow> error option \<times> HTTPPool" where
  "EnableEtcdInvalidation prefix p =
     (if prefix = [] then (Some (Errorf ''geecache: invalidation prefix empty''), p)
      else
        (let prefix = (if last prefix = CHR ''/'' then prefix else prefix @ ''/'') in
         if p_registry p = None
         then (Some (Errorf ''geecache: EnableEtcdInvalidation: call RegisterWithEtcd first''), p)
         else (None, p\<lparr>p_invalPrefix := prefix, p_invalCancel := True\<rparr>)))"

section \<open>Shutdown\<close>

text \<open>\<open>order\<close> is the order in which \<open>range p.grpcClients\<close> visits them.\<close>

definition Pool_Stop ::
  "'w net \<Rightarrow> 'w etcd \<Rightarrow> string list \<Rightarrow> HTTPPool \<times> 'w \<Rightarrow> error option \<times> HTTPPool \<times> 'w" where
  "Pool_Stop N D order = (\<lambda>(p, w).
     let w1 = fold (\<lambda>peer w. snd (GRPCClient_Close N (p_grpcClients p peer) w)) order w;
         p1 = p\<lparr>p_invalCancel := False, p_invalPrefix := [], p_registry := None,
               p_grpcClients := (\<lambda>_. None), p_httpGetters := (\<lambda>_. None)\<rparr>
     in case p_registry p of
          None \<Rightarrow> (None, p1, w1)
        | Some reg \<Rightarrow> (case RevokeAndClose D (reg, w1) of (_, err, _, w2) \<Rightarrow> (err, p1, w2)))"

section \<open>The pool as peers of a group\<close>

definition pool_writer :: "'w net \<Rightarrow> 'w etcd \<Rightarrow> string list \<Rightarrow> HTTPPool \<Rightarrow> 'w PeerWriter" where
  "pool_writer N D order p =
     \<lparr>pw_IsOwner = (\<lambda>key w. IsOwner p key), pw_ForwardSet = ForwardSet N p,
      pw_ForwardPurge = ForwardPurge N p, pw_BroadcastInvalidate = BroadcastInvalidate N D order p\<rparr>"

definition pool_picker :: "'w net \<Rightarrow> 'w etcd \<Rightarrow> string list \<Rightarrow> HTTPPool \<Rightarrow> 'w PeerPicker" where
  "pool_picker N D order p =
     \<lparr>pp_PickPeer = (\<lambda>key w. snd (PickPeer p key)),
      pp_Proto = (\<lambda>addr. PeerGetter_Proto (peer_client p addr)),
      pp_Get = (\<lambda>addr grp key w. PeerGetter_Get N (peer_client p addr) grp key w),
      pp_writer = Some (pool_writer N D order p)\<rparr>"

section \<open>What the pool guarantees a group\<close>

text \<open>
  The contract between a group and its peers: the owner test agrees with the choice of a peer, and a
  chosen peer can be called.
\<close>

locale peer_service =
  fixes invar :: "'p \<Rightarrow> bool"
    and picker :: "'p \<Rightarrow> 'w PeerPicker"
    and writer :: "'p \<Rightarrow> 'w PeerWriter"
  assumes picker_writer: "pp_writer (picker p) = Some (writer p)"
    and owner_iff: "invar p \<Longrightarrow> pw_IsOwner (writer p) key w \<longleftrightarrow> pp_PickPeer (picker p) key w = []"
    and callable: "invar p \<Longrightarrow> pp_PickPeer (picker p) key w \<noteq> [] \<Longrightarrow>
      no_panic (pp_Get (picker p) (pp_PickPeer (picker p) key w) grp key w')"
begin

lemma peers_callable: "invar p \<Longrightarrow> x_peers E = Some (picker p) \<Longrightarrow> peers_callable E"
  by (auto simp: peers_callable_def callable)

lemma forwards_iff:
  assumes "invar p" and "x_peers E = Some (picker p)"
  shows "forwards E key w = (if pp_PickPeer (picker p) key w = [] then None else Some (writer p))"
  using assms by (simp add: forwards_def peerWriter_def picker_writer owner_iff)

lemma others_write:
  assumes "invar p" and "x_peers E = Some (picker p)" and "pp_PickPeer (picker p) key w \<noteq> []" and "key \<noteq> []"
  shows "Group_Set E key val (g, w) =
      (case pw_ForwardSet (writer p) (g_name g) key val w of (err, w1) \<Rightarrow> Done (err, g, w1))"
    and "PurgeKey E key (g, w) =
      (case pw_ForwardPurge (writer p) (g_name g) key w of (err, w1) \<Rightarrow> (err, g, w1))"
  using assms forwards_iff [OF assms(1,2)] by (simp_all add: Group_Set_def PurgeKey_def)

lemma owner_serves:
  assumes "invar p" and "x_peers E = Some (picker p)" and "pp_PickPeer (picker p) key w = []" and "key \<noteq> []"
  shows "Group_Set E key val (g, w) = setLocalAndBroadcast E key val (g, w)"
    and "load E key (g, w) = load_getter E key (g, w)"
  using assms forwards_iff [OF assms(1,2)] by (simp_all add: Group_Set_def load_def load_fn_def)

end

section \<open>Lemmas\<close>

lemma make_getters_eq:
  "make_getters p peers a =
     (if a \<in> set peers then Some (NewHTTPGetter a (p_basePath p) (p_peerAuthToken p) (p_peerClientTLS p))
      else None)"
proof -
  let ?f = "\<lambda>peer. NewHTTPGetter peer (p_basePath p) (p_peerAuthToken p) (p_peerClientTLS p)"
  have "fold (\<lambda>peer m. m(peer \<mapsto> ?f peer)) peers m a = (if a \<in> set peers then Some (?f a) else m a)" for m
    by (induction peers arbitrary: m) auto
  then show ?thesis by (simp add: make_getters_def)
qed

lemma make_grpcClients_eq:
  "make_grpcClients N p peers a =
     (if a \<in> set peers then
        (case NewGRPCClient N a (grpcTarget a) (p_peerAuthToken p) (p_peerClientTLS p) of
           Inl err \<Rightarrow> None | Inr c \<Rightarrow> Some c)
      else None)"
proof -
  let ?f = "\<lambda>peer. NewGRPCClient N peer (grpcTarget peer) (p_peerAuthToken p) (p_peerClientTLS p)"
  have "fold (\<lambda>peer m. case ?f peer of Inl err \<Rightarrow> m | Inr c \<Rightarrow> m(peer \<mapsto> c)) peers m a =
      (if a \<in> set peers then (case ?f a of Inl err \<Rightarrow> m a | Inr c \<Rightarrow> Some c) else m a)" for m
    by (induction peers arbitrary: m) (auto split: sum.splits)
  then show ?thesis by (simp add: make_grpcClients_def)
qed

lemma NewGRPCClient_fields:
  "NewGRPCClient N peer target tok creds = Inr c \<Longrightarrow>
   c = \<lparr>c_peer = peer, c_target = target, c_conn = True, c_creds = creds, c_peerToken = tok\<rparr>"
  by (simp add: NewGRPCClient_def split: option.splits)

definition pool_inv :: "HTTPPool \<Rightarrow> bool" where
  "pool_inv p \<longleftrightarrow> Map_inv (p_peers p) \<and> Map_nodes (p_peers p) \<subseteq> dom (p_httpGetters p) \<and>
     (\<forall>a h. p_httpGetters p a = Some h \<longrightarrow> h_peer h = a \<and> h_basePath h = p_basePath p) \<and>
     (\<forall>a c. p_grpcClients p a = Some c \<longrightarrow>
        c_peer c = a \<and> c_target c = grpcTarget a \<and> c_conn c \<and> p_httpGetters p a \<noteq> None)"

lemma pool_inv_built:
  "pool_inv (p\<lparr>p_peers := Map_Add (Map_New 3 None) peers, p_httpGetters := make_getters p peers,
      p_grpcClients := make_grpcClients N p peers\<rparr>)"
  using Map_nodes_Add [of "Map_New 3 None" peers]
  by (auto simp: pool_inv_def Map_nodes_New Map_inv_Add Map_inv_New make_getters_eq make_grpcClients_eq
      NewHTTPGetter_def split: if_splits sum.splits dest!: NewGRPCClient_fields)

lemma pool_inv_Set:
  assumes "pool_inv p"
  shows "pool_inv (snd (Pool_Set N peers p))"
  using assms pool_inv_built by (auto simp: Pool_Set_def split: option.splits)

lemma pool_inv_AddPeers: "AddPeers N peers q = (None, p) \<Longrightarrow> pool_inv p"
  using pool_inv_built by (auto simp: AddPeers_def Pool_Set_def split: option.splits)

lemma pool_inv_New: "pool_inv (NewHTTPPool N self peers)"
  unfolding NewHTTPPool_def AddPeers_def
  by (rule pool_inv_Set) (simp add: pool_inv_def Map_inv_New Map_nodes_New)

lemma pool_inv_RemovePeer:
  assumes "pool_inv p" and "RemovePeer N peer (p, w) = (p', w')"
  shows "pool_inv p'"
  using assms
  by (auto simp: pool_inv_def RemovePeer_def Let_def Map_inv_Remove Map_nodes_Remove
      split: option.splits if_splits)

text \<open>Everything that may happen to a pool; \<open>OStop\<close> has the order in which the connections are closed.\<close>

datatype pool_op =
    OAddPeers "string list" | ORemovePeer string | ONodeEvent Event | OUseGRPC bool
  | OSetPeerAuthToken string | OSetPeerClientTLS "tls_Config option" | OEnableInvalidation string
  | ORegister "error option" int | OSetRegistry "EtcdRegistry option" | OStop "string list"

fun pool_step :: "'w net \<Rightarrow> 'w etcd \<Rightarrow> pool_op \<Rightarrow> HTTPPool \<times> 'w \<Rightarrow> HTTPPool \<times> 'w" where
  "pool_step N D (OAddPeers peers) (p, w) = (snd (AddPeers N peers p), w)"
| "pool_step N D (ORemovePeer a) (p, w) = RemovePeer N a (p, w)"
| "pool_step N D (ONodeEvent ev) (p, w) = node_event N ev (p, w)"
| "pool_step N D (OUseGRPC b) (p, w) = (UseGRPC b p, w)"
| "pool_step N D (OSetPeerAuthToken t) (p, w) = (SetPeerAuthToken t p, w)"
| "pool_step N D (OSetPeerClientTLS c) (p, w) = (SetPeerClientTLS c p, w)"
| "pool_step N D (OEnableInvalidation x) (p, w) = (snd (EnableEtcdInvalidation x p), w)"
| "pool_step N D (ORegister dial ttl) (p, w) =
     (case RegisterWithEtcd N D dial ttl (p, w) of Done (_, p1, w1) \<Rightarrow> (p1, w1) | _ \<Rightarrow> (p, w))"
| "pool_step N D (OSetRegistry r) (p, w) = (SetRegistry r p, w)"
| "pool_step N D (OStop order) (p, w) = snd (Pool_Stop N D order (p, w))"

lemma pool_inv_registry [simp]: "pool_inv (p\<lparr>p_registry := r\<rparr>) = pool_inv p"
  by (simp add: pool_inv_def)

lemma pool_inv_RegisterWithEtcd:
  assumes "pool_inv p" and "RegisterWithEtcd N D dial ttl (p, w) = Done (res, p', w')"
  shows "pool_inv p'"
proof -
  obtain reg where reg: "NewEtcdRegistry dial = Some reg"
    using assms(2) by (cases "NewEtcdRegistry dial") (simp_all add: RegisterWithEtcd_def)
  obtain x r1 w1 where x: "Register D (nodesPrefix @ p_self p) (p_self p) ttl (reg, w) = (x, r1, w1)"
    by (metis surj_pair)
  show ?thesis
  proof (cases x)
    case (Inl err)
    with assms reg x show ?thesis by (auto simp: RegisterWithEtcd_def)
  next
    case (Inr loop)
    with assms(2) reg x obtain sv r2 w2 where g: "GetServices D nodesPrefix (r1, w1) = Done (sv, r2, w2)"
      by (auto simp: RegisterWithEtcd_def obind_Done_iff)
    have "pool_inv (snd (Pool_Set N services (p\<lparr>p_registry := Some r2\<rparr>)))" for services
      by (rule pool_inv_Set) (simp add: assms(1))
    with assms reg x g Inr show ?thesis
      by (auto simp: RegisterWithEtcd_def Let_def split: sum.splits prod.splits option.splits)
        (metis snd_conv)+
  qed
qed

lemma pool_inv_op:
  "pool_inv p \<Longrightarrow> \<forall>order. x \<noteq> OStop order \<Longrightarrow> pool_step N D x (p, w) = (p', w') \<Longrightarrow> pool_inv p'"
  by (cases x)
    (auto simp: AddPeers_def node_event_def UseGRPC_def SetPeerAuthToken_def SetPeerClientTLS_def SetRegistry_def
      EnableEtcdInvalidation_def Let_def pool_inv_Set pool_inv_RemovePeer
      intro: pool_inv_RegisterWithEtcd split: event_type.splits outcome.splits if_splits,
     auto simp: pool_inv_def)

lemma pool_inv_run:
  "pool_inv p \<Longrightarrow> \<forall>order. OStop order \<notin> set xs \<Longrightarrow> fold (pool_step N D) xs (p, w) = (p', w') \<Longrightarrow> pool_inv p'"
proof (induction xs arbitrary: p w)
  case (Cons x xs)
  obtain p1 w1 where s: "pool_step N D x (p, w) = (p1, w1)" by fastforce
  have "pool_inv p1" using pool_inv_op [OF Cons.prems(1) _ s] Cons.prems(2) by auto
  with Cons.prems(2,3) Cons.IH [of p1 w1] s show ?case by simp
qed simp

lemma Pool_Stop_fields:
  assumes "Pool_Stop N D order (p, w) = (err, p', w')"
  shows "p_peers p' = p_peers p" "p_self p' = p_self p" "p_httpGetters p' = Map.empty" "p_grpcClients p' = Map.empty"
    "peer_client p' x = PHttp None"
  using assms by (auto simp: Pool_Stop_def Let_def peer_client_def split: option.splits prod.splits)

lemma PickPeer_addr:
  "snd (PickPeer p key) =
     (if Map_Get (p_peers p) key = [] \<or> Map_Get (p_peers p) key = p_self p then []
      else Map_Get (p_peers p) key)"
  by (simp add: PickPeer_def Let_def)

lemma IsOwner_iff:
  "IsOwner p key \<longleftrightarrow> Map_Get (p_peers p) key = [] \<or> Map_Get (p_peers p) key = p_self p"
  by (simp add: IsOwner_def PickPeer_def Let_def)

lemma picked_has_client:
  assumes "pool_inv p" and "snd (PickPeer p key) = addr" and "addr \<noteq> []"
  shows "addr \<noteq> p_self p" "addr \<in> Map_nodes (p_peers p)" "p_httpGetters p addr \<noteq> None"
proof -
  have addr: "addr = Map_Get (p_peers p) key" "addr \<noteq> p_self p"
    using assms(2,3) by (auto simp: PickPeer_addr split: if_splits)
  then show "addr \<noteq> p_self p" by simp
  have "\<not> Map_IsEmpty (p_peers p)" using assms(3) addr Map_Get_empty by blast
  then show "addr \<in> Map_nodes (p_peers p)"
    using Map_Get_member assms(1) addr by (simp add: pool_inv_def)
  with assms(1) show "p_httpGetters p addr \<noteq> None" by (auto simp: pool_inv_def)
qed

lemma peer_client_callable:
  "p_httpGetters p addr \<noteq> None \<Longrightarrow> no_panic (PeerGetter_Get N (peer_client p addr) grp key w)"
  by (auto simp: peer_client_def split: option.splits)

interpretation pool: peer_service pool_inv "pool_picker N D order" "pool_writer N D order"
  for N :: "'w net" and D :: "'w etcd" and order
proof (unfold_locales, goal_cases)
  case (1 p)
  then show ?case by (simp add: pool_picker_def)
next
  case (2 p key w)
  then show ?case by (auto simp: pool_picker_def pool_writer_def PickPeer_addr IsOwner_iff)
next
  case (3 p key w grp w')
  then show ?case
    using picked_has_client(3) [OF 3(1) refl, of key] by (simp add: pool_picker_def peer_client_callable)
qed

lemma NewHTTPPool_fields:
  "p_peers (NewHTTPPool N self peers) = Map_Add (Map_New 3 None) peers"
  "p_self (NewHTTPPool N self peers) = self"
  by (simp_all add: NewHTTPPool_def AddPeers_def Pool_Set_def)

lemma Map_Add_New_agree:
  assumes "collision_free (Map_New r fn) (set ns)" and "set ns = set ns'"
  shows "Map_Get (Map_Add (Map_New r fn) ns) key = Map_Get (Map_Add (Map_New r fn) ns') key"
proof -
  have "claimed (vnodes (Map_New r fn)) ns f = claimed (vnodes (Map_New r fn)) ns' f" for f
    using assms by (rule claimed_set)
  then show ?thesis
    using Map_inv_Add [OF Map_inv_New] by (intro Map_Get_cong) (simp_all only: Map_Add_eqs)
qed

lemma vnodes_nonempty: "0 < m_replicas m \<Longrightarrow> vnodes m n \<noteq> {}"
  by (auto simp: vnodes_def)

lemma Map_Add_nonempty:
  assumes "0 < r" and "ns \<noteq> []"
  shows "\<not> Map_IsEmpty (Map_Add (Map_New r fn) ns)"
proof -
  let ?m = "Map_Add (Map_New r fn) ns"
  have hm: "m_hashMap ?m = claimed (vnodes (Map_New r fn)) ns (m_hashMap (Map_New r fn))"
    by (simp add: Map_Add_eqs)
  have "vnodes (Map_New r fn) (hd ns) \<noteq> {}"
    using assms(1) by (intro vnodes_nonempty) (simp add: Map_New_def)
  then have "dom (m_hashMap ?m) \<noteq> {}" unfolding hm claimed_dom using assms(2) hd_in_set by blast
  then obtain h n where "m_hashMap ?m h = Some n" by blast
  then have "Map_nodes ?m \<noteq> {}" by (auto simp: Map_nodes_def ran_def)
  then show ?thesis using Map_IsEmpty_nodes [of ?m] by (simp add: Map_inv_Add Map_inv_New)
qed

lemma Map_Add_New_member:
  assumes "0 < r" and "ns \<noteq> []"
  shows "Map_Get (Map_Add (Map_New r fn) ns) key \<in> set ns"
  using Map_Get_member [OF _ Map_Add_nonempty [OF assms]] Map_nodes_Add [of "Map_New r fn" ns]
  by (auto simp: Map_inv_Add Map_inv_New Map_nodes_New)

text \<open>What the peers answer when they are asked one after the other, and the first error among it.\<close>

fun answers :: "'w net \<Rightarrow> HTTPPool \<Rightarrow> string \<Rightarrow> string \<Rightarrow> string list \<Rightarrow> 'w \<Rightarrow> (string \<times> error option) list" where
  "answers N p grp key [] w = []"
| "answers N p grp key (a # order) w =
     (case invalidate_peer N p grp key a w of (err, w1) \<Rightarrow> (a, err) # answers N p grp key order w1)"

fun first_error :: "(string \<times> error option) list \<Rightarrow> error option" where
  "first_error [] = None"
| "first_error ((a, err) # xs) = (case err of None \<Rightarrow> first_error xs | Some e \<Rightarrow> Some (Wrapf (''peer '' @ a) e))"

lemma answers_peers: "map fst (answers N p grp key order w) = order"
  by (induction order arbitrary: w) (auto split: prod.splits)

lemma first_error_None: "first_error xs = None \<longleftrightarrow> (\<forall>x\<in>set xs. snd x = None)"
  by (induction xs rule: first_error.induct) (auto split: option.splits)

lemma first_error_Some:
  "first_error xs = Some e \<longleftrightarrow>
    (\<exists>ys a e' zs. xs = ys @ (a, Some e') # zs \<and> (\<forall>y\<in>set ys. snd y = None) \<and> e = Wrapf (''peer '' @ a) e')"
proof (induction xs rule: first_error.induct)
  case (2 a err xs)
  show ?case
  proof (cases err)
    case None
    have "(\<exists>ys b e' zs. (a, err) # xs = ys @ (b, Some e') # zs \<and> (\<forall>y\<in>set ys. snd y = None) \<and> e = Wrapf (''peer '' @ b) e') \<longleftrightarrow>
        (\<exists>ys b e' zs. xs = ys @ (b, Some e') # zs \<and> (\<forall>y\<in>set ys. snd y = None) \<and> e = Wrapf (''peer '' @ b) e')" (is "?l = ?r")
    proof
      assume ?l
      then obtain ys b e' zs where "(a, err) # xs = ys @ (b, Some e') # zs" "\<forall>y\<in>set ys. snd y = None" "e = Wrapf (''peer '' @ b) e'"
        by blast
      with None show ?r by (cases ys) auto
    next
      assume ?r
      then obtain ys b e' zs where "xs = ys @ (b, Some e') # zs" "\<forall>y\<in>set ys. snd y = None" "e = Wrapf (''peer '' @ b) e'" by blast
      with None show ?l by (intro exI [of _ "(a, err) # ys"]) auto
    qed
    with 2 None show ?thesis by simp
  next
    case (Some e')
    have "ys = []" if "(a, err) # xs = ys @ (b, Some e'') # zs" "\<forall>y\<in>set ys. snd y = None" for ys b e'' zs
      using that Some by (cases ys) auto
    with Some show ?thesis by fastforce
  qed
qed simp

text \<open>The broadcast goes on after an error and keeps the first.\<close>

lemma broadcast_fold:
  "fold (\<lambda>peer (firstErr, w).
             case invalidate_peer N p grp key peer w of
               (err, w1) \<Rightarrow>
                 (case (firstErr, err) of
                    (None, Some e) \<Rightarrow> (Some (Wrapf (''peer '' @ peer) e), w1)
                  | _ \<Rightarrow> (firstErr, w1))) order (first, w)
     = (case first of None \<Rightarrow> first_error (answers N p grp key order w) | Some e \<Rightarrow> Some e,
        fold (\<lambda>peer w. snd (invalidate_peer N p grp key peer w)) order w)"
proof (induction order arbitrary: first w)
  case (Cons a order)
  obtain e w1 where i: "invalidate_peer N p grp key a w = (e, w1)" by fastforce
  let ?first = "case (first, e) of (None, Some e) \<Rightarrow> Some (Wrapf (''peer '' @ a) e) | _ \<Rightarrow> first"
  show ?case using i Cons [of ?first w1] by (cases first; cases e) simp_all
qed (simp split: option.split)

text \<open>Members whose last \<open>AddPeers\<close> listed the same addresses.\<close>

definition members :: "string set \<Rightarrow> (string \<Rightarrow> 'w net) \<Rightarrow> (string \<Rightarrow> string list) \<Rightarrow> (string \<Rightarrow> HTTPPool) \<Rightarrow>
  (string \<Rightarrow> HTTPPool) \<Rightarrow> bool" where
  "members S N peers q pool \<longleftrightarrow> S \<noteq> {} \<and> [] \<notin> S \<and> collision_free (Map_New 3 None) S \<and>
     (\<forall>a\<in>S. set (peers a) = S \<and> p_self (q a) = a \<and> AddPeers (N a) (peers a) (q a) = (None, pool a))"

lemma AddPeers_fields:
  assumes "AddPeers N peers q = (None, p)"
  shows "p_peers p = Map_Add (Map_New 3 None) peers" "p_self p = p_self q" "p_basePath p = p_basePath q"
    "p_peerAuthToken p = p_peerAuthToken q" "p_useGRPC p = p_useGRPC q"
    "p_httpGetters p = make_getters q peers" "p_grpcClients p = make_grpcClients N q peers"
  using assms by (auto simp: AddPeers_def Pool_Set_def split: option.splits)

lemma members_owner:
  assumes "members S N peers q pool"
  shows "\<exists>m\<in>S. \<forall>a\<in>S. (IsOwner (pool a) key \<longleftrightarrow> a = m) \<and>
      (a \<noteq> m \<longrightarrow> ownerForKey (pool a) key = Inr m \<and> snd (PickPeer (pool a) key) = m)"
proof -
  have ne: "S \<noteq> {}" "[] \<notin> S" and cf: "collision_free (Map_New 3 None) S" using assms by (simp_all add: members_def)
  then obtain a0 where a0: "a0 \<in> S" by blast
  let ?m = "Map_Get (p_peers (pool a0)) key"
  have ring: "p_peers (pool a) = Map_Add (Map_New 3 None) (peers a)" "p_self (pool a) = a"
    "set (peers a) = S" if "a \<in> S" for a
    using assms that AddPeers_fields(1,2) [of "N a" "peers a" "q a" "pool a"] by (simp_all add: members_def)
  have full: "\<not> Map_IsEmpty (p_peers (pool a))" if "a \<in> S" for a
    using ring(1,3) [OF that] ne(1) Map_Add_nonempty [of 3 "peers a" None] by auto
  have m: "Map_Get (p_peers (pool a)) key = ?m" if "a \<in> S" for a
    using Map_Add_New_agree [of 3 None "peers a" "peers a0" key] ring [OF that] ring [OF a0] cf by simp
  have mS: "?m \<in> S"
    using Map_Add_New_member [of 3 "peers a0" None key] ring [OF a0] ne(1) by auto
  have m0: "?m \<noteq> []" using mS ne(2) by metis
  have "(IsOwner (pool a) key \<longleftrightarrow> a = ?m) \<and>
      (a \<noteq> ?m \<longrightarrow> ownerForKey (pool a) key = Inr ?m \<and> snd (PickPeer (pool a) key) = ?m)" if "a \<in> S" for a
    using m [OF that] ring(2) [OF that] full [OF that] m0
    by (auto simp: IsOwner_iff PickPeer_addr ownerForKey_def Let_def)
  with mS show ?thesis by blast
qed

section \<open>Two members\<close>

text \<open>A network and an etcd that accept everything, and a pool of the members \<open>a\<close> and \<open>b\<close>.\<close>

definition ex_net :: "'w net" where
  "ex_net = \<lparr>n_Do = (\<lambda>_ _ _ w. (Inr \<lparr>a_StatusCode = 204, a_Status = ''204 No Content'', a_body = [], a_bodyErr = None\<rparr>, w)),
     n_NewClient = (\<lambda>_ _. None), n_Close = (\<lambda>_ w. (None, w)), n_stubGet = (\<lambda>_ _ _ _ w. (Inr [], w)),
     n_stubSet = (\<lambda>_ _ _ _ _ w. (None, w)), n_stubInvalidate = (\<lambda>_ _ _ _ w. (None, w)),
     n_stubPurge = (\<lambda>_ _ _ _ w. (None, w))\<rparr>"

definition ex_etcd :: "'w etcd" where
  "ex_etcd = \<lparr>e_Grant = (\<lambda>_ w. (Inr 1, w)), e_Put = (\<lambda>_ _ _ w. (None, w)), e_KeepAlive = (\<lambda>_ w. (Inr 0, w)),
     e_Get = (\<lambda>_ w. (Inr [], w)), e_Revoke = (\<lambda>_ w. (None, w)), e_Close = (\<lambda>w. (None, w))\<rparr>"

definition ex_pool :: HTTPPool where
  "ex_pool = NewHTTPPool (ex_net :: unit net) ''a'' [''a'', ''b'']"

definition pool_ext :: "HTTPPool \<Rightarrow> (mem_world \<times> int, string list) ext" where
  "pool_ext p = ex_ext\<lparr>x_peers := Some (pool_picker ex_net ex_etcd [''b''] p)\<rparr>"

lemma ring_ab: "Map_Get (Map_Add (Map_New 3 None) [''a'', ''b'']) ''a'' = ''b''"
  by code_simp

lemma ex_pool_pick: "Map_Get (p_peers ex_pool) ''a'' = ''b''" "p_self ex_pool = ''a''"
  by (simp_all add: ex_pool_def NewHTTPPool_fields ring_ab)

lemma ex_pool_clients: "p_httpGetters ex_pool ''b'' = Some (NewHTTPGetter ''b'' ''/geecache'' [] None)"
  "p_useGRPC ex_pool = False"
  by (simp_all add: ex_pool_def NewHTTPPool_def AddPeers_def Pool_Set_def make_getters_eq defaultPath_def)

definition ex_member :: "string \<Rightarrow> HTTPPool" where
  "ex_member a = snd (AddPeers (ex_net :: unit net) [''a'', ''b''] (NewHTTPPool (ex_net :: unit net) a []))"

lemma ex_members:
  "members {''a'', ''b''} (\<lambda>_. ex_net :: unit net) (\<lambda>_. [''a'', ''b'']) (\<lambda>a. NewHTTPPool (ex_net :: unit net) a [])
     ex_member"
proof -
  have "vnodes (Map_New 3 None) ''a'' \<inter> vnodes (Map_New 3 None) ''b'' = {}" by code_simp
  then have "collision_free (Map_New 3 None) {''a'', ''b''}"
    by (simp add: collision_free_def Int_commute)
  then show ?thesis
    by (simp add: members_def ex_member_def NewHTTPPool_fields AddPeers_def Pool_Set_def NewHTTPPool_def)
qed

section \<open>Properties\<close>

text \<open>
  C13: Routing never ends at a missing client until the pool is stopped. From its construction or any
  successful \<open>AddPeers\<close> on, as long as \<open>Stop\<close> is not called, whatever peers are added and removed, whatever
  etcd reports and however the pool is reconfigured, \<open>PickPeer\<close> answers either that the key is local,
  and then \<open>IsOwner\<close> agrees and writes stay here, or another member of the ring that \<open>ownerForKey\<close> agrees on
  and whose client can be called without a panic. \<open>Stop\<close> changes no answer of \<open>PickPeer\<close> but the client:
  calling it panics.
\<close>

theorem pool_routes:
  assumes "p0 = NewHTTPPool N self peers \<or> AddPeers N peers q = (None, p0)"
    and "fold (pool_step N D) xs (p0, w) = (p, w')" and "\<forall>order. OStop order \<notin> set xs" and "PickPeer p key = (pg, addr)"
  shows "((pg = None \<and> addr = [] \<and> IsOwner p key \<and> (\<exists>err. ownerForKey p key = Inl err)) \<or>
    (\<exists>g. pg = Some g \<and> addr \<noteq> [] \<and> addr \<noteq> p_self p \<and> addr \<in> Map_nodes (p_peers p) \<and> \<not> IsOwner p key \<and>
       ownerForKey p key = Inr addr \<and> (\<forall>grp w. no_panic (PeerGetter_Get N g grp key w)))) \<and>
    (\<forall>order pg' addr'. PickPeer (fst (pool_step N D (OStop order) (p, w'))) key = (pg', addr') \<longrightarrow>
       addr' = addr \<and> (pg' = None \<longleftrightarrow> pg = None) \<and>
       (\<forall>g grp w. pg' = Some g \<longrightarrow> PeerGetter_Get N g grp key w = Panics ''nil pointer dereference''))"
proof
  have "pool_inv p0" using assms(1) pool_inv_New pool_inv_AddPeers by blast
  then have inv: "pool_inv p" by (rule pool_inv_run [OF _ assms(3,2)])
  show "(pg = None \<and> addr = [] \<and> IsOwner p key \<and> (\<exists>err. ownerForKey p key = Inl err)) \<or>
    (\<exists>g. pg = Some g \<and> addr \<noteq> [] \<and> addr \<noteq> p_self p \<and> addr \<in> Map_nodes (p_peers p) \<and> \<not> IsOwner p key \<and>
       ownerForKey p key = Inr addr \<and> (\<forall>grp w. no_panic (PeerGetter_Get N g grp key w)))"
  proof (cases "IsOwner p key")
    case True
    with assms(4) show ?thesis
      by (auto simp: IsOwner_def PickPeer_def ownerForKey_def Let_def split: if_splits)
  next
    case False
    then have a: "addr = Map_Get (p_peers p) key" "addr \<noteq> []" "pg = Some (peer_client p addr)"
      using assms(4) by (auto simp: IsOwner_iff PickPeer_def Let_def)
    note c = picked_has_client [OF inv, of key addr, unfolded assms(4) snd_conv, OF refl a(2)]
    moreover have "\<not> Map_IsEmpty (p_peers p)" using a Map_Get_empty by blast
    ultimately show ?thesis
      using False a peer_client_callable [OF c(3), of N] by (simp add: ownerForKey_def Let_def)
  qed
next
  show "\<forall>order pg' addr'. PickPeer (fst (pool_step N D (OStop order) (p, w'))) key = (pg', addr') \<longrightarrow>
       addr' = addr \<and> (pg' = None \<longleftrightarrow> pg = None) \<and>
       (\<forall>g grp w. pg' = Some g \<longrightarrow> PeerGetter_Get N g grp key w = Panics ''nil pointer dereference'')"
  proof (intro allI impI)
    fix order pg' addr'
    assume pick: "PickPeer (fst (pool_step N D (OStop order) (p, w'))) key = (pg', addr')"
    obtain err p2 w2 where s: "Pool_Stop N D order (p, w') = (err, p2, w2)" by (metis surj_pair)
    from pick assms(4) Pool_Stop_fields [OF s] s show "addr' = addr \<and> (pg' = None \<longleftrightarrow> pg = None) \<and>
       (\<forall>g grp w. pg' = Some g \<longrightarrow> PeerGetter_Get N g grp key w = Panics ''nil pointer dereference'')"
      by (auto simp: PickPeer_def Let_def split: if_splits)
  qed
qed

theorem pool_routes_witness:
  "\<exists>g. PickPeer ex_pool ''a'' = (Some g, ''b'') \<and> ownerForKey ex_pool ''a'' = Inr ''b'' \<and>
     (\<forall>grp w. no_panic (PeerGetter_Get (ex_net :: unit net) g grp ''a'' w))"
proof -
  have n: "ex_pool = NewHTTPPool (ex_net :: unit net) ''a'' [''a'', ''b''] \<or> AddPeers (ex_net :: unit net) [''a'', ''b''] ex_pool = (None, ex_pool)"
    by (simp add: ex_pool_def)
  have f: "fold (pool_step (ex_net :: unit net) ex_etcd) [OSetRegistry None] (ex_pool, ()) = (ex_pool, ())"
    by (simp add: ex_pool_def NewHTTPPool_def AddPeers_def Pool_Set_def SetRegistry_def)
  obtain g where g: "PickPeer ex_pool ''a'' = (Some g, ''b'')"
    by (simp add: PickPeer_def Let_def ex_pool_pick)
  from pool_routes [OF n f _ g] g show ?thesis by simp
qed

text \<open>
  Exactly one member owns a key. When the members list the same addresses, in whatever order,
  and no two positions of the ring collide, there is for every key one member that considers itself
  the owner; all others forward to it, so that a forwarded write is not forwarded again.
\<close>

theorem pool_unique_owner:
  assumes "members S N peers q pool"
  shows "\<exists>!m. m \<in> S \<and> (\<forall>a\<in>S. (IsOwner (pool a) key \<longleftrightarrow> a = m) \<and>
      (a \<noteq> m \<longrightarrow> ownerForKey (pool a) key = Inr m \<and> snd (PickPeer (pool a) key) = m))"
proof -
  from members_owner [OF assms] obtain m where m: "m \<in> S" "\<forall>a\<in>S. (IsOwner (pool a) key \<longleftrightarrow> a = m) \<and>
      (a \<noteq> m \<longrightarrow> ownerForKey (pool a) key = Inr m \<and> snd (PickPeer (pool a) key) = m)" by blast
  then have "IsOwner (pool m) key" by simp
  with m show ?thesis by (intro ex1I [of _ m]) auto
qed

theorem pool_unique_owner_witness:
  "members {''a'', ''b''} (\<lambda>_. ex_net :: unit net) (\<lambda>_. [''a'', ''b'']) (\<lambda>a. NewHTTPPool (ex_net :: unit net) a [])
     ex_member \<and>
   (\<exists>!m. m \<in> {''a'', ''b''} \<and> (\<forall>a\<in>{''a'', ''b''}. (IsOwner (ex_member a) ''k'' \<longleftrightarrow> a = m) \<and>
      (a \<noteq> m \<longrightarrow> ownerForKey (ex_member a) ''k'' = Inr m \<and> snd (PickPeer (ex_member a) ''k'') = m)))"
  by (rule conjI [OF ex_members pool_unique_owner [OF ex_members]])

text \<open>
  A group with the pool as its peers sends what it does not own to the owner and nothing else
  there: on another member's key, \<open>Set\<close> and \<open>PurgeKey\<close> are exactly the forwarding calls and leave
  the group as it is; on its own key, \<open>Set\<close> stores and broadcasts, and a miss asks the getter
  without asking a peer.
\<close>

theorem pool_group_routing:
  assumes "pool_inv p" and "x_peers E = Some (pool_picker N D order p)" and "key \<noteq> []"
  shows "(\<not> IsOwner p key \<longrightarrow>
      (\<exists>owner. ownerForKey p key = Inr owner \<and> owner \<noteq> p_self p \<and> p_httpGetters p owner \<noteq> None) \<and>
      Group_Set E key val (g, w) = (case ForwardSet N p (g_name g) key val w of (err, w1) \<Rightarrow> Done (err, g, w1)) \<and>
      PurgeKey E key (g, w) = (case ForwardPurge N p (g_name g) key w of (err, w1) \<Rightarrow> (err, g, w1))) \<and>
    (IsOwner p key \<longrightarrow>
      Group_Set E key val (g, w) = setLocalAndBroadcast E key val (g, w) \<and>
      load E key (g, w) = load_getter E key (g, w)) \<and>
    (group_inv g \<and> jitter_ok g \<longrightarrow> no_panic (Group_Get E key (g, w)))"
proof -
  have pick: "pp_PickPeer (pool_picker N D order p) key w = [] \<longleftrightarrow> IsOwner p key"
    by (auto simp: pool_picker_def PickPeer_addr IsOwner_iff)
  have "\<exists>owner. ownerForKey p key = Inr owner \<and> owner \<noteq> p_self p \<and> p_httpGetters p owner \<noteq> None"
    if "\<not> IsOwner p key"
  proof -
    have a: "snd (PickPeer p key) = Map_Get (p_peers p) key" "Map_Get (p_peers p) key \<noteq> []"
      using that by (auto simp: PickPeer_addr IsOwner_iff)
    then have "\<not> Map_IsEmpty (p_peers p)" using Map_Get_empty by blast
    with a picked_has_client [OF assms(1) a(1) a(2)] that show ?thesis
      by (simp add: ownerForKey_def Let_def)
  qed
  moreover have "no_panic (Group_Get E key (g, w))" if "group_inv g" "jitter_ok g"
    using Group_Get_no_panic [OF that pool.peers_callable [OF assms(1,2)]] .
  ultimately show ?thesis
    using pool.others_write [OF assms(1,2) _ assms(3), where w = w and g = g]
      pool.owner_serves [OF assms(1,2) _ assms(3), where w = w and g = g] pick
    by (simp add: pool_writer_def)
qed

theorem pool_group_routing_witness:
  "\<not> IsOwner ex_pool ''a'' \<and>
   Group_Set (pool_ext ex_pool) ''a'' ''1'' (ex_group, ([], 1)) =
     (case ForwardSet ex_net ex_pool (g_name ex_group) ''a'' ''1'' ([], 1) of
        (err, w1) \<Rightarrow> Done (err, ex_group, w1))"
proof -
  have inv: "pool_inv ex_pool" by (simp add: ex_pool_def pool_inv_New)
  have e: "x_peers (pool_ext ex_pool) = Some (pool_picker ex_net ex_etcd [''b''] ex_pool)"
    by (simp add: pool_ext_def)
  have o: "\<not> IsOwner ex_pool ''a''" by (simp add: IsOwner_iff ex_pool_pick)
  from pool_group_routing [OF inv e, of "''a''" "''1''" ex_group "([], 1)"] o show ?thesis by blast
qed

text \<open>
  C15: A broadcast reaches everyone: whichever order the map is visited in and whichever peers fail,
  each one is sent the invalidation once, and then it is published in etcd. The result is \<open>nil\<close>
  exactly when every peer accepted, and otherwise it is the error of the first peer, in that order, that
  did not accept, wrapped with the peer's name, whoever fails after it.
\<close>

theorem pool_broadcast_all:
  assumes "distinct order" and "set order = broadcast_peers p"
  shows "\<exists>err. BroadcastInvalidate N D order p grp key w =
      (err, publishInvalidationViaEtcd D p grp key
         (fold (\<lambda>peer w. snd (invalidate_peer N p grp key peer w)) order w)) \<and>
    map fst (answers N p grp key order w) = order \<and>
    (err = None \<longleftrightarrow> (\<forall>x\<in>set (answers N p grp key order w). snd x = None)) \<and>
    (\<forall>e. err = Some e \<longleftrightarrow> (\<exists>ys a e' zs. answers N p grp key order w = ys @ (a, Some e') # zs \<and>
       (\<forall>y\<in>set ys. snd y = None) \<and> e = Wrapf (''peer '' @ a) e'))"
proof -
  have "BroadcastInvalidate N D order p grp key w =
      (first_error (answers N p grp key order w), publishInvalidationViaEtcd D p grp key
         (fold (\<lambda>peer w. snd (invalidate_peer N p grp key peer w)) order w))"
    unfolding BroadcastInvalidate_def broadcast_fold by simp
  then show ?thesis
    by (intro exI [of _ "first_error (answers N p grp key order w)"])
      (simp only: answers_peers first_error_None first_error_Some simp_thms)
qed

text \<open>Of two peers that both refuse, the first is reported.\<close>

definition ex_refuse :: "'w net" where
  "ex_refuse = ex_net\<lparr>n_Do := (\<lambda>_ _ _ w. (Inl (Errorf ''refused''), w))\<rparr>"

definition ex_pool3 :: HTTPPool where
  "ex_pool3 = NewHTTPPool (ex_net :: unit net) ''a'' [''a'', ''b'', ''c'']"

theorem pool_broadcast_all_witness:
  "set [''c'', ''b''] = broadcast_peers ex_pool3 \<and>
   (\<exists>e. fst (BroadcastInvalidate ex_refuse ex_etcd [''c'', ''b''] ex_pool3 ''scores'' ''k'' (7::nat)) = Some (Wrapf ''peer c'' e))"
proof -
  have p: "p_self ex_pool3 = ''a''" "p_httpGetters ex_pool3 = make_getters ex_pool3 [''a'', ''b'', ''c'']" "p_useGRPC ex_pool3 = False"
    by (auto simp: ex_pool3_def NewHTTPPool_def AddPeers_def Pool_Set_def make_getters_eq)
  then have o: "set [''c'', ''b''] = broadcast_peers ex_pool3"
    by (auto simp: broadcast_peers_def make_getters_eq split: if_splits)
  have "fst (invalidate_peer ex_refuse ex_pool3 ''scores'' ''k'' ''c'' (7::nat)) \<noteq> None"
    using p by (simp add: invalidate_peer_def make_getters_eq httpGetter_Invalidate_def http_write_def do_write_def ex_refuse_def split: sum.split)
  then obtain e1 w1 where c: "invalidate_peer ex_refuse ex_pool3 ''scores'' ''k'' ''c'' (7::nat) = (Some e1, w1)"
    by (metis option.exhaust prod.collapse)
  obtain e2 w2 where b: "invalidate_peer ex_refuse ex_pool3 ''scores'' ''k'' ''b'' w1 = (e2, w2)" by fastforce
  have "answers ex_refuse ex_pool3 ''scores'' ''k'' [''c'', ''b''] (7::nat) = [] @ (''c'', Some e1) # [(''b'', e2)]"
    by (simp add: c b)
  moreover have "distinct [''c'', ''b'']" by simp
  ultimately show ?thesis
    using pool_broadcast_all [OF _ o, of ex_refuse ex_etcd "''scores''" "''k''" "7::nat"] o by fastforce
qed

text \<open>
  C14: A member that joins through etcd replaces the ring: after the \<open>Put\<close> event of a peer it is the
  only member left, owner of every key, on a member that was aware of any number of others. A
  \<open>Delete\<close> event, which carries no value, removes nobody.
\<close>

theorem pool_join_replaces:
  assumes "pool_inv p" and "p_peerClientTLS p = None" and "peer \<noteq> []" and "[] \<notin> Map_nodes (p_peers p)"
    and "node_event N \<lparr>ev_Type = EventTypePut, ev_Key = k, ev_Value = peer\<rparr> (p, w) = (p1, w1)"
    and "node_event N \<lparr>ev_Type = EventTypeDelete, ev_Key = k', ev_Value = []\<rparr> (p, w) = (p2, w2)"
  shows "dom (p_httpGetters p1) = {peer} \<and> Map_Get (p_peers p1) key = peer \<and>
    (IsOwner p1 key \<longleftrightarrow> peer = p_self p) \<and> PickPeer p2 key = PickPeer p key"
proof -
  have p1: "p1 = snd (Pool_Set N [peer] p)" using assms(5) by (simp add: node_event_def AddPeers_def)
  have ring: "p_peers p1 = Map_Add (Map_New 3 None) [peer]" "p_self p1 = p_self p"
    "p_httpGetters p1 = make_getters p [peer]"
    using assms(2) by (simp_all add: p1 Pool_Set_def)
  have get: "Map_Get (p_peers p1) key = peer"
    using Map_Add_New_member [of 3 "[peer]" None key] ring(1) by simp
  have p2: "p_peers p2 = Map_Remove (p_peers p) []" "p_self p2 = p_self p" "p_useGRPC p2 = p_useGRPC p"
    "\<And>a. a \<noteq> [] \<Longrightarrow> p_httpGetters p2 a = p_httpGetters p a"
    "\<And>a. a \<noteq> [] \<Longrightarrow> p_grpcClients p2 a = p_grpcClients p a"
    using assms(6) by (auto simp: node_event_def RemovePeer_def Let_def split: option.splits)
  have inv: "Map_inv (p_peers p)" using assms(1) by (simp add: pool_inv_def)
  have "Map_Get (p_peers p2) key = Map_Get (p_peers p) key"
  proof (cases "Map_IsEmpty (p_peers p)")
    case True
    then have "Map_IsEmpty (p_peers p2)"
      using inv p2(1) Map_IsEmpty_nodes [OF inv] Map_IsEmpty_nodes [OF Map_inv_Remove [OF inv]]
      by (simp add: Map_nodes_Remove)
    with True show ?thesis by (simp add: Map_Get_empty)
  next
    case False
    then have "Map_Get (p_peers p) key \<noteq> []" using Map_Get_member [OF inv] assms(4) by metis
    with p2(1) show ?thesis by (simp add: Map_Remove_keeps [OF inv])
  qed
  then have "PickPeer p2 key = PickPeer p key"
    using p2 by (simp add: PickPeer_def Let_def peer_client_def split: option.split)
  with get ring(2,3) assms(3) show ?thesis
    by (auto simp: IsOwner_iff make_getters_eq split: if_splits)
qed

theorem pool_join_replaces_witness:
  "\<exists>p1 p2. node_event ex_net \<lparr>ev_Type = EventTypePut, ev_Key = ''/geecache/nodes/c'', ev_Value = ''c''\<rparr> (ex_pool, ()) = (p1, ()) \<and>
     node_event ex_net \<lparr>ev_Type = EventTypeDelete, ev_Key = ''/geecache/nodes/b'', ev_Value = []\<rparr> (ex_pool, ()) = (p2, ()) \<and>
     dom (p_httpGetters p1) = {''c''} \<and> Map_Get (p_peers p1) ''a'' = ''c'' \<and>
     PickPeer p2 ''a'' = PickPeer ex_pool ''a''"
proof -
  have inv: "pool_inv ex_pool" by (simp add: ex_pool_def pool_inv_New)
  have tls: "p_peerClientTLS ex_pool = None" 
    by (simp add: ex_pool_def NewHTTPPool_def AddPeers_def Pool_Set_def)
  have n: "[] \<notin> Map_nodes (p_peers ex_pool)"
    using Map_nodes_Add [of "Map_New 3 None" "[''a'', ''b'']"]
    by (auto simp: ex_pool_def NewHTTPPool_fields Map_nodes_New)
  obtain p1 w1 where e1: "node_event ex_net \<lparr>ev_Type = EventTypePut, ev_Key = ''/geecache/nodes/c'', ev_Value = ''c''\<rparr> (ex_pool, ()) = (p1, w1)"
    by (metis surj_pair)
  obtain p2 w2 where e2: "node_event ex_net \<lparr>ev_Type = EventTypeDelete, ev_Key = ''/geecache/nodes/b'', ev_Value = []\<rparr> (ex_pool, ()) = (p2, w2)"
    by (metis surj_pair)
  with e1 e2 pool_join_replaces [OF inv tls _ n e1 e2, of "''a''"] show ?thesis by auto
qed

text \<open>
  A stopped pool still routes to members it has no client for: \<open>Stop\<close> empties the tables of
  clients and keeps the ring. On another member's key, a miss of a group then dereferences a
  \<open>nil\<close> client and panics, while writes are refused with an error.
\<close>

theorem pool_stopped_panics:
  assumes "Pool_Stop N D order (p, w) = (err, p', w')" and "\<not> IsOwner p key" and "key \<noteq> []"
    and "x_peers E = Some (pool_picker N' D' order' p')"
  shows "snd (PickPeer p' key) = snd (PickPeer p key) \<and> snd (PickPeer p' key) \<noteq> [] \<and>
    load E key (g, w0) = Panics ''nil pointer dereference'' \<and>
    (\<exists>owner. Group_Set E key val (g, w0) =
       Done (Some (Errorf (''geecache: ForwardSet: no client for owner '' @ owner)), g, w0))"
proof -
  have p': "p_peers p' = p_peers p" "p_self p' = p_self p" "p_httpGetters p' = Map.empty"
    "p_grpcClients p' = Map.empty"
    using assms(1) by (auto simp: Pool_Stop_def Let_def split: option.splits prod.splits)
  let ?a = "Map_Get (p_peers p) key"
  have a: "?a \<noteq> []" "?a \<noteq> p_self p" using assms(2) by (auto simp: IsOwner_iff)
  then have ne: "\<not> Map_IsEmpty (p_peers p)" using Map_Get_empty by blast
  have client: "peer_client p' x = PHttp None" for x by (simp add: peer_client_def p')
  have "load E key (g, w0) = Panics ''nil pointer dereference''"
    using assms(4) a
    by (simp add: load_def load_fn_def pool_picker_def PickPeer_addr p' getFromPeer_def client Let_def
        split: prod.split)
  moreover have "Group_Set E key val (g, w0) =
       Done (Some (Errorf (''geecache: ForwardSet: no client for owner '' @ ?a)), g, w0)"
    using assms(3,4) a ne
    by (simp add: Group_Set_def forwards_def peerWriter_def pool_picker_def pool_writer_def IsOwner_iff p'
        ForwardSet_def ownerForKey_def Let_def)
  ultimately show ?thesis using a by (auto simp: PickPeer_addr p')
qed

theorem pool_stopped_panics_witness:
  "\<exists>p' w'. Pool_Stop ex_net ex_etcd [''a'', ''b''] (ex_pool, ()) = (None, p', w') \<and>
     load (pool_ext p') ''a'' (ex_group, ([], 1)) = Panics ''nil pointer dereference''"
proof -
  obtain err p' w' where s: "Pool_Stop ex_net ex_etcd [''a'', ''b''] (ex_pool, ()) = (err, p', w')"
    by (metis surj_pair)
  have "p_registry ex_pool = None" by (simp add: ex_pool_def NewHTTPPool_def AddPeers_def Pool_Set_def)
  then have err: "err = None" using s by (auto simp: Pool_Stop_def Let_def)
  have e: "x_peers (pool_ext p') = Some (pool_picker ex_net ex_etcd [''b''] p')"
    by (simp add: pool_ext_def)
  have o: "\<not> IsOwner ex_pool ''a''" by (simp add: IsOwner_iff ex_pool_pick)
  from pool_stopped_panics [OF s o _ e] s err show ?thesis by blast
qed

end
