(* ===== verification/Server.thy ===== *)
theory Server
  imports HTTPPool
begin

text \<open>
  What a member does for the others: \<open>ServeHTTP\<close> and the handling of invalidation events of
  \<open>geecache/http.go\<close>, and the gRPC service of \<open>geecache/grpc.go\<close>. The state is the global map of
  groups and the world; \<open>E\<close> gives every group its environment (getter, peers, clock, disk).
\<close>

section \<open>HTTP\<close>

text \<open>
  A request as the handler sees it: the path is unescaped, a missing header reads as the empty
  string, and reading the body may fail after some bytes.
\<close>

record server_request =
  r_Method :: string
  r_Path :: string
  r_RawQuery :: string
  r_token :: string
  r_Body :: bytes
  r_BodyErr :: "error option"

text \<open>What the handler writes: the text of an error, or bytes.\<close>

datatype reply_body = RError error | RBytes bytes

record reply =
  w_Status :: int
  w_Body :: reply_body

type_synonym 'b groups = "string \<Rightarrow> 'b Group option"

definition http_Error :: "reply_body \<Rightarrow> int \<Rightarrow> reply" where
  "http_Error msg code = \<lparr>w_Status = code, w_Body = msg\<rparr>"

definition no_content :: reply where
  "no_content = \<lparr>w_Status = StatusNoContent, w_Body = RBytes []\<rparr>"

definition maxSetBodyBytes :: nat where
  "maxSetBodyBytes = 32 * 2 ^ 20"

text \<open>\<open>io.ReadAll(io.LimitReader(r.Body, n))\<close>: an error behind the limit is not seen.\<close>

definition ReadAll_limited :: "nat \<Rightarrow> bytes \<Rightarrow> error option \<Rightarrow> error + bytes" where
  "ReadAll_limited n body err =
     (if n \<le> length body then Inr (take n body)
      else (case err of Some e \<Rightarrow> Inl e | None \<Rightarrow> Inr body))"

text \<open>The answer to a write of which only the error matters.\<close>

definition answer_write ::
  "string \<Rightarrow> 'b groups \<Rightarrow> error option \<times> 'b Group \<times> 'w \<Rightarrow> reply \<times> 'b groups \<times> 'w" where
  "answer_write groupname Groups = (\<lambda>(err, g, w).
     (case err of
        Some e \<Rightarrow> http_Error (RError e) StatusInternalServerError
      | None \<Rightarrow> no_content, Groups(groupname \<mapsto> g), w))"

text \<open>The handler once the group and the key are known (lines 437 to 480).\<close>

definition serve_group ::
  "(string \<Rightarrow> ('w, 'b) ext) \<Rightarrow> server_request \<Rightarrow> string \<Rightarrow> string \<Rightarrow> 'b groups \<times> 'w \<Rightarrow>
   (reply \<times> 'b groups \<times> 'w) outcome" where
  "serve_group E req groupname key = (\<lambda>(Groups, w).
     case GetGroup Groups groupname of
       None \<Rightarrow> Done (http_Error (RBytes ''group not found'') StatusNotFound, Groups, w)
     | Some g \<Rightarrow>
         if r_Method req = ''GET'' then
           obind (Group_Get (E groupname) key (g, w))
             (\<lambda>(res, g1, w1). Done
                (case res of
                   Inl err \<Rightarrow> http_Error (RBytes ''key not found'') StatusNotFound
                 | Inr v \<Rightarrow> \<lparr>w_Status = StatusOK, w_Body = RBytes (ByteSlice v)\<rparr>,
                 Groups(groupname \<mapsto> g1), w1))
         else if r_Method req = ''PUT'' then
           (case ReadAll_limited maxSetBodyBytes (r_Body req) (r_BodyErr req) of
              Inl err \<Rightarrow> Done (http_Error (RError err) StatusBadRequest, Groups, w)
            | Inr body \<Rightarrow>
                obind (Group_Set (E groupname) key body (g, w))
                  (\<lambda>r. Done (answer_write groupname Groups r)))
         else if r_Method req = ''DELETE'' then
           (if Query_Get (r_RawQuery req) ''op'' = ''invalidate''
            then Done (answer_write groupname Groups (InvalidateLocal (E groupname) key (g, w)))
            else Done (answer_write groupname Groups (PurgeKey (E groupname) key (g, w))))
         else Done (http_Error (RBytes ''method not allowed'') StatusMethodNotAllowed, Groups, w))"

definition ServeHTTP ::
  "(string \<Rightarrow> ('w, 'b) ext) \<Rightarrow> HTTPPool \<Rightarrow> server_request \<Rightarrow> 'b groups \<times> 'w \<Rightarrow>
   (reply \<times> 'b groups \<times> 'w) outcome" where
  "ServeHTTP E p req = (\<lambda>(Groups, w).
     if \<not> HasPrefix (r_Path req) (p_basePath p)
     then Panics (''HTTPPool serving unexpect path: '' @ r_Path req)
     else
       (let parts = Split (TrimPrefix (r_Path req) (p_basePath p)) (CHR ''/'') in
        if length parts \<noteq> 3 then Done (http_Error (RBytes ''bad request'') StatusBadRequest, Groups, w)
        else if p_peerAuthToken p \<noteq> [] \<and> \<not> peerHTTPAuthOK (p_peerAuthToken p) (r_token req)
        then Done (http_Error (RBytes ''unauthorized'') StatusUnauthorized, Groups, w)
        else serve_group E req (parts ! 1) (parts ! 2) (Groups, w)))"

section \<open>Invalidation events\<close>

definition inval_event ::
  "(string \<Rightarrow> ('w, 'b) ext) \<Rightarrow> HTTPPool \<Rightarrow> string \<Rightarrow> Event \<Rightarrow> 'b groups \<times> 'w \<Rightarrow> 'b groups \<times> 'w" where
  "inval_event E p prefix ev = (\<lambda>(Groups, w).
     if ev_Type ev \<noteq> EventTypePut then (Groups, w)
     else
       (case parseEtcdInvalKey prefix (ev_Key ev) of
          None \<Rightarrow> (Groups, w)
        | Some (gname, kname) \<Rightarrow>
            if IsOwner p kname then (Groups, w)
            else
              (case GetGroup Groups gname of
                 None \<Rightarrow> (Groups, w)
               | Some g \<Rightarrow>
                   (case InvalidateLocal (E gname) kname (g, w) of
                      (err, g1, w1) \<Rightarrow> (Groups(gname \<mapsto> g1), w1)))))"

definition handleEtcdInvalidationEvents ::
  "(string \<Rightarrow> ('w, 'b) ext) \<Rightarrow> HTTPPool \<Rightarrow> string \<Rightarrow> Event list \<Rightarrow> 'b groups \<times> 'w \<Rightarrow> 'b groups \<times> 'w" where
  "handleEtcdInvalidationEvents E p prefix events = fold (inval_event E p prefix) events"

section \<open>gRPC\<close>

text \<open>The messages of the service; a missing message is \<open>None\<close>.\<close>

datatype rpc_reply = Response bytes | Empty

definition nil_request :: status where
  "nil_request = Status Code_InvalidArgument (Errorf ''nil request'')"

definition no_such_group :: "string \<Rightarrow> status" where
  "no_such_group grp = Status Code_NotFound (Errorf (''no such group: '' @ grp))"

definition rpc_write ::
  "string \<Rightarrow> 'b groups \<Rightarrow> error option \<times> 'b Group \<times> 'w \<Rightarrow> (status + rpc_reply) \<times> 'b groups \<times> 'w" where
  "rpc_write grp Groups = (\<lambda>(err, g, w).
     (case err of Some e \<Rightarrow> Inl (Status Code_Internal e) | None \<Rightarrow> Inr Empty, Groups(grp \<mapsto> g), w))"

definition GRPCServer_Get ::
  "(string \<Rightarrow> ('w, 'b) ext) \<Rightarrow> (string \<times> string) option \<Rightarrow> 'b groups \<times> 'w \<Rightarrow>
   ((status + rpc_reply) \<times> 'b groups \<times> 'w) outcome" where
  "GRPCServer_Get E req = (\<lambda>(Groups, w).
     case req of
       None \<Rightarrow> Done (Inl nil_request, Groups, w)
     | Some (grp, key) \<Rightarrow>
         (case GetGroup Groups grp of
            None \<Rightarrow> Done (Inl (no_such_group grp), Groups, w)
          | Some g \<Rightarrow>
              obind (Group_Get (E grp) key (g, w))
                (\<lambda>(res, g1, w1). Done
                   (case res of
                      Inl err \<Rightarrow>
                        if errors_Is err ErrNotFound then Inl (Status Code_NotFound err)
                        else Inl (Status Code_Internal err)
                    | Inr v \<Rightarrow> Inr (Response (ByteSlice v)), Groups(grp \<mapsto> g1), w1))))"

definition GRPCServer_Set ::
  "(string \<Rightarrow> ('w, 'b) ext) \<Rightarrow> (string \<times> string \<times> bytes) option \<Rightarrow> 'b groups \<times> 'w \<Rightarrow>
   ((status + rpc_reply) \<times> 'b groups \<times> 'w) outcome" where
  "GRPCServer_Set E req = (\<lambda>(Groups, w).
     case req of
       None \<Rightarrow> Done (Inl nil_request, Groups, w)
     | Some (grp, key, val) \<Rightarrow>
         (case GetGroup Groups grp of
            None \<Rightarrow> Done (Inl (no_such_group grp), Groups, w)
          | Some g \<Rightarrow>
              obind (Group_Set (E grp) key val (g, w)) (\<lambda>r. Done (rpc_write grp Groups r))))"

definition GRPCServer_Invalidate ::
  "(string \<Rightarrow> ('w, 'b) ext) \<Rightarrow> (string \<times> string) option \<Rightarrow> 'b groups \<times> 'w \<Rightarrow>
   ((status + rpc_reply) \<times> 'b groups \<times> 'w) outcome" where
  "GRPCServer_Invalidate E req = (\<lambda>(Groups, w).
     case req of
       None \<Rightarrow> Done (Inl nil_request, Groups, w)
     | Some (grp, key) \<Rightarrow>
         (case GetGroup Groups grp of
            None \<Rightarrow> Done (Inl (no_such_group grp), Groups, w)
          | Some g \<Rightarrow> Done (rpc_write grp Groups (InvalidateLocal (E grp) key (g, w)))))"

definition GRPCServer_Purge ::
  "(string \<Rightarrow> ('w, 'b) ext) \<Rightarrow> (string \<times> string) option \<Rightarrow> 'b groups \<times> 'w \<Rightarrow>
   ((status + rpc_reply) \<times> 'b groups \<times> 'w) outcome" where
  "GRPCServer_Purge E req = (\<lambda>(Groups, w).
     case req of
       None \<Rightarrow> Done (Inl nil_request, Groups, w)
     | Some (grp, key) \<Rightarrow>
         (case GetGroup Groups grp of
            None \<Rightarrow> Done (Inl (no_such_group grp), Groups, w)
          | Some g \<Rightarrow> Done (rpc_write grp Groups (PurgeKey (E grp) key (g, w)))))"

text \<open>The calls of the service, all of them unary.\<close>

datatype rpc =
    RGet "(string \<times> string) option"
  | RSet "(string \<times> string \<times> bytes) option"
  | RInvalidate "(string \<times> string) option"
  | RPurge "(string \<times> string) option"

fun rpc_handler ::
  "(string \<Rightarrow> ('w, 'b) ext) \<Rightarrow> rpc \<Rightarrow> 'b groups \<times> 'w \<Rightarrow>
   ((status + rpc_reply) \<times> 'b groups \<times> 'w) outcome" where
  "rpc_handler E (RGet req) = GRPCServer_Get E req"
| "rpc_handler E (RSet req) = GRPCServer_Set E req"
| "rpc_handler E (RInvalidate req) = GRPCServer_Invalidate E req"
| "rpc_handler E (RPurge req) = GRPCServer_Purge E req"

text \<open>
  The server that \<open>NewGRPCServer\<close> makes: its credentials, the tokens of the interceptors chained before
  unary calls, and the services registered with it. There is no interceptor for streams.
\<close>

datatype service = CacheService | ServerReflection

record grpc_Server =
  gs_Creds :: "tls_Config option"
  gs_unaryInts :: "string list"
  gs_services :: "service list"

definition NewGRPCServer :: "string \<Rightarrow> tls_Config option \<Rightarrow> grpc_Server" where
  "NewGRPCServer peerAuthToken transportCreds =
     \<lparr>gs_Creds = transportCreds,
      gs_unaryInts = (if peerAuthToken \<noteq> [] then [peerAuthToken] else []),
      gs_services = [CacheService] @ [ServerReflection]\<rparr>"

text \<open>A unary call goes through the interceptors, the first one outermost, to the handler of the service.\<close>

definition unary_call ::
  "(string \<Rightarrow> ('w, 'b) ext) \<Rightarrow> grpc_Server \<Rightarrow> MD option \<Rightarrow> rpc \<Rightarrow> 'b groups \<times> 'w \<Rightarrow>
   ((status + rpc_reply) \<times> 'b groups \<times> 'w) outcome" where
  "unary_call E srv md call s =
     (if CacheService \<notin> set (gs_services srv)
      then Done (Inl (Status Code_Unimplemented (Errorf ''unknown service'')), s)
      else foldr (\<lambda>tok handler req. unaryPeerAuthInterceptor tok md req handler) (gs_unaryInts srv)
        (rpc_handler E) call s)"

text \<open>
  The one method of the reflection service is a stream, and goes to its handler directly. The handler
  belongs to the reflection package and is a parameter: it answers the messages of the stream from the
  services registered with the server, and has no access to groups or to anything else of the program.
\<close>

definition reflection_stream ::
  "(service list \<Rightarrow> 'q list \<Rightarrow> 'a list) \<Rightarrow> grpc_Server \<Rightarrow> MD option \<Rightarrow> 'q list \<Rightarrow> 'b groups \<times> 'w \<Rightarrow>
   ((status + 'a list) \<times> 'b groups \<times> 'w) outcome" where
  "reflection_stream info srv md msgs s =
     (if ServerReflection \<notin> set (gs_services srv)
      then Done (Inl (Status Code_Unimplemented (Errorf ''unknown service'')), s)
      else Done (Inr (info (gs_services srv) msgs), s))"

lemma unary_call_NewGRPCServer:
  "unary_call E (NewGRPCServer tok creds) md call s =
     (if tok \<noteq> [] then unaryPeerAuthInterceptor tok md call (rpc_handler E) s else rpc_handler E call s)"
  by (simp add: unary_call_def NewGRPCServer_def)

section \<open>Delivery\<close>

text \<open>
  A request of a client as it arrives at the server named in its URL: the path is unescaped by the
  parser, the query is left raw.
\<close>

definition deliver :: "http_request \<Rightarrow> server_request option" where
  "deliver q =
     (case url_Parse (q_url q) of
        None \<Rightarrow> None
      | Some u \<Rightarrow>
          Some \<lparr>r_Method = q_method q, r_Path = u_Path u, r_RawQuery = u_RawQuery u,
            r_token = (case q_token q of None \<Rightarrow> [] | Some t \<Rightarrow> t), r_Body = q_body q, r_BodyErr = None\<rparr>)"

section \<open>Lemmas\<close>

lemma PathUnescape_escape_append:
  "PathUnescape (PathEscape s @ t) = map_option ((@) s) (PathUnescape t)"
proof (induction s)
  case (Cons c s)
  then show ?case by (cases "PathUnescape t") (simp_all add: PathEscape_def escape_char_unescape)
qed (cases "PathUnescape t"; simp add: PathEscape_def)

lemma PathUnescape_plain_append:
  "CHR ''%'' \<notin> set s \<Longrightarrow> PathUnescape (s @ t) = map_option ((@) s) (PathUnescape t)"
proof (induction s)
  case (Cons c s)
  then show ?case by (cases "PathUnescape t") auto
qed (cases "PathUnescape t"; simp)

lemma PathUnescape_plain: "CHR ''%'' \<notin> set s \<Longrightarrow> PathUnescape s = Some s"
  using PathUnescape_plain_append [of s "[]"] by simp

lemma escaped_target_ok:
  "target_ok (''/geecache/'' @ PathEscape grp @ ''/'' @ PathEscape key)"
  "target_ok (''/geecache/'' @ PathEscape grp @ ''/'' @ PathEscape key @ ''?op=invalidate'')"
  "CHR ''?'' \<notin> set (''/geecache/'' @ PathEscape grp @ ''/'' @ PathEscape key)"
proof -
  have esc: "\<not> ctl_byte c \<and> c \<noteq> CHR ''#'' \<and> c \<noteq> CHR ''?''" if "c \<in> set (PathEscape s)" for c s
    using PathEscape_set [OF that]
  proof
    assume "\<not> shouldEscape c"
    then have "is_alnum c \<or> c \<in> set ''-_.~$&+:=@''" by (simp add: shouldEscape_def)
    then show ?thesis
    proof
      assume "is_alnum c"
      from alnum_chars [OF this] show ?thesis by auto
    qed (auto simp: ctl_byte_def)
  qed (simp add: ctl_byte_def)
  then show "target_ok (''/geecache/'' @ PathEscape grp @ ''/'' @ PathEscape key)"
    "target_ok (''/geecache/'' @ PathEscape grp @ ''/'' @ PathEscape key @ ''?op=invalidate'')"
    "CHR ''?'' \<notin> set (''/geecache/'' @ PathEscape grp @ ''/'' @ PathEscape key)"
    by (auto simp: target_ok_def HasPrefix_def list_all_iff ctl_byte_def)
qed

lemma escaped_path_unescaped:
  "PathUnescape (''/geecache/'' @ PathEscape grp @ ''/'' @ PathEscape key) =
     Some (''/geecache/'' @ grp @ ''/'' @ key)"
  using PathUnescape_plain_append [of "''/geecache/''" "PathEscape grp @ ''/'' @ PathEscape key"]
    PathUnescape_escape_append [of grp "''/'' @ PathEscape key"]
    PathUnescape_plain_append [of "''/''" "PathEscape key"]
  by (simp add: PathUnescape_PathEscape)

text \<open>The three parts of a path are the group and the key exactly when neither has a slash.\<close>

definition slash_free :: "string \<Rightarrow> bool" where
  "slash_free s \<longleftrightarrow> CHR ''/'' \<notin> set s"

lemma split_path:
  "Split (''/'' @ grp @ ''/'' @ key) (CHR ''/'') = [] # Split (grp @ ''/'' @ key) (CHR ''/'')"
  by simp

lemma path_parts:
  "slash_free grp \<Longrightarrow> slash_free key \<Longrightarrow>
   Split (''/'' @ grp @ ''/'' @ key) (CHR ''/'') = [[], grp, key]"
  using Split_append [of "CHR ''/''" grp key] Split_none [of "CHR ''/''" key]
  by (simp add: slash_free_def)

lemma filter_none_length: "length (filter (\<lambda>x. x = c) s) = 0 \<longleftrightarrow> c \<notin> set s"
  by (auto simp: filter_empty_conv)

lemma path_parts_3:
  "length (Split (''/'' @ grp @ ''/'' @ key) (CHR ''/'')) = 3 \<longleftrightarrow> slash_free grp \<and> slash_free key"
  using filter_none_length [of "CHR ''/''" grp] filter_none_length [of "CHR ''/''" key]
  by (simp add: Split_length slash_free_def)

definition serve_path ::
  "(string \<Rightarrow> ('w, 'b) ext) \<Rightarrow> HTTPPool \<Rightarrow> server_request \<Rightarrow> string \<Rightarrow> string \<Rightarrow> 'b groups \<times> 'w \<Rightarrow>
   (reply \<times> 'b groups \<times> 'w) outcome" where
  "serve_path E p req grp key s =
     (if \<not> (slash_free grp \<and> slash_free key) then Done (http_Error (RBytes ''bad request'') StatusBadRequest, s)
      else if p_peerAuthToken p \<noteq> [] \<and> r_token req \<noteq> p_peerAuthToken p
      then Done (http_Error (RBytes ''unauthorized'') StatusUnauthorized, s)
      else serve_group E req grp key s)"

lemma ServeHTTP_path:
  assumes "p_basePath p = ''/geecache''" and "r_Path req = ''/geecache/'' @ grp @ ''/'' @ key"
  shows "ServeHTTP E p req s = serve_path E p req grp key s"
proof -
  have path: "r_Path req = p_basePath p @ ''/'' @ grp @ ''/'' @ key" using assms by simp
  have "HasPrefix (r_Path req) (p_basePath p)"
    "TrimPrefix (r_Path req) (p_basePath p) = ''/'' @ grp @ ''/'' @ key"
    unfolding path by (rule HasPrefix_append, rule TrimPrefix_append)
  then show ?thesis
    using path_parts [of grp key] path_parts_3 [of grp key]
    by (cases s) (auto simp: ServeHTTP_def serve_path_def peerHTTPAuthOK_iff Let_def)
qed

text \<open>A client configured for a member, with the token that the member expects.\<close>

definition client_of :: "httpGetter \<Rightarrow> HTTPPool \<Rightarrow> bool" where
  "client_of h p \<longleftrightarrow> (\<exists>host. peer_url (h_peer h) host) \<and> h_basePath h = ''/geecache'' \<and>
     p_basePath p = ''/geecache'' \<and> (p_peerAuthToken p \<noteq> [] \<longrightarrow> h_peerToken h = p_peerAuthToken p)"

lemma ServeHTTP_client:
  assumes "client_of h p" and "r_Path req = ''/geecache/'' @ grp @ ''/'' @ key" and "r_token req = h_peerToken h"
  shows "ServeHTTP E p req s =
    (if slash_free grp \<and> slash_free key then serve_group E req grp key s
     else Done (http_Error (RBytes ''bad request'') StatusBadRequest, s))"
proof -
  have "p_basePath p = ''/geecache''" "\<not> (p_peerAuthToken p \<noteq> [] \<and> r_token req \<noteq> p_peerAuthToken p)"
    using assms(1,3) by (auto simp: client_of_def)
  then show ?thesis
    using ServeHTTP_path [OF _ assms(2), where p = p and E = E and s = s] by (auto simp: serve_path_def)
qed

lemma deliver_target:
  assumes "peer_url (h_peer h) host" and "target_ok t"
    and "PathUnescape (fst (Cut t (CHR ''?''))) = Some path"
  shows "\<exists>req. http_NewRequest method (h_peer h @ t) body = Inr req \<and>
    deliver (setPeerAuth h req) =
      Some \<lparr>r_Method = method, r_Path = path, r_RawQuery = snd (Cut t (CHR ''?'')),
        r_token = h_peerToken h, r_Body = body, r_BodyErr = None\<rparr>"
proof -
  from url_Parse_peer [OF assms(1,2)] assms(3) obtain scheme where
    u: "url_Parse (h_peer h @ t) = Some \<lparr>u_Scheme = scheme, u_Opaque = [], u_Host = host, u_Path = path,
        u_RawQuery = snd (Cut t (CHR ''?''))\<rparr>" by auto
  then show ?thesis by (simp add: http_NewRequest_def deliver_def setPeerAuth_def)
qed

lemma deliver_escaped:
  assumes "client_of h p"
  shows "\<exists>req. http_NewRequest method (h_peer h @ escaped_path h grp key) body = Inr req \<and>
    deliver (setPeerAuth h req) =
      Some \<lparr>r_Method = method, r_Path = ''/geecache/'' @ grp @ ''/'' @ key, r_RawQuery = [],
        r_token = h_peerToken h, r_Body = body, r_BodyErr = None\<rparr>"
    and "\<exists>req. http_NewRequest method (h_peer h @ escaped_path h grp key @ ''?op=invalidate'') body = Inr req \<and>
    deliver (setPeerAuth h req) =
      Some \<lparr>r_Method = method, r_Path = ''/geecache/'' @ grp @ ''/'' @ key, r_RawQuery = ''op=invalidate'',
        r_token = h_peerToken h, r_Body = body, r_BodyErr = None\<rparr>"
proof -
  from assms obtain host where h: "peer_url (h_peer h) host" "h_basePath h = ''/geecache''"
    by (auto simp: client_of_def)
  let ?t = "''/geecache/'' @ PathEscape grp @ ''/'' @ PathEscape key"
  have t: "escaped_path h grp key = ?t" by (simp add: escaped_path_def h(2))
  have tq: "target_ok (?t @ ''?op=invalidate'')" using escaped_target_ok(2) by (simp only: append_assoc)
  have c0: "Cut ?t (CHR ''?'') = (?t, [])" by (rule Cut_none [OF escaped_target_ok(3)])
  have c1: "Cut (?t @ ''?op=invalidate'') (CHR ''?'') = (?t, ''op=invalidate'')"
    using Cut_append [OF escaped_target_ok(3), of grp key "''?op=invalidate''"]
    by (simp add: Cut_def)
  show "\<exists>req. http_NewRequest method (h_peer h @ escaped_path h grp key) body = Inr req \<and>
    deliver (setPeerAuth h req) =
      Some \<lparr>r_Method = method, r_Path = ''/geecache/'' @ grp @ ''/'' @ key, r_RawQuery = [],
        r_token = h_peerToken h, r_Body = body, r_BodyErr = None\<rparr>"
    unfolding t
    using deliver_target [OF h(1) escaped_target_ok(1), of grp key "''/geecache/'' @ grp @ ''/'' @ key"]
    unfolding c0 fst_conv snd_conv by (simp only: escaped_path_unescaped)
  show "\<exists>req. http_NewRequest method (h_peer h @ escaped_path h grp key @ ''?op=invalidate'') body = Inr req \<and>
    deliver (setPeerAuth h req) =
      Some \<lparr>r_Method = method, r_Path = ''/geecache/'' @ grp @ ''/'' @ key, r_RawQuery = ''op=invalidate'',
        r_token = h_peerToken h, r_Body = body, r_BodyErr = None\<rparr>"
    using deliver_target [OF h(1) tq, of "''/geecache/'' @ grp @ ''/'' @ key" "method" body]
    unfolding t append_assoc c1 [unfolded append_assoc] fst_conv snd_conv
    by (simp only: escaped_path_unescaped simp_thms)
qed

text \<open>What \<open>Get\<close> puts into a URL without escaping, and what survives that.\<close>

definition plain :: "string \<Rightarrow> bool" where
  "plain s \<longleftrightarrow> list_all (\<lambda>c. \<not> ctl_byte c \<and> c \<notin> set ''/?#%'') s"

lemma plainD:
  assumes "plain s"
  shows "slash_free s" "CHR ''?'' \<notin> set s" "CHR ''#'' \<notin> set s" "CHR ''%'' \<notin> set s" "c \<in> set s \<Longrightarrow> \<not> ctl_byte c"
  using assms by (auto simp: plain_def slash_free_def list_all_iff)

lemma deliver_plain:
  assumes "client_of h p" and "plain grp" and "plain key"
    and "rest = [] \<or> (\<exists>q. rest = CHR ''?'' # q)" and "list_all (\<lambda>c. \<not> ctl_byte c \<and> c \<noteq> CHR ''#'') rest"
  shows "\<exists>req. http_NewRequest ''GET'' (h_peer h @ h_basePath h @ ''/'' @ grp @ ''/'' @ key @ rest) [] = Inr req \<and>
    deliver (setPeerAuth h req) =
      Some \<lparr>r_Method = ''GET'', r_Path = ''/geecache/'' @ grp @ ''/'' @ key, r_RawQuery = drop 1 rest,
        r_token = h_peerToken h, r_Body = [], r_BodyErr = None\<rparr>"
proof -
  from assms(1) obtain host where h: "peer_url (h_peer h) host" "h_basePath h = ''/geecache''"
    by (auto simp: client_of_def)
  note g = plainD [OF assms(2)] and k = plainD [OF assms(3)]
  let ?t = "''/geecache/'' @ grp @ ''/'' @ key"
  have q: "CHR ''?'' \<notin> set ?t" using g(2) k(2) by simp
  have cut: "Cut (?t @ rest) (CHR ''?'') = (?t, drop 1 rest)"
    using Cut_append [OF q, of rest] assms(4) by (auto simp: Cut_def)
  have ok: "target_ok (?t @ rest)"
    using g(3,5) k(3,5) assms(5) by (auto simp: target_ok_def HasPrefix_def list_all_iff ctl_byte_def)
  have "PathUnescape ?t = Some ?t" using g(4) k(4) by (intro PathUnescape_plain) auto
  then have "PathUnescape (fst (Cut (?t @ rest) (CHR ''?''))) = Some ?t" unfolding cut by simp
  from deliver_target [OF h(1) ok this, of "''GET''" "[]"] show ?thesis
    unfolding h(2) cut snd_conv by simp
qed

lemma Query_Get_invalidate: "Query_Get ''op=invalidate'' ''op'' = ''invalidate''" "Query_Get [] ''op'' = []"
  by code_simp+

lemma write_roundtrip:
  assumes "client_of h p" and "Groups grp = Some g"
  shows "\<exists>q1 q2 q3 r1 r2 r3.
    httpGetter_Set N h grp key val wc = do_write N h q1 wc \<and> deliver q1 = Some r1 \<and>
    httpGetter_Invalidate N h grp key wc = do_write N h q2 wc \<and> deliver q2 = Some r2 \<and>
    httpGetter_Purge N h grp key wc = do_write N h q3 wc \<and> deliver q3 = Some r3 \<and>
    (slash_free grp \<and> slash_free key \<longrightarrow>
       ServeHTTP E p r1 (Groups, w) =
         obind (Group_Set (E grp) key (take maxSetBodyBytes val) (g, w)) (\<lambda>r. Done (answer_write grp Groups r)) \<and>
       ServeHTTP E p r2 (Groups, w) = Done (answer_write grp Groups (InvalidateLocal (E grp) key (g, w))) \<and>
       ServeHTTP E p r3 (Groups, w) = Done (answer_write grp Groups (PurgeKey (E grp) key (g, w)))) \<and>
    (\<not> (slash_free grp \<and> slash_free key) \<longrightarrow>
       (\<forall>r. r = r1 \<or> r = r2 \<or> r = r3 \<longrightarrow>
          ServeHTTP E p r (Groups, w) = Done (http_Error (RBytes ''bad request'') StatusBadRequest, Groups, w)))"
proof -
  let ?r = "\<lambda>m q b. \<lparr>r_Method = m, r_Path = ''/geecache/'' @ grp @ ''/'' @ key, r_RawQuery = q,
        r_token = h_peerToken h, r_Body = b, r_BodyErr = None\<rparr>"
  obtain q1 where q1: "http_NewRequest ''PUT'' (h_peer h @ escaped_path h grp key) val = Inr q1"
    "deliver (setPeerAuth h q1) = Some (?r ''PUT'' [] val)"
    using deliver_escaped(1) [OF assms(1)] by blast
  obtain q2 where q2: "http_NewRequest ''DELETE'' (h_peer h @ escaped_path h grp key @ ''?op=invalidate'') [] = Inr q2"
    "deliver (setPeerAuth h q2) = Some (?r ''DELETE'' ''op=invalidate'' [])"
    using deliver_escaped(2) [OF assms(1)] by blast
  obtain q3 where q3: "http_NewRequest ''DELETE'' (h_peer h @ escaped_path h grp key) [] = Inr q3"
    "deliver (setPeerAuth h q3) = Some (?r ''DELETE'' [] [])"
    using deliver_escaped(1) [OF assms(1)] by blast
  have serve: "ServeHTTP E p (?r m q b) (Groups, w) =
      (if slash_free grp \<and> slash_free key then serve_group E (?r m q b) grp key (Groups, w)
       else Done (http_Error (RBytes ''bad request'') StatusBadRequest, Groups, w))" for m q b
    by (rule ServeHTTP_client [OF assms(1)]) simp_all
  have "ReadAll_limited maxSetBodyBytes val None = Inr (take maxSetBodyBytes val)"
    by (simp add: ReadAll_limited_def)
  then have s1: "serve_group E (?r ''PUT'' [] val) grp key (Groups, w) =
      obind (Group_Set (E grp) key (take maxSetBodyBytes val) (g, w)) (\<lambda>r. Done (answer_write grp Groups r))"
    by (simp add: serve_group_def GetGroup_def assms(2))
  have s2: "serve_group E (?r ''DELETE'' ''op=invalidate'' []) grp key (Groups, w) =
      Done (answer_write grp Groups (InvalidateLocal (E grp) key (g, w)))"
    and s3: "serve_group E (?r ''DELETE'' [] []) grp key (Groups, w) =
      Done (answer_write grp Groups (PurgeKey (E grp) key (g, w)))"
    by (simp_all add: serve_group_def GetGroup_def assms(2) Query_Get_invalidate)
  obtain r1 r2 r3 where r: "r1 = ?r ''PUT'' [] val" "r2 = ?r ''DELETE'' ''op=invalidate'' []" "r3 = ?r ''DELETE'' [] []"
    by blast
  note served = serve [of "''PUT''" "[]" val, unfolded s1, folded r]
    serve [of "''DELETE''" "''op=invalidate''" "[]", unfolded s2, folded r]
    serve [of "''DELETE''" "[]" "[]", unfolded s3, folded r]
  have sent: "httpGetter_Set N h grp key val wc = do_write N h (setPeerAuth h q1) wc"
    "httpGetter_Invalidate N h grp key wc = do_write N h (setPeerAuth h q2) wc"
    "httpGetter_Purge N h grp key wc = do_write N h (setPeerAuth h q3) wc"
    using q1(1) q2(1) q3(1)
    by (simp_all add: httpGetter_Set_def httpGetter_Invalidate_def httpGetter_Purge_def http_write_def)
  have no: "ServeHTTP E p r (Groups, w) = Done (http_Error (RBytes ''bad request'') StatusBadRequest, Groups, w)"
    if "\<not> (slash_free grp \<and> slash_free key)" and "r = r1 \<or> r = r2 \<or> r = r3" for r
    using that(2) by (elim disjE) (simp_all only: served that(1) if_False)
  show ?thesis
    by (rule exI [of _ "setPeerAuth h q1"], rule exI [of _ "setPeerAuth h q2"], rule exI [of _ "setPeerAuth h q3"],
        rule exI [of _ r1], rule exI [of _ r2], rule exI [of _ r3])
      (intro conjI sent q1(2) [folded r] q2(2) [folded r] q3(2) [folded r] impI allI no; simp add: served)
qed

section \<open>Properties\<close>

text \<open>
  C16: Writes survive the way over HTTP. What \<open>Set\<close>, \<open>Invalidate\<close> and \<open>Purge\<close> of a client put on the
  wire for any group and key arrives, after escaping and parsing, as the same group and key: the
  server runs the corresponding method of the group on exactly this key, and a value of up to
  32 MiB arrives whole (longer ones are cut). Only a slash in the group or the key is not
  transported, although the client escapes it: the server then answers 400 and changes nothing.
\<close>

theorem server_write_roundtrip:
  assumes "client_of h p" and "Groups grp = Some g"
  shows "\<exists>q1 q2 q3 r1 r2 r3.
    httpGetter_Set N h grp key val wc = do_write N h q1 wc \<and> deliver q1 = Some r1 \<and>
    httpGetter_Invalidate N h grp key wc = do_write N h q2 wc \<and> deliver q2 = Some r2 \<and>
    httpGetter_Purge N h grp key wc = do_write N h q3 wc \<and> deliver q3 = Some r3 \<and>
    (slash_free grp \<and> slash_free key \<longrightarrow>
       ServeHTTP E p r1 (Groups, w) =
         obind (Group_Set (E grp) key (take maxSetBodyBytes val) (g, w)) (\<lambda>r. Done (answer_write grp Groups r)) \<and>
       ServeHTTP E p r2 (Groups, w) = Done (answer_write grp Groups (InvalidateLocal (E grp) key (g, w))) \<and>
       ServeHTTP E p r3 (Groups, w) = Done (answer_write grp Groups (PurgeKey (E grp) key (g, w)))) \<and>
    (\<not> (slash_free grp \<and> slash_free key) \<longrightarrow>
       (\<forall>r. r = r1 \<or> r = r2 \<or> r = r3 \<longrightarrow>
          ServeHTTP E p r (Groups, w) = Done (http_Error (RBytes ''bad request'') StatusBadRequest, Groups, w)))"
  using assms by (rule write_roundtrip)

definition ex_client :: httpGetter where
  "ex_client = NewHTTPGetter ''http://b:80'' ''/geecache'' [] None"

definition ex_groups :: "string list groups" where
  "ex_groups = [''g'' \<mapsto> ex_group]"

lemma ex_client_ok: "client_of ex_client ex_pool"
proof -
  have "host_ok ''b:80''" by code_simp
  then have "peer_url ''http://b:80'' ''b:80''" by (simp add: peer_url_def)
  then show ?thesis
    by (auto simp: client_of_def ex_client_def NewHTTPGetter_def ex_pool_def NewHTTPPool_def AddPeers_def
        Pool_Set_def defaultPath_def)
qed

theorem server_write_roundtrip_witness:
  "\<exists>q r. httpGetter_Invalidate ex_net ex_client ''g'' ''k?'' () = do_write ex_net ex_client q () \<and>
     deliver q = Some r \<and>
     ServeHTTP (\<lambda>_. ex_ext) ex_pool r (ex_groups, ([], 1)) =
       Done (answer_write ''g'' ex_groups (InvalidateLocal ex_ext ''k?'' (ex_group, ([], 1))))"
proof -
  have g: "ex_groups ''g'' = Some ex_group" by (simp add: ex_groups_def)
  have "slash_free ''g'' \<and> slash_free ''k?''" by (simp add: slash_free_def)
  with server_write_roundtrip [where Groups = ex_groups and grp = "''g''" and N = ex_net and key = "''k?''"
      and val = "[]" and wc = "()" and E = "\<lambda>_. ex_ext" and w = "([], 1)", OF ex_client_ok g]
  show ?thesis by blast
qed

text \<open>
  C17: Reads survive the way over HTTP only in part. For groups and keys without control bytes and
  without any of \<open>/ ? # %\<close>, the server looks up exactly the key the client asked for. But \<open>Get\<close> does not
  escape what it puts into the URL: a question mark and what follows it are taken for the query, so
  that the client is answered with the value of another key.
\<close>

theorem server_get_roundtrip:
  assumes "client_of h p" and "Groups grp = Some g" and "plain grp" and "plain key"
    and "list_all (\<lambda>c. \<not> ctl_byte c \<and> c \<noteq> CHR ''#'') rest"
  shows "\<exists>q q' r r'.
    httpGetter_Get N h grp key wc = do_get N h q wc \<and> deliver q = Some r \<and>
    httpGetter_Get N h grp (key @ ''?'' @ rest) wc = do_get N h q' wc \<and> deliver q' = Some r' \<and>
    ServeHTTP E p r (Groups, w) =
      obind (Group_Get (E grp) key (g, w))
        (\<lambda>(res, g1, w1). Done
           (case res of
              Inl err \<Rightarrow> http_Error (RBytes ''key not found'') StatusNotFound
            | Inr v \<Rightarrow> \<lparr>w_Status = StatusOK, w_Body = RBytes (ByteSlice v)\<rparr>, Groups(grp \<mapsto> g1), w1)) \<and>
    ServeHTTP E p r' (Groups, w) = ServeHTTP E p r (Groups, w)"
proof -
  let ?r = "\<lambda>q. \<lparr>r_Method = ''GET'', r_Path = ''/geecache/'' @ grp @ ''/'' @ key, r_RawQuery = q,
        r_token = h_peerToken h, r_Body = [], r_BodyErr = None\<rparr>"
  obtain q where q: "http_NewRequest ''GET'' (h_peer h @ h_basePath h @ ''/'' @ grp @ ''/'' @ key) [] = Inr q"
    "deliver (setPeerAuth h q) = Some (?r [])"
    using deliver_plain [OF assms(1,3,4), of "[]"] by auto
  obtain q' where q': "http_NewRequest ''GET'' (h_peer h @ h_basePath h @ ''/'' @ grp @ ''/'' @ key @ ''?'' @ rest) [] = Inr q'"
    "deliver (setPeerAuth h q') = Some (?r rest)"
    using deliver_plain [OF assms(1,3,4), of "''?'' @ rest"] assms(5) by (auto simp: ctl_byte_def)
  have "ServeHTTP E p (?r x) (Groups, w) =
      obind (Group_Get (E grp) key (g, w))
        (\<lambda>(res, g1, w1). Done
           (case res of
              Inl err \<Rightarrow> http_Error (RBytes ''key not found'') StatusNotFound
            | Inr v \<Rightarrow> \<lparr>w_Status = StatusOK, w_Body = RBytes (ByteSlice v)\<rparr>, Groups(grp \<mapsto> g1), w1))" for x
    using ServeHTTP_client [OF assms(1), of "?r x" grp key E "(Groups, w)"] plainD(1) assms(3,4)
    by (simp add: serve_group_def GetGroup_def assms(2))
  moreover have "httpGetter_Get N h grp key wc = do_get N h (setPeerAuth h q) wc"
    "httpGetter_Get N h grp (key @ ''?'' @ rest) wc = do_get N h (setPeerAuth h q') wc"
    using q(1) q'(1) by (simp_all add: httpGetter_Get_def)
  ultimately show ?thesis using q(2) q'(2) by metis
qed

theorem server_get_roundtrip_witness:
  "\<exists>q r. httpGetter_Get ex_net ex_client ''g'' ''a?b'' () = do_get ex_net ex_client q () \<and> deliver q = Some r \<and>
     ServeHTTP (\<lambda>_. ex_ext) ex_pool r (ex_groups, ([], 1)) =
       obind (Group_Get ex_ext ''a'' (ex_group, ([], 1)))
        (\<lambda>(res, g1, w1). Done
           (case res of
              Inl err \<Rightarrow> http_Error (RBytes ''key not found'') StatusNotFound
            | Inr v \<Rightarrow> \<lparr>w_Status = StatusOK, w_Body = RBytes (ByteSlice v)\<rparr>, ex_groups(''g'' \<mapsto> g1), w1))"
proof -
  have g: "ex_groups ''g'' = Some ex_group" by (simp add: ex_groups_def)
  have pl: "plain ''g''" "plain ''a''" "list_all (\<lambda>c. \<not> ctl_byte c \<and> c \<noteq> CHR ''#'') ''b''"
    by (simp_all add: plain_def ctl_byte_def)
  have k: "''a'' @ ''?'' @ ''b'' = ''a?b''" by simp
  from server_get_roundtrip [where Groups = ex_groups and grp = "''g''" and key = "''a''" and rest = "''b''"
      and N = ex_net and wc = "()" and E = "\<lambda>_. ex_ext" and w = "([], 1)", OF ex_client_ok g pl, unfolded k]
  show ?thesis by metis
qed

text \<open>
  C19: The cache is closed to strangers. On a member with a token, a request without it to the handler
  of \<open>/geecache\<close>, whatever its method and path, and a unary call of the cache service that does not
  carry the token exactly once, leave all groups and the world as they are; they are refused as a bad
  request or as unauthorized, or the path is not one of the cache and the handler panics. The reflection
  service is not closed: a stream is answered without regard to what it carries, also without touching
  groups or world. (The routes \<open>/healthz\<close>, \<open>/metrics\<close> and \<open>pprof\<close> of the program ask for no token either.)
\<close>

theorem server_refuses_strangers:
  assumes "p_peerAuthToken p \<noteq> []" and "r_token req \<noteq> p_peerAuthToken p"
    and "\<not> (\<exists>m. md = Some m \<and> MD_Get m peerAuthMetadataKey = [p_peerAuthToken p])"
  shows "((\<exists>rep. ServeHTTP E p req (Groups, w) = Done (rep, Groups, w) \<and>
        w_Status rep \<in> {StatusBadRequest, StatusUnauthorized}) \<or>
      (\<not> HasPrefix (r_Path req) (p_basePath p) \<and> (\<exists>msg. ServeHTTP E p req (Groups, w) = Panics msg))) \<and>
    (\<exists>msg. unary_call E (NewGRPCServer (p_peerAuthToken p) creds) md call (Groups, w) =
       Done (Inl (Status Code_Unauthenticated msg), Groups, w)) \<and>
    reflection_stream info (NewGRPCServer (p_peerAuthToken p) creds) md msgs (Groups, w) =
      Done (Inr (info [CacheService, ServerReflection] msgs), Groups, w)"
proof (intro conjI)
  show "(\<exists>rep. ServeHTTP E p req (Groups, w) = Done (rep, Groups, w) \<and>
        w_Status rep \<in> {StatusBadRequest, StatusUnauthorized}) \<or>
     (\<not> HasPrefix (r_Path req) (p_basePath p) \<and> (\<exists>msg. ServeHTTP E p req (Groups, w) = Panics msg))"
    using assms(1,2) by (auto simp: ServeHTTP_def peerHTTPAuthOK_iff Let_def http_Error_def)
  show "\<exists>msg. unary_call E (NewGRPCServer (p_peerAuthToken p) creds) md call (Groups, w) =
       Done (Inl (Status Code_Unauthenticated msg), Groups, w)"
    using assms(1,3)
    unfolding unary_call_NewGRPCServer unaryPeerAuthInterceptor_def Let_def one_token
    by (cases md) auto
qed (simp add: reflection_stream_def NewGRPCServer_def)

definition ex_stranger :: server_request where
  "ex_stranger = \<lparr>r_Method = ''DELETE'', r_Path = ''/geecache/g/Sam'', r_RawQuery = [], r_token = ''guess'',
     r_Body = [], r_BodyErr = None\<rparr>"

theorem server_refuses_strangers_witness:
  "(\<exists>msg. unary_call (\<lambda>_. ex_ext) (NewGRPCServer ''secret'' None) (Some [(''x-geecache-peer-token'', ''guess'')])
       (RPurge (Some (''g'', ''Sam''))) (ex_groups, ([], 1)) =
     Done (Inl (Status Code_Unauthenticated msg), ex_groups, ([], 1))) \<and>
   reflection_stream (\<lambda>svs msgs. map (\<lambda>_. svs) msgs) (NewGRPCServer ''secret'' None)
       (Some [(''x-geecache-peer-token'', ''guess'')]) [''list_services''] (ex_groups, ([] :: mem_world, 1 :: int)) =
     Done (Inr [[CacheService, ServerReflection]], ex_groups, ([], 1))"
proof -
  let ?p = "SetPeerAuthToken ''secret'' ex_pool"
  have t: "p_peerAuthToken ?p = ''secret''" by (simp add: SetPeerAuthToken_def)
  have "r_token ex_stranger \<noteq> p_peerAuthToken ?p" by (simp add: t ex_stranger_def)
  moreover have "MD_Get [(''x-geecache-peer-token'', ''guess'')] peerAuthMetadataKey = [''guess'']" by code_simp
  ultimately show ?thesis
    using server_refuses_strangers [of ?p ex_stranger "Some [(''x-geecache-peer-token'', ''guess'')]"
        "\<lambda>_. ex_ext" ex_groups "([], 1)" None "RPurge (Some (''g'', ''Sam''))"
        "\<lambda>svs msgs. map (\<lambda>_. svs) msgs" "[''list_services'']"]
    by (simp add: t)
qed

text \<open>
  The codes of the gRPC service say what happened. A missing message is an invalid argument and an
  unknown group is not found, with no effect; a key the group does not find is not found, any
  other failure is internal, and a value is sent as its bytes. Only the entry of the group that was
  called changes.
\<close>

theorem grpc_get_codes:
  "GRPCServer_Get E None (Groups, w) = Done (Inl (Status Code_InvalidArgument (Errorf ''nil request'')), Groups, w) \<and>
   (Groups grp = None \<longrightarrow>
      (\<exists>msg. GRPCServer_Get E (Some (grp, key)) (Groups, w) = Done (Inl (Status Code_NotFound msg), Groups, w))) \<and>
   (\<forall>g res g1 w1. Groups grp = Some g \<and> Group_Get (E grp) key (g, w) = Done (res, g1, w1) \<longrightarrow>
      (\<exists>rep. GRPCServer_Get E (Some (grp, key)) (Groups, w) = Done (rep, Groups(grp \<mapsto> g1), w1) \<and>
         (\<forall>v. res = Inr v \<longrightarrow> rep = Inr (Response (bv_b v))) \<and>
         (\<forall>err. res = Inl err \<longrightarrow>
            rep = Inl (Status (if errors_Is err ErrNotFound then Code_NotFound else Code_Internal) err))))"
  by (auto simp: GRPCServer_Get_def GetGroup_def nil_request_def no_such_group_def)

theorem grpc_get_codes_witness:
  "\<exists>msg. GRPCServer_Get (\<lambda>_. ex_ext) (Some (''nope'', ''Sam'')) (ex_groups, ([], 1)) =
     Done (Inl (Status Code_NotFound msg), ex_groups, ([], 1))"
proof -
  have "ex_groups ''nope'' = None" by (simp add: ex_groups_def)
  with grpc_get_codes [of "\<lambda>_. ex_ext" ex_groups "([], 1)" "''nope''" "''Sam''"] show ?thesis by blast
qed

text \<open>
  C20: An invalidation published in etcd takes effect where it should: when a member receives the
  event under the key that \<open>BroadcastInvalidate\<close> publishes for a group and a key, then, unless it
  owns the key or does not know the group, exactly this key disappears from both tiers and the
  negative cache of exactly this group; the owner, which has the new value, keeps it. Events of
  other types change nothing.
\<close>

theorem inval_event_applied:
  assumes "key \<noteq> []" and "Groups grp = Some g" and "group_inv g"
    and "handleEtcdInvalidationEvents E p prefix
      [\<lparr>ev_Type = t, ev_Key = etcdInvalKey prefix grp key, ev_Value = v\<rparr>] (Groups, w) = (Groups', w')"
  shows "(t = EventTypePut \<and> \<not> IsOwner p key \<longrightarrow>
      (\<exists>g'. Groups' = Groups(grp \<mapsto> g') \<and> group_inv g' \<and> config g' = config g \<and>
         (\<forall>t. held t g' = (held t g)(key := None)) \<and> g_negUntil g' = (g_negUntil g)(key := None))) \<and>
    (t \<noteq> EventTypePut \<or> IsOwner p key \<longrightarrow> Groups' = Groups \<and> w' = w)"
proof -
  have parse: "parseEtcdInvalKey prefix (etcdInvalKey prefix grp key) = Some (grp, key)"
    by (rule etcdInvalKey_parsed)
  obtain err g' w1 where i: "InvalidateLocal (E grp) key (g, w) = (err, g', w1)" by (metis surj_pair)
  note ok = InvalidateLocal_ok [OF assms(3,1) i]
  show ?thesis
    using assms(2,4) parse i ok
    by (cases t) (auto simp: handleEtcdInvalidationEvents_def inval_event_def GetGroup_def)
qed

theorem inval_event_applied_witness:
  "\<exists>Groups' w' g'. handleEtcdInvalidationEvents (\<lambda>_. ex_ext) ex_pool ''/p/''
      [\<lparr>ev_Type = EventTypePut, ev_Key = etcdInvalKey ''/p/'' ''g'' ''a'', ev_Value = ''1''\<rparr>] (ex_groups, ([], 1))
      = (Groups', w') \<and> Groups' ''g'' = Some g' \<and> held Main g' ''a'' = None"
proof -
  obtain Groups' w' where h: "handleEtcdInvalidationEvents (\<lambda>_. ex_ext) ex_pool ''/p/''
      [\<lparr>ev_Type = EventTypePut, ev_Key = etcdInvalKey ''/p/'' ''g'' ''a'', ev_Value = ''1''\<rparr>] (ex_groups, ([], 1))
      = (Groups', w')" by (metis surj_pair)
  have g: "ex_groups ''g'' = Some ex_group" by (simp add: ex_groups_def)
  have k: "''a'' \<noteq> []" by simp
  have "\<not> IsOwner ex_pool ''a''" by (simp add: IsOwner_iff ex_pool_pick)
  with inval_event_applied [OF k g ex_group_ok(1) h] h show ?thesis by auto
qed

end
