(* ===== verification/MainProg.thy ===== *)
theory MainProg
  imports Server
begin

text \<open>
  The parts of \<open>main.go\<close>: the check of the flags, the construction of the pool, the handlers of the
  two HTTP listeners, warming and shutdown of one member, and the getter that reads one file per
  key. \<open>log.Fatal\<close> is an error result. \<open>Boot\<close> composes them to \<open>main\<close>.
\<close>

section \<open>Paths\<close>

fun Contains :: "string \<Rightarrow> string \<Rightarrow> bool" where
  "Contains [] t = (t = [])"
| "Contains (c # s) t = (take (length t) (c # s) = t \<or> Contains s t)"

text \<open>
  \<open>filepath.Clean\<close> on Unix: the elements of the path are pushed on a stack, where a dot is skipped and
  two dots pop the element before them.
\<close>

definition rooted :: "string \<Rightarrow> bool" where
  "rooted path \<longleftrightarrow> HasPrefix path ''/''"

fun clean_step :: "bool \<Rightarrow> string \<Rightarrow> string list \<Rightarrow> string list" where
  "clean_step r c st =
     (if c = [] \<or> c = ''.'' then st
      else if c = ''..'' then
        (case st of
           [] \<Rightarrow> if r then [] else [''..'']
         | t # ts \<Rightarrow> if t = ''..'' then ''..'' # st else ts)
      else c # st)"

definition path_elems :: "string \<Rightarrow> string list" where
  "path_elems path = rev (fold (clean_step (rooted path)) (Split path (CHR ''/'')) [])"

fun join_slash :: "string list \<Rightarrow> string" where
  "join_slash [] = []"
| "join_slash [x] = x"
| "join_slash (x # y # ys) = x @ ''/'' @ join_slash (y # ys)"

definition render_path :: "bool \<Rightarrow> string list \<Rightarrow> string" where
  "render_path r elems =
     (if r then ''/'' @ join_slash elems else if elems = [] then ''.'' else join_slash elems)"

definition Clean :: "string \<Rightarrow> string" where
  "Clean path = (if path = [] then ''.'' else render_path (rooted path) (path_elems path))"

definition Join :: "string list \<Rightarrow> string" where
  "Join elems = (let es = filter (\<lambda>e. e \<noteq> []) elems in if es = [] then [] else Clean (join_slash es))"

text \<open>\<open>filepath.Base\<close>: the last element, without trailing slashes.\<close>

definition Base :: "string \<Rightarrow> string" where
  "Base path =
     (if path = [] then ''.''
      else
        (let p = rev (dropWhile (\<lambda>c. c = CHR ''/'') (rev path)) in
         if p = [] then ''/'' else rev (takeWhile (\<lambda>c. c \<noteq> CHR ''/'') (rev p))))"

section \<open>The getter\<close>

definition safeBackingKeyFile :: "string \<Rightarrow> error + string" where
  "safeBackingKeyFile key0 =
     (let key = TrimSpace key0 in
      if key = [] then Inl (Wrapf [] ErrNotFound)
      else if Contains key ''..'' \<or> (\<exists>c\<in>set key. c \<in> {CHR ''/'', CHR 0x5C, CHR '':''})
      then Inl (Wrapf ''invalid key'' ErrNotFound)
      else if Base key \<noteq> key then Inl (Wrapf ''invalid key'' ErrNotFound)
      else Inr key)"

text \<open>\<open>os.ReadFile\<close> is the parameter \<open>readFile\<close>; its errors are those of \<open>os.IsNotExist\<close> and the others.\<close>

datatype read_error = NotExist | ReadError string

definition newBackingFileGetter ::
  "(string \<Rightarrow> 'w \<Rightarrow> (read_error + bytes) \<times> 'w) \<Rightarrow> string \<Rightarrow> string \<Rightarrow> 'w \<Rightarrow> (error + bytes) \<times> 'w" where
  "newBackingFileGetter readFile dir key w =
     (case safeBackingKeyFile key of
        Inl err \<Rightarrow> (Inl err, w)
      | Inr name \<Rightarrow>
          (case readFile (Join [dir, name]) w of
             (Inl NotExist, w1) \<Rightarrow> (Inl (Wrapf key ErrNotFound), w1)
           | (Inl (ReadError e), w1) \<Rightarrow> (Inl (Wrapf (''read backing '' @ Join [dir, name]) (Errorf e)), w1)
           | (Inr b, w1) \<Rightarrow> (Inr b, w1)))"

section \<open>Flags\<close>

record flags =
  f_port :: int
  f_peers :: string
  f_backingDir :: string
  f_etcd :: string
  f_useEtcd :: bool
  f_useGRPC :: bool
  f_cacheTTL :: duration
  f_cacheTTLJitter :: duration
  f_negTTL :: duration
  f_bloomN :: int
  f_bloomFP :: rat
  f_eviction :: string
  f_etcdInval :: bool
  f_persistPath :: string
  f_warm :: bool
  f_warmKeys :: string
  f_peerAuthToken :: string
  f_peerMtlsListen :: string
  f_peerMtlsCert :: string
  f_peerMtlsKey :: string
  f_peerMtlsClientCA :: string
  f_peerMtlsServerCA :: string
  f_peerMtlsClientCert :: string
  f_peerMtlsClientKey :: string
  f_peerBaseURL :: string

definition peerMTLS :: "flags \<Rightarrow> bool" where
  "peerMTLS f \<longleftrightarrow> TrimSpace (f_peerMtlsListen f) \<noteq> []"

definition mtls_files :: "flags \<Rightarrow> string list" where
  "mtls_files f = [f_peerMtlsCert f, f_peerMtlsKey f, f_peerMtlsClientCA f, f_peerMtlsServerCA f,
     f_peerMtlsClientCert f, f_peerMtlsClientKey f]"

definition check_flags :: "flags \<Rightarrow> error option" where
  "check_flags f =
     (if peerMTLS f then
        (if TrimSpace (f_peerBaseURL f) = []
         then Some (Errorf ''-peer-base-url is required when -peer-mtls-listen is set'')
         else if \<not> HasPrefix (TrimSpace (f_peerBaseURL f)) ''https://''
         then Some (Errorf ''-peer-base-url must start with https://'')
         else if list_ex (\<lambda>path. TrimSpace path = []) (mtls_files f)
         then Some (Errorf ''file flag is required when -peer-mtls-listen is set'')
         else None)
      else if list_ex (\<lambda>path. TrimSpace path \<noteq> []) (mtls_files f @ [f_peerBaseURL f])
      then Some (Errorf ''peer TLS file flags and -peer-base-url are only valid with -peer-mtls-listen'')
      else None)"

definition selfAddr :: "flags \<Rightarrow> string" where
  "selfAddr f =
     (if peerMTLS f then TrimSpace (f_peerBaseURL f) else ''http://localhost:'' @ Itoa (f_port f))"

definition static_peers :: "string \<Rightarrow> string list" where
  "static_peers csv = filter (\<lambda>s. s \<noteq> []) (map TrimSpace (Split csv (CHR '','')))"

section \<open>Start\<close>

text \<open>
  The pool as \<open>main\<close> sets it up before it registers anywhere: its token, certificates and transport,
  then its static peers.
\<close>

definition main_config :: "'w net \<Rightarrow> pki \<Rightarrow> flags \<Rightarrow> error + HTTPPool" where
  "main_config N K f =
     (let p0 = NewHTTPPool N (selfAddr f) [];
          p1 = (if TrimSpace (f_peerAuthToken f) \<noteq> []
                then SetPeerAuthToken (TrimSpace (f_peerAuthToken f)) p0 else p0) in
      if peerMTLS f
      then (case LoadPeerClientTLS K (f_peerMtlsServerCA f) (f_peerMtlsClientCert f) (f_peerMtlsClientKey f) of
              Inl err \<Rightarrow> Inl err
            | Inr cfg \<Rightarrow> Inr (UseGRPC (f_useGRPC f) (SetPeerClientTLS (Some cfg) p1)))
      else Inr (UseGRPC (f_useGRPC f) p1))"

definition main_pool :: "'w net \<Rightarrow> pki \<Rightarrow> flags \<Rightarrow> error + HTTPPool" where
  "main_pool N K f =
     (case main_config N K f of
        Inl err \<Rightarrow> Inl err
      | Inr q \<Rightarrow>
          if f_useEtcd f then Inr q
          else if static_peers (f_peers f) = []
          then Inl (Errorf ''use-etcd=false requires at least one URL in -peers'')
          else (case AddPeers N (static_peers (f_peers f)) q of (Some err, _) \<Rightarrow> Inl err | (None, p) \<Rightarrow> Inr p))"

text \<open>Preloading the keys of \<open>-warm-keys\<close>; errors are only logged.\<close>

definition warm_keys :: "('w, 'b) ext \<Rightarrow> string \<Rightarrow> 'b Group \<times> 'w \<Rightarrow> ('b Group \<times> 'w) outcome" where
  "warm_keys E csv s =
     fold (\<lambda>k m. obind m (\<lambda>s. obind (Group_Get E k s) (\<lambda>(res, s1). Done s1)))
       (if csv = [] then [] else static_peers csv) (Done s)"

section \<open>Handlers\<close>

definition not_found :: reply where
  "not_found = http_Error (RBytes ''404 page not found'') StatusNotFound"

definition plain_handler ::
  "(string \<Rightarrow> ('w, 'b) ext) \<Rightarrow> flags \<Rightarrow> HTTPPool \<Rightarrow> server_request \<Rightarrow> 'b groups \<times> 'w \<Rightarrow>
   (reply \<times> 'b groups \<times> 'w) outcome" where
  "plain_handler E f pool req s =
     (if peerMTLS f then Done (not_found, s)
      else if HasPrefix (r_Path req) ''/geecache'' then ServeHTTP E pool req s
      else Done (not_found, s))"

definition peer_handler ::
  "(string \<Rightarrow> ('w, 'b) ext) \<Rightarrow> HTTPPool \<Rightarrow> server_request \<Rightarrow> 'b groups \<times> 'w \<Rightarrow>
   (reply \<times> 'b groups \<times> 'w) outcome" where
  "peer_handler E pool req s =
     (if HasPrefix (r_Path req) ''/geecache'' then ServeHTTP E pool req s else Done (not_found, s))"

definition healthz :: "server_request \<Rightarrow> reply" where
  "healthz req =
     (if r_Method req \<noteq> ''GET'' then http_Error (RBytes ''method not allowed'') StatusMethodNotAllowed
      else \<lparr>w_Status = StatusOK, w_Body = RBytes (''ok'' @ [CHR 0x0A])\<rparr>)"

section \<open>Lemmas\<close>

lemma Split_snoc: "slash_free name \<Longrightarrow> Split (dir @ CHR ''/'' # name) (CHR ''/'') = Split dir (CHR ''/'') @ [name]"
proof (induction dir)
  case (Cons c dir)
  then show ?case by (cases "Split dir (CHR ''/'')") auto
qed (simp add: slash_free_def Split_none)

lemma Join_child:
  assumes "dir \<noteq> []" and "slash_free name" and "name \<noteq> []" and "name \<noteq> ''..''"
  shows "Join [dir, name] =
    (if name = ''.'' then Clean dir else render_path (rooted dir) (path_elems dir @ [name]))"
proof -
  have j: "Join [dir, name] = Clean (dir @ CHR ''/'' # name)" using assms(1,3) by (simp add: Join_def)
  have "rooted (dir @ CHR ''/'' # name) = rooted dir"
    using assms(1) by (cases dir) (simp_all add: rooted_def HasPrefix_def)
  then have "path_elems (dir @ CHR ''/'' # name) =
      (if name = ''.'' then path_elems dir else path_elems dir @ [name])"
    using assms(3,4) by (simp add: path_elems_def Split_snoc [OF assms(2)])
  with j assms(1) \<open>rooted (dir @ CHR ''/'' # name) = rooted dir\<close> show ?thesis by (simp add: Clean_def)
qed

lemma Contains_self: "Contains s s"
  by (cases s) simp_all

lemma safeBackingKeyFile_ok:
  assumes "safeBackingKeyFile key = Inr name"
  shows "name = TrimSpace key \<and> name \<noteq> [] \<and> slash_free name \<and> name \<noteq> ''..''"
proof -
  have "name = TrimSpace key" "name \<noteq> []" "\<not> Contains name ''..''" "slash_free name"
    using assms by (auto simp: safeBackingKeyFile_def slash_free_def Let_def split: if_splits)
  with Contains_self [of "''..''"] show ?thesis by metis
qed

lemma safeBackingKeyFile_err: "safeBackingKeyFile key = Inl err \<Longrightarrow> errors_Is err ErrNotFound"
  unfolding safeBackingKeyFile_def Let_def
  by (simp split: if_split_asm; hypsubst; simp)

lemma Base_slash_free: "key \<noteq> [] \<Longrightarrow> CHR ''/'' \<notin> set key \<Longrightarrow> Base key = key"
proof -
  assume k: "key \<noteq> []" "CHR ''/'' \<notin> set key"
  have "dropWhile (\<lambda>c. c = CHR ''/'') (rev key) = rev key"
    using k by (cases "rev key") (auto simp: rev_eq_Cons_iff)
  moreover have "rev (takeWhile (\<lambda>c. c \<noteq> CHR ''/'') (rev key)) = key"
    using k(2) by (subst takeWhile_eq_all_conv [THEN iffD2]) auto
  ultimately show "Base key = key" using k(1) by (simp add: Base_def)
qed

text \<open>The last test of \<open>safeBackingKeyFile\<close> refuses nothing that the others accept.\<close>

lemma safeBackingKeyFile_refuses:
  "(\<exists>err. safeBackingKeyFile key = Inl err) \<longleftrightarrow>
     TrimSpace key = [] \<or> Contains (TrimSpace key) ''..'' \<or>
     (\<exists>c\<in>{CHR ''/'', CHR 0x5C, CHR '':''}. c \<in> set (TrimSpace key))"
  using Base_slash_free [of "TrimSpace key"] by (auto simp: safeBackingKeyFile_def Let_def)

text \<open>With TLS on, every client speaks TLS, and every peer but a blank one is addressed by \<open>https\<close>.\<close>

definition secure_peer :: "string \<Rightarrow> bool" where
  "secure_peer a \<longleftrightarrow> TrimSpace a = [] \<or> HasPrefix (TrimSpace a) ''https://''"

definition tls_inv :: "tls_Config \<Rightarrow> HTTPPool \<Rightarrow> bool" where
  "tls_inv cfg p \<longleftrightarrow> p_peerClientTLS p = Some cfg \<and>
     (\<forall>a h. p_httpGetters p a = Some h \<longrightarrow>
        h_tls h = Some cfg \<and> secure_peer a) \<and>
     (\<forall>a c. p_grpcClients p a = Some c \<longrightarrow> c_creds c = Some cfg)"

lemma tls_offender_None:
  "tls_offender peers = None \<longleftrightarrow> (\<forall>a\<in>set peers. secure_peer a)"
  by (auto simp: tls_offender_def secure_peer_def find_None_iff)

lemma tls_inv_Set:
  assumes "tls_inv cfg p"
  shows "tls_inv cfg (snd (Pool_Set N peers p))"
proof (cases "tls_offender peers")
  case None
  with assms have "snd (Pool_Set N peers p) = p\<lparr>p_peers := Map_Add (Map_New 3 None) peers,
      p_httpGetters := make_getters p peers, p_grpcClients := make_grpcClients N p peers\<rparr>"
    by (simp add: Pool_Set_def)
  moreover have "c_creds c = Some cfg" if "make_grpcClients N p peers a = Some c" for a c
    using that assms
    by (auto simp: make_grpcClients_eq tls_inv_def split: if_splits sum.splits dest!: NewGRPCClient_fields)
  ultimately show ?thesis
    using assms None
    by (auto simp: tls_inv_def tls_offender_None make_getters_eq NewHTTPGetter_def split: if_splits)
next
  case (Some a)
  with assms show ?thesis by (simp add: Pool_Set_def tls_inv_def)
qed

lemma tls_inv_registry [simp]: "tls_inv cfg (p\<lparr>p_registry := r\<rparr>) = tls_inv cfg p"
  by (simp add: tls_inv_def)

lemma tls_inv_RemovePeer:
  "tls_inv cfg p \<Longrightarrow> RemovePeer N a (p, w) = (p', w') \<Longrightarrow> tls_inv cfg p'"
  by (auto simp: tls_inv_def RemovePeer_def Let_def split: option.splits if_splits)

lemma RegisterWithEtcd_pool:
  assumes "RegisterWithEtcd N D dial ttl (p, w) = Done (res, p', w')"
  shows "\<exists>r. p' = p\<lparr>p_registry := r\<rparr> \<or> (\<exists>peers. p' = snd (Pool_Set N peers (p\<lparr>p_registry := r\<rparr>)))"
proof -
  obtain reg where reg: "NewEtcdRegistry dial = Some reg"
    using assms by (cases "NewEtcdRegistry dial") (simp_all add: RegisterWithEtcd_def)
  obtain x r1 w1 where x: "Register D (nodesPrefix @ p_self p) (p_self p) ttl (reg, w) = (x, r1, w1)"
    by (metis surj_pair)
  show ?thesis
  proof (cases x)
    case (Inl err)
    with assms reg x show ?thesis by (auto simp: RegisterWithEtcd_def)
  next
    case (Inr loop)
    with assms reg x obtain sv r2 w2 where g: "GetServices D nodesPrefix (r1, w1) = Done (sv, r2, w2)"
      by (auto simp: RegisterWithEtcd_def obind_Done_iff)
    with assms reg x Inr show ?thesis
      by (auto simp: RegisterWithEtcd_def Let_def split: sum.splits prod.splits option.splits)
        (metis snd_conv)+
  qed
qed

lemma tls_inv_step:
  assumes "tls_inv cfg p" and "\<forall>c. x \<noteq> OSetPeerClientTLS c" and "pool_step N D x (p, w) = (p', w')"
  shows "tls_inv cfg p'"
proof (cases x)
  case (ORegister dial ttl)
  show ?thesis
  proof (cases "RegisterWithEtcd N D dial ttl (p, w)")
    case (Done r)
    then obtain res p1 w1 where "RegisterWithEtcd N D dial ttl (p, w) = Done (res, p1, w1)" by (cases r) auto
    with RegisterWithEtcd_pool [OF this] assms ORegister show ?thesis
      by (auto simp: tls_inv_Set)
  qed (use assms ORegister in auto)
qed (use assms in \<open>auto simp: AddPeers_def node_event_def UseGRPC_def SetPeerAuthToken_def SetRegistry_def Pool_Stop_def
      EnableEtcdInvalidation_def Let_def tls_inv_Set intro: tls_inv_RemovePeer
      split: event_type.splits if_splits option.splits prod.splits, auto simp: tls_inv_def\<close>)

lemma tls_inv_run:
  "tls_inv cfg p \<Longrightarrow> \<forall>x\<in>set xs. \<forall>c. x \<noteq> OSetPeerClientTLS c \<Longrightarrow>
   fold (pool_step N D) xs (p, w) = (p', w') \<Longrightarrow> tls_inv cfg p'"
proof (induction xs arbitrary: p w)
  case (Cons x xs)
  obtain p1 w1 where s: "pool_step N D x (p, w) = (p1, w1)" by fastforce
  from Cons.prems s Cons.IH [OF tls_inv_step [OF Cons.prems(1) _ s], of w1] show ?case by simp
qed simp

lemma main_config_fields:
  assumes "main_config N K f = Inr q"
  shows "pool_inv q" "p_self q = selfAddr f" "p_basePath q = ''/geecache''"
    "p_peerAuthToken q = TrimSpace (f_peerAuthToken f)" "p_useGRPC q = f_useGRPC f"
proof -
  have new: "p_self (NewHTTPPool N a []) = a" "p_basePath (NewHTTPPool N a []) = ''/geecache''"
    "p_peerAuthToken (NewHTTPPool N a []) = []" for a
    by (simp_all add: NewHTTPPool_def AddPeers_def Pool_Set_def defaultPath_def)
  have inv: "pool_inv (p\<lparr>p_peerAuthToken := t, p_peerClientTLS := c, p_useGRPC := b\<rparr>) = pool_inv p"
    "pool_inv (p\<lparr>p_peerClientTLS := c, p_useGRPC := b\<rparr>) = pool_inv p"
    "pool_inv (p\<lparr>p_peerAuthToken := t, p_useGRPC := b\<rparr>) = pool_inv p"
    "pool_inv (p\<lparr>p_useGRPC := b\<rparr>) = pool_inv p" for p t c b
    by (simp_all add: pool_inv_def)
  show "pool_inv q" "p_self q = selfAddr f" "p_basePath q = ''/geecache''"
    "p_peerAuthToken q = TrimSpace (f_peerAuthToken f)" "p_useGRPC q = f_useGRPC f"
    using assms pool_inv_New [of N "selfAddr f" "[]"] new inv
    by (auto simp: main_config_def Let_def UseGRPC_def SetPeerAuthToken_def SetPeerClientTLS_def
        split: if_splits sum.splits)
qed

lemma main_pool_steps:
  assumes "main_pool N K f = Inr p"
  shows "\<exists>q. main_config N K f = Inr q \<and>
    (if f_useEtcd f then p = q else AddPeers N (static_peers (f_peers f)) q = (None, p))"
  using assms by (auto simp: main_pool_def split: sum.splits if_splits prod.splits option.splits)

lemma main_pool_fields:
  assumes "main_pool N K f = Inr p"
  shows "pool_inv p" "p_self p = selfAddr f"
proof -
  obtain q where q: "main_config N K f = Inr q"
    "if f_useEtcd f then p = q else AddPeers N (static_peers (f_peers f)) q = (None, p)"
    using main_pool_steps [OF assms] by blast
  note c = main_config_fields [OF q(1)]
  show "pool_inv p" "p_self p = selfAddr f"
    using q(2) c(1,2) pool_inv_AddPeers AddPeers_fields(2) by (metis (full_types))+
qed

lemma main_pool_tls:
  assumes "main_pool N K f = Inr p" and "peerMTLS f"
  shows "\<exists>cfg. LoadPeerClientTLS K (f_peerMtlsServerCA f) (f_peerMtlsClientCert f) (f_peerMtlsClientKey f) = Inr cfg \<and>
    tls_inv cfg p"
proof -
  obtain q where q: "main_config N K f = Inr q"
    "if f_useEtcd f then p = q else AddPeers N (static_peers (f_peers f)) q = (None, p)"
    using main_pool_steps [OF assms(1)] by blast
  have new: "p_httpGetters (NewHTTPPool N a []) = Map.empty" "p_grpcClients (NewHTTPPool N a []) = Map.empty" for a
    by (auto simp: NewHTTPPool_def AddPeers_def Pool_Set_def make_getters_eq make_grpcClients_eq)
  from q(1) assms(2) obtain cfg where
    l: "LoadPeerClientTLS K (f_peerMtlsServerCA f) (f_peerMtlsClientCert f) (f_peerMtlsClientKey f) = Inr cfg"
    by (auto simp: main_config_def Let_def split: sum.splits)
  with q(1) assms(2) have t: "tls_inv cfg q"
    by (auto simp: main_config_def Let_def tls_inv_def UseGRPC_def SetPeerClientTLS_def SetPeerAuthToken_def new
        split: if_splits)
  from q(2) have "p = q \<or> p = snd (Pool_Set N (static_peers (f_peers f)) q)"
    by (auto simp: AddPeers_def split: if_splits)
  with l t tls_inv_Set [OF t] show ?thesis by auto
qed

section \<open>Properties\<close>

text \<open>
  C40: What the getter reads, for every key. A key that is blank, or contains two dots in a row or a slash,
  backslash or colon, is refused as not found without looking at the disk. Every other key is looked up: the
  key without the white space around it names one element, and the one path read is the child of the
  directory with this name; for the key \<open>.\<close> alone it is the directory itself. The bytes read are the
  answer, and it is not found exactly when the file does not exist, so that the negative cache can take
  over; another error of the disk is passed on as an error that is not \<open>ErrNotFound\<close>.
\<close>

theorem backing_getter_confined:
  assumes "dir \<noteq> []" and "name = TrimSpace key"
    and "path = (if name = ''.'' then Clean dir else render_path (rooted dir) (path_elems dir @ [name]))"
    and "refused \<longleftrightarrow> name = [] \<or> Contains name ''..'' \<or> (\<exists>c\<in>{CHR ''/'', CHR 0x5C, CHR '':''}. c \<in> set name)"
  shows "if refused then
      (\<exists>err. newBackingFileGetter readFile dir key w = (Inl err, w) \<and> errors_Is err ErrNotFound)
    else
      (case readFile path w of
         (Inr b, w') \<Rightarrow> newBackingFileGetter readFile dir key w = (Inr b, w')
       | (Inl e, w') \<Rightarrow>
           (\<exists>err. newBackingFileGetter readFile dir key w = (Inl err, w') \<and>
              (errors_Is err ErrNotFound \<longleftrightarrow> e = NotExist)))"
proof (cases "safeBackingKeyFile key")
  case (Inl err)
  then have refused using assms(2,4) safeBackingKeyFile_refuses [of key] by blast
  with Inl safeBackingKeyFile_err [OF Inl] show ?thesis by (simp add: newBackingFileGetter_def)
next
  case (Inr n)
  note ok = safeBackingKeyFile_ok [OF Inr]
  have j: "Join [dir, n] = path" unfolding assms(3) using Join_child [OF assms(1)] ok assms(2) by blast
  have "\<not> refused" using Inr assms(2,4) safeBackingKeyFile_refuses [of key] by auto
  then show ?thesis
    unfolding newBackingFileGetter_def Inr sum.case j
    by (auto split: prod.split sum.split read_error.split)
qed

definition ex_files :: "string \<Rightarrow> string list \<Rightarrow> (read_error + bytes) \<times> string list" where
  "ex_files path seen = (if path = ''data/Tom'' then Inr ''630'' else Inl NotExist, path # seen)"

theorem backing_getter_confined_witness:
  "newBackingFileGetter ex_files ''data'' '' Tom'' [] = (Inr ''630'', [''data/Tom'']) \<and>
   (\<exists>err. newBackingFileGetter ex_files ''data'' ''../Tom'' [] = (Inl err, []) \<and> errors_Is err ErrNotFound)"
proof -
  have d: "''data'' \<noteq> []" by simp
  have t: "TrimSpace '' Tom'' = ''Tom''" "TrimSpace ''../Tom'' = ''../Tom''" by code_simp+
  have p: "(if ''Tom'' = ''.'' then Clean ''data'' else render_path (rooted ''data'') (path_elems ''data'' @ [''Tom''])) = ''data/Tom''"
    by code_simp
  have c: "\<not> Contains ''Tom'' ''..''" by code_simp
  from backing_getter_confined [OF d refl refl refl, of "'' Tom''" ex_files "[]"]
    backing_getter_confined [OF d refl refl refl, of "''../Tom''" ex_files "[]"]
  show ?thesis unfolding t p by (simp add: c ex_files_def)
qed

end
