(* ===== verification/Boot.thy ===== *)
theory Boot
  imports MainProg
begin

text \<open>
  The function \<open>main\<close> of \<open>main.go\<close> as one sequence of fallible steps: flags, directory, pool, store on
  disk, group, listeners, registration in etcd, preloading. \<open>log.Fatal\<close> ends the sequence with an
  error. What the operating system does is the parameter \<open>os\<close>. The multiplexers of the two
  listeners are lists of matchers in the order in which \<open>main\<close> registers them; cmux itself is a
  parameter. What follows the start is in \<open>Mux\<close> and \<open>Shutdown\<close>; logging is not modelled.
\<close>

section \<open>Sequences of fallible steps\<close>

definition try_then ::
  "((error + 'a) \<times> 'w) outcome \<Rightarrow> ('a \<Rightarrow> 'w \<Rightarrow> ((error + 'c) \<times> 'w) outcome) \<Rightarrow> ((error + 'c) \<times> 'w) outcome" where
  "try_then m k = obind m (\<lambda>(r, w). case r of Inl err \<Rightarrow> Done (Inl err, w) | Inr x \<Rightarrow> k x w)"

definition checked :: "error option \<times> 'w \<Rightarrow> (error + unit) \<times> 'w" where
  "checked = (\<lambda>(err, w). (case err of Some e \<Rightarrow> Inl e | None \<Rightarrow> Inr (), w))"

lemma try_then_simps [simp]:
  "try_then (Done (Inl err, w)) k = Done (Inl err, w)" "try_then (Done (Inr x, w)) k = k x w"
  by (simp_all add: try_then_def)

lemma try_then_ok:
  "try_then m k = Done (Inr y, w') \<longleftrightarrow> (\<exists>x w. m = Done (Inr x, w) \<and> k x w = Done (Inr y, w'))"
  by (auto simp: try_then_def obind_Done_iff split: sum.split_asm)

lemma checked_simps [simp]:
  "checked (None, w) = (Inr (), w)" "checked (Some e, w) = (Inl e, w)"
  by (simp_all add: checked_def)

lemma checked_ok: "checked x = (Inr u, w) \<longleftrightarrow> x = (None, w)"
  by (cases x) (auto simp: checked_def split: option.splits)

section \<open>The steps\<close>

record 'w os =
  o_MkdirAll :: "string \<Rightarrow> 'w \<Rightarrow> error option \<times> 'w"
  o_ReadFile :: "string \<Rightarrow> 'w \<Rightarrow> (read_error + bytes) \<times> 'w"
  o_Listen :: "string \<Rightarrow> 'w \<Rightarrow> error option \<times> 'w"
  o_DialEtcd :: "string list \<Rightarrow> error option"

definition backing_dir :: "flags \<Rightarrow> string" where
  "backing_dir f =
     (if f_backingDir f = [] then Join [''data'', Itoa (f_port f), ''backing''] else f_backingDir f)"

text \<open>
  The group \<open>scores\<close> calls the getter of the backing directory and the pool; \<open>X\<close> supplies the clock,
  randomness, bbolt and the bloom filter. The pool is shared, so that its state is an argument.
\<close>

definition scores_ext ::
  "'w net \<Rightarrow> 'w etcd \<Rightarrow> string list \<Rightarrow> 'w os \<Rightarrow> ('w, 'b) ext \<Rightarrow> flags \<Rightarrow> HTTPPool \<Rightarrow> ('w, 'b) ext" where
  "scores_ext N D order U X f pool =
     X\<lparr>x_getter := newBackingFileGetter (o_ReadFile U) (backing_dir f),
       x_peers := Some (pool_picker N D order pool)\<rparr>"

definition main_store :: "'w bbolt \<Rightarrow> flags \<Rightarrow> 'w \<Rightarrow> (error + BoltStore option) \<times> 'w" where
  "main_store B f w =
     (if f_persistPath f = [] then (Inr None, w)
      else
        (case OpenBoltStore B (f_persistPath f) w of
           (Inl err, w1) \<Rightarrow> (Inl err, w1)
         | (Inr s, w1) \<Rightarrow> (Inr (Some s), w1)))"

definition main_group ::
  "('w, 'b) ext \<Rightarrow> flags \<Rightarrow> BoltStore option \<Rightarrow> 'w \<Rightarrow> ((error + 'b Group) \<times> 'w) outcome" where
  "main_group E f store w =
     obind (NewGroup E ''scores'' (2 * 2 ^ 10) (2 * 2 ^ 10) (f_eviction f) (f_cacheTTL f) (f_cacheTTLJitter f)
         (f_negTTL f) (f_bloomN f) (f_bloomFP f) True store (f_warm f \<and> f_persistPath f \<noteq> []) (\<lambda>_. None) w)
       (\<lambda>(g, Groups, w1). Done (Inr g, w1))"

definition main_listen :: "'w os \<Rightarrow> pki \<Rightarrow> flags \<Rightarrow> 'w \<Rightarrow> (error + unit) \<times> 'w" where
  "main_listen U K f w =
     (case o_Listen U ('':'' @ Itoa (f_port f)) w of
        (Some err, w1) \<Rightarrow> (Inl err, w1)
      | (None, w1) \<Rightarrow>
          if peerMTLS f then
            (case LoadPeerServerTLS K (f_peerMtlsCert f) (f_peerMtlsKey f) (f_peerMtlsClientCA f) of
               Inl err \<Rightarrow> (Inl err, w1)
             | Inr cfg \<Rightarrow> checked (o_Listen U (TrimSpace (f_peerMtlsListen f)) w1))
          else (Inr (), w1))"

definition main_announce ::
  "'w net \<Rightarrow> 'w etcd \<Rightarrow> 'w os \<Rightarrow> flags \<Rightarrow> HTTPPool \<Rightarrow> 'w \<Rightarrow>
   ((error + lease_loop option \<times> HTTPPool) \<times> 'w) outcome" where
  "main_announce N D U f pool w =
     (if f_useEtcd f then
        obind (RegisterWithEtcd N D (o_DialEtcd U (Split (f_etcd f) (CHR '',''))) 10 (pool, w))
          (\<lambda>(res, p1, w1).
             case res of
               Inl err \<Rightarrow> Done (Inl err, w1)
             | Inr loop \<Rightarrow>
                 Done (Inr (Some loop,
                   if f_etcdInval f then snd (EnableEtcdInvalidation DefaultEtcdInvalidationPrefix p1) else p1), w1))
      else Done (Inr (None, pool), w))"

record 'b member =
  m_pool :: HTTPPool
  m_store :: "BoltStore option"
  m_scores :: "'b Group"
  m_lease :: "lease_loop option"

definition main_boot ::
  "'w net \<Rightarrow> 'w etcd \<Rightarrow> string list \<Rightarrow> pki \<Rightarrow> 'w os \<Rightarrow> ('w, 'b) ext \<Rightarrow> flags \<Rightarrow> 'w \<Rightarrow>
   ((error + 'b member) \<times> 'w) outcome" where
  "main_boot N D order K U X f w =
     try_then (Done (checked (check_flags f, w))) (\<lambda>_ w.
     try_then (Done (checked (o_MkdirAll U (backing_dir f) w))) (\<lambda>_ w.
     try_then (Done (main_pool N K f, w)) (\<lambda>pool w.
     try_then (Done (main_store (x_bolt X) f w)) (\<lambda>store w.
     try_then (main_group (scores_ext N D order U X f pool) f store w) (\<lambda>g w.
     try_then (Done (main_listen U K f w)) (\<lambda>_ w.
     try_then (main_announce N D U f pool w) (\<lambda>(lease, pool) w.
     obind (warm_keys (scores_ext N D order U X f pool) (f_warmKeys f) (g, w)) (\<lambda>(g, w).
       Done (Inr \<lparr>m_pool = pool, m_store = store, m_scores = g, m_lease = lease\<rparr>, w)))))))))"

section \<open>Multiplexing\<close>

text \<open>
  The matchers \<open>main\<close> registers on a listener, in this order, and what serves the connections they
  take: nothing (they are accepted and closed), the gRPC server or the HTTP server.
\<close>

datatype matcher = Any | GRPCContentType | HTTP1

datatype service = Discard | ServeGRPC | ServeHTTP1

definition plain_mux :: "flags \<Rightarrow> (matcher \<times> service) list" where
  "plain_mux f =
     (if peerMTLS f then [(Any, Discard), (HTTP1, ServeHTTP1)]
      else [(GRPCContentType, ServeGRPC), (HTTP1, ServeHTTP1)])"

definition peer_mux :: "flags \<Rightarrow> (matcher \<times> service) list" where
  "peer_mux f =
     (if peerMTLS f then [(Any, Discard), (GRPCContentType, ServeGRPC), (HTTP1, ServeHTTP1)] else [])"

text \<open>
  What cmux is documented to do: the order of the calls of \<open>Match\<close> is the priority of the matchers,
  and \<open>Any\<close> matches every connection.
\<close>

definition cmux_ok :: "(matcher \<Rightarrow> 'c \<Rightarrow> bool) \<Rightarrow> ((matcher \<times> service) list \<Rightarrow> 'c \<Rightarrow> service option) \<Rightarrow> bool" where
  "cmux_ok accepts route \<longleftrightarrow> (\<forall>c. accepts Any c) \<and>
     (\<forall>ms c. route ms c = map_option snd (List.find (\<lambda>(m, _). accepts m c) ms))"

section \<open>Lemmas\<close>

text \<open>What a successful start has gone through.\<close>

lemma main_boot_steps:
  assumes "main_boot N D order K U X f w = Done (Inr m, w')"
  shows "\<exists>pool w1 g w2 w3 w4. check_flags f = None \<and> main_pool N K f = Inr pool \<and>
    main_group (scores_ext N D order U X f pool) f (m_store m) w1 = Done (Inr g, w2) \<and>
    main_announce N D U f pool w3 = Done (Inr (m_lease m, m_pool m), w4) \<and>
    warm_keys (scores_ext N D order U X f (m_pool m)) (f_warmKeys f) (g, w4) = Done (m_scores m, w')"
proof -
  from assms obtain pool w1 store g w2 w3 lease p' w4 g' where
    "check_flags f = None" "main_pool N K f = Inr pool"
    "main_group (scores_ext N D order U X f pool) f store w1 = Done (Inr g, w2)"
    "main_announce N D U f pool w3 = Done (Inr (lease, p'), w4)"
    "warm_keys (scores_ext N D order U X f p') (f_warmKeys f) (g, w4) = Done (g', w')"
    "m = \<lparr>m_pool = p', m_store = store, m_scores = g', m_lease = lease\<rparr>"
    unfolding main_boot_def try_then_ok by (auto simp: checked_ok obind_Done_iff)
  then show ?thesis by (intro exI conjI) (assumption | simp)+
qed

lemma warm_keys_none: "warm_keys E [] s = Done s"
  by (simp add: warm_keys_def)

lemma main_announce_static: "\<not> f_useEtcd f \<Longrightarrow> main_announce N D U f pool w = Done (Inr (None, pool), w)"
  by (simp add: main_announce_def)

lemma main_listen_ok:
  assumes "\<And>a w. fst (o_Listen U a w) = None"
    and "peerMTLS f \<Longrightarrow> \<exists>cfg. LoadPeerServerTLS K (f_peerMtlsCert f) (f_peerMtlsKey f) (f_peerMtlsClientCA f) = Inr cfg"
  shows "\<exists>w'. main_listen U K f w = (Inr (), w')"
proof -
  have l: "\<exists>w'. o_Listen U a w = (None, w')" for a w using assms(1) by (metis prod.collapse)
  obtain w1 where w1: "o_Listen U ('':'' @ Itoa (f_port f)) w = (None, w1)" using l by blast
  obtain w2 where w2: "o_Listen U (TrimSpace (f_peerMtlsListen f)) w1 = (None, w2)" using l by blast
  from assms(2) w1 w2 show ?thesis by (cases "peerMTLS f") (auto simp: main_listen_def)
qed

lemma main_group_cold:
  assumes "f_persistPath f = [] \<or> \<not> f_warm f"
  shows "\<exists>g w'. main_group E f store w = Done (Inr g, w') \<and> group_inv g \<and> (\<forall>t. held t g = Map.empty) \<and>
    g_mainCache g \<noteq> None \<and> g_hotCache g \<noteq> None \<and> g_name g = ''scores'' \<and> g_ttl g = f_cacheTTL f \<and>
    g_negTTL g = f_negTTL f \<and> g_persist g = store"
proof -
  have b: "(0::int) \<le> 2 * 2 ^ 10" by simp
  have c: "store = None \<or> \<not> (f_warm f \<and> f_persistPath f \<noteq> [])" using assms by blast
  from NewGroup_cold [OF b c, of E "''scores''" "2 * 2 ^ 10" "f_eviction f" "f_cacheTTL f" "f_cacheTTLJitter f"
      "f_negTTL f" "f_bloomN f" "f_bloomFP f" "\<lambda>_. None" w]
  show ?thesis unfolding main_group_def by auto
qed

text \<open>The values of the keys under a prefix, as \<open>clientv3.Get\<close> with \<open>WithPrefix\<close> lists them.\<close>

definition etcd_lists :: "'w etcd \<Rightarrow> ('w \<Rightarrow> etcd_view) \<Rightarrow> bool" where
  "etcd_lists D vw \<longleftrightarrow> (\<forall>prefix w kvs w'. e_Get D prefix w = (Inr kvs, w') \<longrightarrow>
     vw w' = vw w \<and> (\<forall>k v l. v_kv (vw w) k = Some (v, l) \<and> HasPrefix k prefix \<longrightarrow> (k, v) \<in> set kvs))"

text \<open>A member is announced under a new lease, which is kept alive through the channel \<open>ch\<close>.\<close>

definition announced :: "string \<Rightarrow> EtcdRegistry \<Rightarrow> lease_loop \<Rightarrow> etcd_view \<Rightarrow> etcd_view \<Rightarrow> bool" where
  "announced self r loop v v' \<longleftrightarrow> r_leaseID r \<noteq> 0 \<and> r_leaseID r \<notin> v_leases v \<and>
     v_kv v' = (v_kv v)(nodesPrefix @ self \<mapsto> (self, Some (r_leaseID r))) \<and>
     (\<exists>ch. loop = maintain_start ch \<and> v_kept v' ch = Some (r_leaseID r))"

lemma Register_ok:
  assumes "etcd_ok D vw" and "Register D (nodesPrefix @ self) self ttl (r, w) = (Inr l, r', w')"
  shows "r_client r' \<and> announced self r' l (vw w) (vw w')"
proof -
  let ?r = "r\<lparr>r_regKey := nodesPrefix @ self, r_regVal := self, r_regTTL := ttl, r_stop := True\<rparr>"
  from assms(2) obtain ch where o: "registerOnce D (?r, w) = (Inr ch, r', w')" and l: "l = maintain_start ch"
    by (auto simp: Register_def split: if_splits sum.splits prod.splits)
  from registerOnce_ok [OF assms(1) o] l show ?thesis by (auto simp: announced_def)
qed

lemma RegisterWithEtcd_ok:
  assumes "etcd_ok D vw" and "etcd_lists D vw"
    and "RegisterWithEtcd N D dial ttl (p, w) = Done (Inr loop, p', w')"
  shows "\<exists>r services. p_registry p' = Some r \<and> announced (p_self p) r loop (vw w) (vw w') \<and>
    p_self p \<in> set services \<and> Pool_Set N services (p\<lparr>p_registry := Some r\<rparr>) = (None, p')"
proof -
  obtain reg where reg: "NewEtcdRegistry dial = Some reg"
    using assms(3) by (cases "NewEtcdRegistry dial") (simp_all add: RegisterWithEtcd_def)
  from assms(3) reg obtain l r1 w1 where
    r: "Register D (nodesPrefix @ p_self p) (p_self p) ttl (reg, w) = (Inr l, r1, w1)"
    by (auto simp: RegisterWithEtcd_def split: sum.splits prod.splits)
  note ok = Register_ok [OF assms(1) r]
  obtain x w2 where g: "e_Get D nodesPrefix w1 = (x, w2)" by fastforce
  from assms(3) reg r ok g obtain kvs where
    x: "x = Inr kvs" and s: "Pool_Set N (map snd kvs) (p\<lparr>p_registry := Some r1\<rparr>) = (None, p')" "w' = w2" "loop = l"
    by (auto simp: RegisterWithEtcd_def GetServices_def Let_def split: sum.splits prod.splits option.splits)
  have "v_kv (vw w1) (nodesPrefix @ p_self p) = Some (p_self p, Some (r_leaseID r1))" using ok by (simp add: announced_def)
  then have v: "vw w2 = vw w1" "(nodesPrefix @ p_self p, p_self p) \<in> set kvs"
    using assms(2) g x unfolding etcd_lists_def by (auto simp: HasPrefix_def)
  have "p_registry p' = Some r1"
    using s(1) by (auto simp: Pool_Set_def split: option.splits)
  moreover have "p_self p \<in> set (map snd kvs)" using v(2) by force
  ultimately show ?thesis using ok s v(1) by (intro exI [of _ r1] exI [of _ "map snd kvs"]) auto
qed

lemma main_boot_run:
  assumes "check_flags f = None" and "main_pool N K f = Inr p" and "f_warmKeys f = []"
    and "o_MkdirAll U (backing_dir f) w = (None, w1)" and "main_store (x_bolt X) f w1 = (Inr store, w2)"
    and "main_group (scores_ext N D order U X f p) f store w2 = Done (Inr g, w3)"
    and "main_listen U K f w3 = (Inr (), w4)" and "main_announce N D U f p w4 = Done (Inr (lease, p'), w5)"
  shows "main_boot N D order K U X f w =
    Done (Inr \<lparr>m_pool = p', m_store = store, m_scores = g, m_lease = lease\<rparr>, w5)"
  using assms by (simp add: main_boot_def warm_keys_none)

lemma main_announce_etcd:
  assumes "main_announce N D U f p w = Done (Inr (lease, p'), w')" and "f_useEtcd f"
  shows "\<exists>loop p1. RegisterWithEtcd N D (o_DialEtcd U (Split (f_etcd f) (CHR '',''))) 10 (p, w) = Done (Inr loop, p1, w') \<and>
    lease = Some loop \<and>
    p' = (if f_etcdInval f then snd (EnableEtcdInvalidation DefaultEtcdInvalidationPrefix p1) else p1)"
proof -
  from assms obtain res p1 w1 where
    r: "RegisterWithEtcd N D (o_DialEtcd U (Split (f_etcd f) (CHR '',''))) 10 (p, w) = Done (res, p1, w1)"
    by (auto simp: main_announce_def obind_Done_iff)
  with assms show ?thesis by (cases res) (auto simp: main_announce_def)
qed

lemma tls_inv_announce:
  assumes "tls_inv cfg p" and "main_announce N D U f p w = Done (Inr (lease, p'), w')"
  shows "tls_inv cfg p'"
proof (cases "f_useEtcd f")
  case True
  from main_announce_etcd [OF assms(2) True] obtain loop p1 where
    r: "RegisterWithEtcd N D (o_DialEtcd U (Split (f_etcd f) (CHR '',''))) 10 (p, w) = Done (Inr loop, p1, w')"
    and p': "p' = (if f_etcdInval f then snd (EnableEtcdInvalidation DefaultEtcdInvalidationPrefix p1) else p1)"
    by blast
  from RegisterWithEtcd_pool [OF r] assms(1) have "tls_inv cfg p1" by (auto simp: tls_inv_Set)
  then show ?thesis by (auto simp: p' EnableEtcdInvalidation_def tls_inv_def Let_def)
next
  case False
  with assms show ?thesis by (simp add: main_announce_def)
qed

lemma main_boot_static:
  assumes "check_flags f = None" and "main_pool N K f = Inr p" and "\<not> f_useEtcd f"
    and "f_persistPath f = []" and "f_warmKeys f = []"
    and "\<forall>d w. fst (o_MkdirAll U d w) = None" and "\<forall>a w. fst (o_Listen U a w) = None"
    and "peerMTLS f \<longrightarrow> (\<exists>cfg. LoadPeerServerTLS K (f_peerMtlsCert f) (f_peerMtlsKey f) (f_peerMtlsClientCA f) = Inr cfg)"
  shows "\<exists>g w'. main_boot N D order K U X f w =
      Done (Inr \<lparr>m_pool = p, m_store = None, m_scores = g, m_lease = None\<rparr>, w') \<and>
    group_inv g \<and> (\<forall>t. held t g = Map.empty) \<and> g_mainCache g \<noteq> None \<and> g_hotCache g \<noteq> None \<and>
    g_name g = ''scores'' \<and> g_ttl g = f_cacheTTL f \<and> g_negTTL g = f_negTTL f"
proof -
  obtain w1 where w1: "o_MkdirAll U (backing_dir f) w = (None, w1)" using assms(6) by (metis prod.collapse)
  have st: "main_store (x_bolt X) f w1 = (Inr None, w1)" using assms(4) by (simp add: main_store_def)
  let ?E = "scores_ext N D order U X f p"
  obtain g w2 where g: "main_group ?E f None w1 = Done (Inr g, w2)" "group_inv g" "\<forall>t. held t g = Map.empty"
    "g_mainCache g \<noteq> None" "g_hotCache g \<noteq> None" "g_name g = ''scores''" "g_ttl g = f_cacheTTL f" "g_negTTL g = f_negTTL f"
    using main_group_cold [of f ?E None w1] assms(4) by blast
  obtain w3 where w3: "main_listen U K f w2 = (Inr (), w3)" using main_listen_ok [of U f K w2] assms(7,8) by blast
  from main_boot_run [OF assms(1,2,5) w1 st g(1) w3 main_announce_static [OF assms(3)]] g(2-) show ?thesis
    by (intro exI [of _ g] exI [of _ w3] conjI) assumption+
qed

section \<open>An example\<close>

text \<open>A machine on which everything succeeds, and the flags of a member with and without etcd.\<close>

definition ex_os :: "'w os" where
  "ex_os = \<lparr>o_MkdirAll = (\<lambda>_ w. (None, w)), o_ReadFile = (\<lambda>_ w. (Inl NotExist, w)),
     o_Listen = (\<lambda>_ w. (None, w)), o_DialEtcd = (\<lambda>_. None)\<rparr>"

definition ex_bolt :: "'w bbolt" where
  "ex_bolt = \<lparr>bb_Open = (\<lambda>_ w. (None, w)), bb_Close = (\<lambda>w. (None, w)), bb_Sync = (\<lambda>w. (None, w)),
     bb_Update = (\<lambda>f w. f w), bb_ViewBegin = (\<lambda>_. None), bb_CreateBucketIfNotExists = (\<lambda>_ w. (None, w)),
     bb_Bucket = (\<lambda>_ _. False), bb_Put = (\<lambda>_ _ _ w. (None, w)), bb_Delete = (\<lambda>_ _ w. (None, w)),
     bb_pairs = (\<lambda>_ _. [])\<rparr>"

definition ex_base :: "('w, string list) ext" where
  "ex_base = \<lparr>x_now = (\<lambda>w. (0, w)), x_Int63n = (\<lambda>n w. (0, w)), x_getter = (\<lambda>_ w. (Inl ErrNotFound, w)),
     x_peers = None, x_bolt = ex_bolt, x_bloomNew = (\<lambda>_ _. []), x_bloomTest = (\<lambda>b key. key \<in> set b),
     x_bloomAdd = (\<lambda>b key. key # b)\<rparr>"

definition ex_flags :: "bool \<Rightarrow> flags" where
  "ex_flags useEtcd = \<lparr>f_port = 8001, f_peers = ''http://localhost:8001,http://b'', f_backingDir = [],
     f_etcd = ''http://localhost:2379'', f_useEtcd = useEtcd, f_useGRPC = True, f_cacheTTL = 0,
     f_cacheTTLJitter = 0, f_negTTL = 0, f_bloomN = 0, f_bloomFP = 1 / 100, f_eviction = ''lru'', f_etcdInval = True,
     f_persistPath = [], f_warm = False, f_warmKeys = [], f_peerAuthToken = [], f_peerMtlsListen = [],
     f_peerMtlsCert = [], f_peerMtlsKey = [], f_peerMtlsClientCA = [], f_peerMtlsServerCA = [],
     f_peerMtlsClientCert = [], f_peerMtlsClientKey = [], f_peerBaseURL = []\<rparr>"

definition ex_mtls_flags :: flags where
  "ex_mtls_flags = (ex_flags False)\<lparr>f_peers := ''https://a,https://b'', f_peerMtlsListen := '':8443'',
     f_peerMtlsCert := ''c'', f_peerMtlsKey := ''k'', f_peerMtlsClientCA := ''ca'', f_peerMtlsServerCA := ''ca'',
     f_peerMtlsClientCert := ''cc'', f_peerMtlsClientKey := ''ck'', f_peerBaseURL := ''https://a''\<rparr>"

definition ex_pki :: pki where
  "ex_pki = \<lparr>k_LoadX509KeyPair = (\<lambda>c k. Inr (c @ k)), k_ReadFile = (\<lambda>f. Inr f), k_certs = (\<lambda>pem. [pem])\<rparr>"

lemma TrimSpace_Nil [simp]: "TrimSpace [] = []"
  by (simp add: TrimSpace_def)

lemma ex_flags_ok:
  "check_flags (ex_flags e) = None" "\<not> peerMTLS (ex_flags e)" "f_useEtcd (ex_flags e) = e"
  "f_persistPath (ex_flags e) = []" "f_warmKeys (ex_flags e) = []" "f_warm (ex_flags e) = False"
  "f_etcdInval (ex_flags e)" "f_bloomN (ex_flags e) = 0"
  by (simp_all add: check_flags_def peerMTLS_def mtls_files_def ex_flags_def)

lemma ex_mtls_ok:
  "check_flags ex_mtls_flags = None" "peerMTLS ex_mtls_flags" "f_useEtcd ex_mtls_flags = False"
  "f_persistPath ex_mtls_flags = []" "f_warmKeys ex_mtls_flags = []" "f_warm ex_mtls_flags = False"
  by code_simp+

lemma ex_config: "\<exists>q. main_config N K (ex_flags e) = Inr q \<and> p_peerClientTLS q = None"
  by (simp add: main_config_def ex_flags_ok Let_def UseGRPC_def SetPeerAuthToken_def NewHTTPPool_def AddPeers_def
      Pool_Set_def)

lemma ex_pool_static: "\<exists>p. main_pool N K (ex_flags False) = Inr p"
proof -
  have "static_peers (f_peers (ex_flags False)) \<noteq> []" by code_simp
  with ex_config [of N K False] show ?thesis
    by (auto simp: main_pool_def ex_flags_ok AddPeers_def Pool_Set_def)
qed

lemma ex_pool_etcd: "\<exists>p. main_pool N K (ex_flags True) = Inr p \<and> p_peerClientTLS p = None"
  using ex_config [of N K True] by (auto simp: main_pool_def ex_flags_ok)

lemma mem_etcd_lists: "etcd_lists mem_etcd mem_view"
  by (auto simp: etcd_lists_def mem_etcd_def mem_view_def HasPrefix_def image_iff split: option.splits prod.splits
      dest!: map_of_SomeD)

section \<open>Properties\<close>

text \<open>
  C34: A member with static peers, without a store on disk (\<open>-persist-path\<close>) and without keys to warm
  (\<open>-warm-keys\<close>) starts: when the flags are accepted, the pool can be set up, the directory can be made, the
  addresses can be listened on and, with mutual TLS, the certificates of the server can be loaded, then
  \<open>main\<close> gets through to serving. The ring consists of the peers of the flag, the pool is well-formed and
  knows its own address, and the group \<open>scores\<close> has both tiers, empty, the lifetimes of the flags and this
  pool to route its keys. When the flags are not accepted, nothing is touched.
\<close>

theorem main_boots:
  assumes "main_pool N K f = Inr p" and "\<not> f_useEtcd f" and "f_persistPath f = []" and "f_warmKeys f = []"
    and "\<forall>d w. fst (o_MkdirAll U d w) = None" and "\<forall>a w. fst (o_Listen U a w) = None"
    and "peerMTLS f \<longrightarrow> (\<exists>cfg. LoadPeerServerTLS K (f_peerMtlsCert f) (f_peerMtlsKey f) (f_peerMtlsClientCA f) = Inr cfg)"
  shows "(check_flags f = None \<longrightarrow>
      (\<exists>g w'. main_boot N D order K U X f w =
          Done (Inr \<lparr>m_pool = p, m_store = None, m_scores = g, m_lease = None\<rparr>, w') \<and>
        pool_inv p \<and> p_self p = selfAddr f \<and> p_peers p = Map_Add (Map_New 3 None) (static_peers (f_peers f)) \<and>
        group_inv g \<and> (\<forall>t. held t g = Map.empty) \<and> g_mainCache g \<noteq> None \<and> g_hotCache g \<noteq> None \<and>
        g_name g = ''scores'' \<and> g_ttl g = f_cacheTTL f \<and> g_negTTL g = f_negTTL f \<and>
        peers_callable (scores_ext N D order U X f p))) \<and>
    (\<forall>err. check_flags f = Some err \<longrightarrow> main_boot N D order K U X f w = Done (Inl err, w))"
proof (intro conjI impI allI)
  assume c: "check_flags f = None"
  obtain q where "AddPeers N (static_peers (f_peers f)) q = (None, p)"
    using main_pool_steps [OF assms(1)] assms(2) by auto
  then have ring: "p_peers p = Map_Add (Map_New 3 None) (static_peers (f_peers f))" by (rule AddPeers_fields(1))
  have "peers_callable (scores_ext N D order U X f p)"
    by (rule pool.peers_callable [OF main_pool_fields(1) [OF assms(1)]]) (simp add: scores_ext_def)
  with main_boot_static [OF c assms, of D order X w] ring main_pool_fields [OF assms(1)] show
    "\<exists>g w'. main_boot N D order K U X f w =
        Done (Inr \<lparr>m_pool = p, m_store = None, m_scores = g, m_lease = None\<rparr>, w') \<and>
      pool_inv p \<and> p_self p = selfAddr f \<and> p_peers p = Map_Add (Map_New 3 None) (static_peers (f_peers f)) \<and>
      group_inv g \<and> (\<forall>t. held t g = Map.empty) \<and> g_mainCache g \<noteq> None \<and> g_hotCache g \<noteq> None \<and>
      g_name g = ''scores'' \<and> g_ttl g = f_cacheTTL f \<and> g_negTTL g = f_negTTL f \<and>
      peers_callable (scores_ext N D order U X f p)"
    by blast
next
  fix err assume "check_flags f = Some err"
  then show "main_boot N D order K U X f w = Done (Inl err, w)" by (simp add: main_boot_def)
qed

theorem main_boots_witness:
  "\<exists>p g w'. main_boot (ex_net :: unit net) ex_etcd [] ex_pki ex_os ex_base (ex_flags False) () =
       Done (Inr \<lparr>m_pool = p, m_store = None, m_scores = g, m_lease = None\<rparr>, w') \<and>
     p_self p = selfAddr (ex_flags False) \<and> g_name g = ''scores''"
proof -
  obtain p where p: "main_pool (ex_net :: unit net) ex_pki (ex_flags False) = Inr p"
    using ex_pool_static by blast
  have u: "\<forall>d w. fst (o_MkdirAll (ex_os :: unit os) d w) = None" "\<forall>a w. fst (o_Listen (ex_os :: unit os) a w) = None"
    by (simp_all add: ex_os_def)
  have e: "\<not> f_useEtcd (ex_flags False)" by (simp add: ex_flags_ok)
  have m: "peerMTLS (ex_flags False) \<longrightarrow> (\<exists>cfg. LoadPeerServerTLS ex_pki (f_peerMtlsCert (ex_flags False))
      (f_peerMtlsKey (ex_flags False)) (f_peerMtlsClientCA (ex_flags False)) = Inr cfg)"
    by (simp add: ex_flags_ok)
  note b = main_boots [OF p e ex_flags_ok(4,5) u m, of ex_etcd "[]" ex_base "()"]
  from b [THEN conjunct1, THEN mp, OF ex_flags_ok(1)] show ?thesis by blast
qed

text \<open>
  C35: A member that starts with etcd has announced itself and belongs to its own ring: it was granted a
  lease that did not exist before, its address is bound under the prefix of the nodes with this lease,
  which is kept alive through the channel that its goroutine listens to and which the registry will
  revoke; the ring is made of what etcd listed after that, itself included, every member of it has a
  client, and with \<open>-etcd-inval\<close> the pool publishes invalidations under the default prefix. The state of
  etcd is that after the announcement, which without \<open>-warm-keys\<close> is the last thing that happens.
\<close>

theorem main_boot_etcd:
  assumes "main_boot N D order K U X f w = Done (Inr m, w')" and "f_useEtcd f"
    and "etcd_ok D vw" and "etcd_lists D vw"
  shows "\<exists>r services pool w0 w1 ch. main_announce N D U f pool w0 = Done (Inr (m_lease m, m_pool m), w1) \<and>
    (f_warmKeys f = [] \<longrightarrow> w1 = w') \<and> p_registry (m_pool m) = Some r \<and> r_leaseID r \<noteq> 0 \<and>
    r_leaseID r \<notin> v_leases (vw w0) \<and>
    v_kv (vw w1) (''/geecache/nodes/'' @ selfAddr f) = Some (selfAddr f, Some (r_leaseID r)) \<and>
    m_lease m = Some (maintain_start ch) \<and> v_kept (vw w1) ch = Some (r_leaseID r) \<and>
    pool_inv (m_pool m) \<and> p_self (m_pool m) = selfAddr f \<and>
    p_peers (m_pool m) = Map_Add (Map_New 3 None) services \<and> selfAddr f \<in> set services \<and>
    dom (p_httpGetters (m_pool m)) = set services \<and>
    (f_etcdInval f \<longrightarrow> p_invalPrefix (m_pool m) = ''/geecache/inval/'')"
proof -
  obtain p w0 w1 g where p: "main_pool N K f = Inr p"
    and a: "main_announce N D U f p w0 = Done (Inr (m_lease m, m_pool m), w1)"
    and wk: "warm_keys (scores_ext N D order U X f (m_pool m)) (f_warmKeys f) (g, w1) = Done (m_scores m, w')"
    using main_boot_steps [OF assms(1)] by blast
  have w1: "f_warmKeys f = [] \<longrightarrow> w1 = w'" using wk by (auto simp: warm_keys_none)
  note pf = main_pool_fields [OF p]
  obtain loop p1 where
    reg: "RegisterWithEtcd N D (o_DialEtcd U (Split (f_etcd f) (CHR '',''))) 10 (p, w0) = Done (Inr loop, p1, w1)"
    and lease: "m_lease m = Some loop" and mp: "m_pool m = (if f_etcdInval f
      then snd (EnableEtcdInvalidation DefaultEtcdInvalidationPrefix p1) else p1)"
    using main_announce_etcd [OF a assms(2)] by blast
  obtain r services where r: "p_registry p1 = Some r" "announced (p_self p) r loop (vw w0) (vw w1)"
    "p_self p \<in> set services" "Pool_Set N services (p\<lparr>p_registry := Some r\<rparr>) = (None, p1)"
    using RegisterWithEtcd_ok [OF assms(3,4) reg] by blast
  note f = AddPeers_fields [of N services "p\<lparr>p_registry := Some r\<rparr>" p1, unfolded AddPeers_def, OF r(4)]
  have inv: "pool_inv p1" by (rule pool_inv_RegisterWithEtcd [OF pf(1) reg])
  have en: "snd (EnableEtcdInvalidation DefaultEtcdInvalidationPrefix p1) =
      p1\<lparr>p_invalPrefix := ''/geecache/inval/'', p_invalCancel := True\<rparr>"
    using r(1) by (simp add: EnableEtcdInvalidation_def DefaultEtcdInvalidationPrefix_def)
  have pool: "pool_inv (m_pool m)" "p_self (m_pool m) = selfAddr f" "p_peers (m_pool m) = p_peers p1"
    "p_httpGetters (m_pool m) = p_httpGetters p1" "p_registry (m_pool m) = Some r"
    "f_etcdInval f \<longrightarrow> p_invalPrefix (m_pool m) = ''/geecache/inval/''"
    using inv f(2) pf(2) r(1) by (auto simp: mp en pool_inv_def)
  have "dom (p_httpGetters p1) = set services"
    using f(6) by (auto simp: make_getters_eq split: if_splits)
  moreover obtain ch where "loop = maintain_start ch" "v_kept (vw w1) ch = Some (r_leaseID r)"
    using r(2) unfolding announced_def by blast
  moreover have "r_leaseID r \<noteq> 0" "r_leaseID r \<notin> v_leases (vw w0)"
    "v_kv (vw w1) (''/geecache/nodes/'' @ selfAddr f) = Some (selfAddr f, Some (r_leaseID r))"
    using r(2) pf(2) by (simp_all add: announced_def nodesPrefix_def)
  ultimately show ?thesis
    using a w1 pool r(3) lease f(1) pf(2)
    by (intro exI [of _ r] exI [of _ services] exI [of _ p] exI [of _ w0] exI [of _ w1] exI [of _ ch]) simp
qed

lemma ex_group_etcd: "main_group E (ex_flags e) None w = Done (Inr g, w') \<Longrightarrow> w' = w"
  by (auto simp: main_group_def NewGroup_def Let_def ex_flags_ok split: prod.splits)

theorem main_boot_etcd_witness:
  "\<exists>m w'. main_boot ex_net mem_etcd [] ex_pki ex_os ex_base (ex_flags True) (Some ([], 0, [])) = Done (Inr m, w') \<and>
     (\<exists>r loop. p_registry (m_pool m) = Some r \<and> m_lease m = Some loop \<and> v_kept (mem_view w') (l_cur loop) = Some (r_leaseID r)) \<and>
     selfAddr (ex_flags True) \<in> dom (p_httpGetters (m_pool m)) \<and> p_invalPrefix (m_pool m) = ''/geecache/inval/''"
proof -
  let ?f = "ex_flags True" and ?w = "Some ([], 0, []) :: etcd_world"
  obtain p where p: "main_pool (ex_net :: etcd_world net) ex_pki ?f = Inr p" "p_peerClientTLS p = None"
    using ex_pool_etcd by blast
  let ?E = "scores_ext ex_net mem_etcd [] ex_os ex_base ?f p :: (etcd_world, string list) ext"
  have d: "o_MkdirAll ex_os (backing_dir ?f) ?w = (None, ?w)" by (simp add: ex_os_def)
  have st: "main_store (x_bolt ex_base) ?f ?w = (Inr None, ?w)" by (simp add: main_store_def ex_flags_ok)
  obtain g where g: "main_group ?E ?f None ?w = Done (Inr g, ?w)"
    using main_group_cold [of ?f ?E None ?w] ex_group_etcd [of ?E True ?w] ex_flags_ok(4) by metis
  have l: "main_listen ex_os ex_pki ?f ?w = (Inr (), ?w)"
    by (simp add: main_listen_def ex_os_def ex_flags_ok)
  have "\<exists>lease p' w'. main_announce ex_net mem_etcd ex_os ?f p ?w = Done (Inr (lease, p'), w')"
    by (simp add: main_announce_def ex_flags_ok RegisterWithEtcd_def ex_os_def NewEtcdRegistry_def Register_def
        registerOnce_def mem_etcd_def GetServices_def Pool_Set_def p(2) Let_def)
  then obtain lease p' w' where a: "main_announce ex_net mem_etcd ex_os ?f p ?w = Done (Inr (lease, p'), w')"
    by blast
  note b = main_boot_run [OF ex_flags_ok(1) p(1) ex_flags_ok(5) d st g l a]
  have e: "f_useEtcd ?f" by (simp add: ex_flags_ok)
  from main_boot_etcd [OF b e mem_etcd_ok mem_etcd_lists] ex_flags_ok(5,7) [of True] b show ?thesis
    by (auto simp: maintain_start_def)
qed

text \<open>
  C36: A member started with mutual TLS never speaks plainly to another: the start is refused unless
  its own address is \<open>https\<close> and all files are named, and from then on, whatever peers are added or
  removed and whatever etcd reports, all clients use the certificates of the flags and all peers but
  blank ones have \<open>https\<close> addresses; the plain listener serves nothing of the cache.
\<close>

theorem main_mtls_only:
  assumes "main_boot N D order K U X f w = Done (Inr m, w1)" and "peerMTLS f"
    and "\<forall>x\<in>set xs. \<forall>c. x \<noteq> OSetPeerClientTLS c" and "fold (pool_step N D) xs (m_pool m, w1) = (p', w')"
  shows "HasPrefix (selfAddr f) ''https://'' \<and> (\<forall>path\<in>set (mtls_files f). TrimSpace path \<noteq> []) \<and>
    (\<exists>cfg. LoadPeerClientTLS K (f_peerMtlsServerCA f) (f_peerMtlsClientCert f) (f_peerMtlsClientKey f) = Inr cfg \<and>
       (\<forall>a h. p_httpGetters p' a = Some h \<longrightarrow> h_tls h = Some cfg \<and> secure_peer a) \<and>
       (\<forall>a c. p_grpcClients p' a = Some c \<longrightarrow> c_creds c = Some cfg)) \<and>
    plain_handler E f p' req s = Done (not_found, s)"
proof -
  obtain p w3 w4 where check: "check_flags f = None" and p: "main_pool N K f = Inr p"
    and a: "main_announce N D U f p w3 = Done (Inr (m_lease m, m_pool m), w4)"
    using main_boot_steps [OF assms(1)] by blast
  from check assms(2) have "HasPrefix (selfAddr f) ''https://''" "\<forall>path\<in>set (mtls_files f). TrimSpace path \<noteq> []"
    by (auto simp: check_flags_def selfAddr_def list_ex_iff split: if_splits)
  moreover obtain cfg where cfg: "LoadPeerClientTLS K (f_peerMtlsServerCA f) (f_peerMtlsClientCert f) (f_peerMtlsClientKey f) = Inr cfg"
    "tls_inv cfg p" using main_pool_tls [OF p assms(2)] by blast
  moreover have "tls_inv cfg (m_pool m)" by (rule tls_inv_announce [OF cfg(2) a])
  then have "tls_inv cfg p'" by (rule tls_inv_run [OF _ assms(3,4)])
  ultimately show ?thesis using assms(2) by (auto simp: tls_inv_def plain_handler_def)
qed

theorem main_mtls_only_witness:
  "\<exists>m cfg w'. main_boot (ex_net :: unit net) ex_etcd [] ex_pki ex_os ex_base ex_mtls_flags () = Done (Inr m, w') \<and>
     (\<forall>a h. p_httpGetters (m_pool m) a = Some h \<longrightarrow> h_tls h = Some cfg \<and> secure_peer a) \<and>
     p_httpGetters (m_pool m) ''https://b'' \<noteq> None"
proof -
  let ?f = ex_mtls_flags
  obtain cfg where cfg: "LoadPeerClientTLS ex_pki (f_peerMtlsServerCA ?f) (f_peerMtlsClientCert ?f)
      (f_peerMtlsClientKey ?f) = Inr cfg"
    by (simp add: LoadPeerClientTLS_def ex_pki_def ex_mtls_flags_def)
  have peers: "static_peers (f_peers ?f) = [''https://a'', ''https://b'']" by code_simp
  have off: "tls_offender [''https://a'', ''https://b''] = None" by code_simp
  obtain p where p: "main_pool (ex_net :: unit net) ex_pki ?f = Inr p" "p_httpGetters p ''https://b'' \<noteq> None"
    using ex_mtls_ok(2,3) cfg
    by (simp add: main_pool_def main_config_def Let_def peers off AddPeers_def Pool_Set_def UseGRPC_def
        SetPeerClientTLS_def make_getters_eq)
  have ne: "\<not> f_useEtcd ?f" by (simp add: ex_mtls_ok)
  have u: "\<forall>d w. fst (o_MkdirAll (ex_os :: unit os) d w) = None" "\<forall>a w. fst (o_Listen (ex_os :: unit os) a w) = None"
    by (simp_all add: ex_os_def)
  have l: "peerMTLS ?f \<longrightarrow> (\<exists>cfg. LoadPeerServerTLS ex_pki (f_peerMtlsCert ?f) (f_peerMtlsKey ?f) (f_peerMtlsClientCA ?f) = Inr cfg)"
    by (simp add: LoadPeerServerTLS_def ex_pki_def ex_mtls_flags_def)
  obtain g w' where b: "main_boot (ex_net :: unit net) ex_etcd [] ex_pki ex_os ex_base ?f () =
      Done (Inr \<lparr>m_pool = p, m_store = None, m_scores = g, m_lease = None\<rparr>, w')"
    using main_boot_static [OF ex_mtls_ok(1) p(1) ne ex_mtls_ok(4,5) u l, of ex_etcd "[]" ex_base "()"] by blast
  let ?m = "\<lparr>m_pool = p, m_store = None, m_scores = g, m_lease = None\<rparr>"
  have f: "fold (pool_step (ex_net :: unit net) ex_etcd) [] (m_pool ?m, w') = (m_pool ?m, w')" by simp
  from main_mtls_only [OF b ex_mtls_ok(2) _ f, of "\<lambda>_. ex_ext" ex_stranger "(ex_groups, ([], 1))"] b p(2)
  show ?thesis by auto
qed

text \<open>
  With mutual TLS on, no connection reaches a server. \<open>main\<close> registers the matcher for anything first
  on both listeners, and cmux gives priority to the matcher registered first: every connection is
  accepted and closed, on the plain listener, which is meant to keep \<open>/healthz\<close> and \<open>/metrics\<close>, and on
  the one for peers. Without mutual TLS, gRPC and HTTP are told apart as intended.
\<close>

theorem main_mtls_unreachable:
  assumes "cmux_ok accepts route"
  shows "(peerMTLS f \<longrightarrow> route (plain_mux f) c = Some Discard \<and> route (peer_mux f) c = Some Discard) \<and>
    (\<not> peerMTLS f \<longrightarrow> route (plain_mux f) c =
       (if accepts GRPCContentType c then Some ServeGRPC else if accepts HTTP1 c then Some ServeHTTP1 else None))"
  using assms by (simp add: cmux_ok_def plain_mux_def peer_mux_def)

theorem main_mtls_unreachable_witness:
  "\<exists>route. cmux_ok (\<lambda>m c. m = Any \<or> m = c) route \<and> route (peer_mux ex_mtls_flags) GRPCContentType = Some Discard"
proof -
  let ?a = "\<lambda>m c. m = Any \<or> m = c"
  let ?r = "\<lambda>ms c. map_option snd (List.find (\<lambda>(m, _). ?a m c) ms)"
  have "cmux_ok ?a ?r" by (simp add: cmux_ok_def)
  with main_mtls_unreachable [OF this, of ex_mtls_flags GRPCContentType] ex_mtls_ok(2) show ?thesis by blast
qed

end
