(* ===== verification/Cluster.thy ===== *)
theory Cluster
  imports Boot
begin

text \<open>
  Several members at once: what one member sends is what another serves. The members share the list
  of addresses and the token; each has its own pool, network, etcd client, groups and world. A
  theorem follows one request: the call on the sending member, the request on the wire, and what
  the receiving member does with it.
\<close>

section \<open>Members of a cluster\<close>

definition cluster ::
  "string set \<Rightarrow> (string \<Rightarrow> 'w net) \<Rightarrow> (string \<Rightarrow> string list) \<Rightarrow> (string \<Rightarrow> HTTPPool) \<Rightarrow> string \<Rightarrow>
   (string \<Rightarrow> HTTPPool) \<Rightarrow> bool" where
  "cluster S N peers q tok pool \<longleftrightarrow> members S N peers q pool \<and>
     (\<forall>a\<in>S. (\<exists>host. peer_url a host) \<and> p_basePath (q a) = ''/geecache'' \<and> p_peerAuthToken (q a) = tok)"

lemma cluster_member:
  assumes "cluster S N peers q tok pool" and "a \<in> S"
  shows "pool_inv (pool a)" "p_self (pool a) = a" "p_peerAuthToken (pool a) = tok"
    "p_basePath (pool a) = ''/geecache''" "p_useGRPC (pool a) = p_useGRPC (q a)"
  using assms AddPeers_fields [of "N a" "peers a" "q a" "pool a"] pool_inv_AddPeers [of "N a" "peers a" "q a" "pool a"]
  by (auto simp: cluster_def members_def)

lemma cluster_client:
  assumes "cluster S N peers q tok pool" and "a \<in> S" and "b \<in> S"
  shows "\<exists>h. p_httpGetters (pool a) b = Some h \<and> client_of h (pool b)"
proof -
  have "p_httpGetters (pool a) b = Some (NewHTTPGetter b ''/geecache'' tok (p_peerClientTLS (q a)))"
    using assms AddPeers_fields(6) [of "N a" "peers a" "q a" "pool a"]
    by (simp add: cluster_def members_def make_getters_eq)
  moreover have "\<exists>host. peer_url b host" using assms(1,3) by (simp add: cluster_def)
  ultimately show ?thesis
    using cluster_member(3,4) [OF assms(1,3)] by (simp add: client_of_def NewHTTPGetter_def)
qed

lemma cluster_grpc_client:
  assumes "cluster S N peers q tok pool" and "a \<in> S" and "p_grpcClients (pool a) b = Some c"
  shows "c_target c = grpcTarget b \<and> c_peerToken c = tok"
  using assms AddPeers_fields(7) [of "N a" "peers a" "q a" "pool a"]
  by (auto simp: cluster_def members_def make_grpcClients_eq split: if_splits sum.splits
      dest!: NewGRPCClient_fields)

text \<open>The owner of a key serves what the others forward to it.\<close>

definition owner_of :: "string set \<Rightarrow> (string \<Rightarrow> HTTPPool) \<Rightarrow> string \<Rightarrow> string \<Rightarrow> bool" where
  "owner_of S pool key m \<longleftrightarrow> m \<in> S \<and> (\<forall>a\<in>S. (IsOwner (pool a) key \<longleftrightarrow> a = m) \<and>
     (a \<noteq> m \<longrightarrow> ownerForKey (pool a) key = Inr m \<and> snd (PickPeer (pool a) key) = m))"

lemma cluster_owner: "cluster S N peers q tok pool \<Longrightarrow> \<exists>m. owner_of S pool key m"
  using members_owner [of S N peers q pool key] by (auto simp: cluster_def owner_of_def)

text \<open>Groups of the members have the pool of their member as peers.\<close>

definition pooled :: "string set \<Rightarrow> (string \<Rightarrow> 'w net) \<Rightarrow> (string \<Rightarrow> HTTPPool) \<Rightarrow>
    (string \<Rightarrow> string \<Rightarrow> ('w, 'b) ext) \<Rightarrow> bool" where
  "pooled S N pool E \<longleftrightarrow> (\<forall>a\<in>S. \<forall>grp. \<exists>D order. x_peers (E a grp) = Some (pool_picker (N a) D order (pool a)))"

lemma pooled_Set:
  assumes "cluster S N peers q tok pool" and "owner_of S pool key m" and "pooled S N pool E"
    and "a \<in> S" and "key \<noteq> []"
  shows "a = m \<Longrightarrow> Group_Set (E a grp) key val (g, w) = setLocalAndBroadcast (E a grp) key val (g, w)"
    and "a \<noteq> m \<Longrightarrow> Group_Set (E a grp) key val (g, w) =
      (case ForwardSet (N a) (pool a) (g_name g) key val w of (err, w1) \<Rightarrow> Done (err, g, w1))"
proof -
  obtain D order where x: "x_peers (E a grp) = Some (pool_picker (N a) D order (pool a))"
    using assms(3,4) unfolding pooled_def by blast
  note inv = cluster_member(1) [OF assms(1,4)]
  have pick: "pp_PickPeer (pool_picker (N a) D order (pool a)) key w = [] \<longleftrightarrow> a = m"
    using assms(2,4) by (auto simp: owner_of_def pool_picker_def IsOwner_iff PickPeer_addr)
  show "Group_Set (E a grp) key val (g, w) = setLocalAndBroadcast (E a grp) key val (g, w)" if "a = m"
    using pool.owner_serves(1) [OF inv x _ assms(5)] pick that by simp
  show "Group_Set (E a grp) key val (g, w) =
      (case ForwardSet (N a) (pool a) (g_name g) key val w of (err, w1) \<Rightarrow> Done (err, g, w1))" if "a \<noteq> m"
    using pool.others_write(1) [OF inv x _ assms(5)] pick that by (simp add: pool_writer_def)
qed

lemma ForwardSet_http:
  "ownerForKey p key = Inr m \<Longrightarrow> \<not> p_useGRPC p \<Longrightarrow> p_httpGetters p m = Some h \<Longrightarrow>
   ForwardSet N p grp key val w = httpGetter_Set N h grp key val w"
  by (simp add: ForwardSet_def)

lemma ForwardSet_grpc:
  "ownerForKey p key = Inr m \<Longrightarrow> p_useGRPC p \<Longrightarrow> p_grpcClients p m = Some c \<Longrightarrow>
   ForwardSet N p grp key val w = GRPCClient_Set N c grp key val w"
  by (simp add: ForwardSet_def)

lemma invalidate_peer_http:
  "\<not> p_useGRPC p \<Longrightarrow> p_httpGetters p a = Some h \<Longrightarrow>
   invalidate_peer N p grp key a w = httpGetter_Invalidate N h grp key w"
  by (simp add: invalidate_peer_def)

lemma interceptor_admits:
  "unaryPeerAuthInterceptor tok (Some (peerAppendOutgoingContext [] tok)) req handler s = handler req s"
  unfolding unaryPeerAuthInterceptor_def Let_def option.case one_token MD_Get_outgoing by simp

section \<open>Two members\<close>

abbreviation url_a :: string where "url_a \<equiv> ''http://a''"
abbreviation url_b :: string where "url_b \<equiv> ''http://b''"

definition ex_config :: "bool \<Rightarrow> string \<Rightarrow> HTTPPool" where
  "ex_config grpc a = UseGRPC grpc (SetPeerAuthToken ''secret'' (NewHTTPPool (ex_net :: unit net) a []))"

definition ex_node :: "bool \<Rightarrow> string \<Rightarrow> HTTPPool" where
  "ex_node grpc a = snd (AddPeers (ex_net :: (mem_world \<times> int) net) [url_a, url_b] (ex_config grpc a))"

definition ex_env :: "bool \<Rightarrow> string \<Rightarrow> string \<Rightarrow> (mem_world \<times> int, string list) ext" where
  "ex_env grpc a grp = pool_ext (ex_node grpc a)"

text \<open>The positions of the two members, from the checksums of what their addresses have in common.\<close>

lemma crc32_bytes_append: "crc32_bytes c (xs @ ys) = crc32_bytes (crc32_bytes c xs) ys"
  by (induction c xs rule: crc32_bytes.induct) simp_all

lemma crc_prefix_steps:
  "crc32_bytes (NOT 0) ''0ht'' = 0xde9997f7" "crc32_bytes 0xde9997f7 ''tp:'' = 0xbd93327e" "crc32_bytes 0xbd93327e ''//'' = 0xc0a6bd5f"
  "crc32_bytes (NOT 0) ''1ht'' = 0xdf5bfdc0" "crc32_bytes 0xdf5bfdc0 ''tp:'' = 0x76cfe1db" "crc32_bytes 0x76cfe1db ''//'' = 0x0c0cbdc1"
  "crc32_bytes (NOT 0) ''2ht'' = 0xdd1d4399" "crc32_bytes 0xdd1d4399 ''tp:'' = 0xf05b9375" "crc32_bytes 0xf05b9375 ''//'' = 0x8283ba22"
  by code_simp+

lemma crc_prefix_0: "crc32_bytes (NOT 0) ''0http://'' = 0xc0a6bd5f"
proof -
  have "''0http://'' = ''0ht'' @ ''tp:'' @ ''//''" by simp
  then show ?thesis by (simp only: crc32_bytes_append crc_prefix_steps)
qed

lemma crc_prefix_1: "crc32_bytes (NOT 0) ''1http://'' = 0x0c0cbdc1"
proof -
  have "''1http://'' = ''1ht'' @ ''tp:'' @ ''//''" by simp
  then show ?thesis by (simp only: crc32_bytes_append crc_prefix_steps)
qed

lemma crc_prefix_2: "crc32_bytes (NOT 0) ''2http://'' = 0x8283ba22"
proof -
  have "''2http://'' = ''2ht'' @ ''tp:'' @ ''//''" by simp
  then show ?thesis by (simp only: crc32_bytes_append crc_prefix_steps)
qed

lemma crc_last:
  "NOT (crc32_bytes 0xc0a6bd5f ''a'') = 0x3e5e44e9" "NOT (crc32_bytes 0xc0a6bd5f ''b'') = 0xa7571553"
  "NOT (crc32_bytes 0x0c0cbdc1 ''a'') = 0x292550aa" "NOT (crc32_bytes 0x0c0cbdc1 ''b'') = 0xb02c0110"
  "NOT (crc32_bytes 0x8283ba22 ''a'') = 0x10a86c6f" "NOT (crc32_bytes 0x8283ba22 ''b'') = 0x89a13dd5"
  by code_simp+

lemma Checksum_split: "ChecksumIEEE (xs @ ys) = NOT (crc32_bytes (crc32_bytes (NOT 0) xs) ys)"
  by (simp only: ChecksumIEEE_def crc32_bytes_append)

lemma vnodes_3: "vnodes (Map_New 3 None) (p @ x) =
    {uint (ChecksumIEEE ((''0'' @ p) @ x)), uint (ChecksumIEEE ((''1'' @ p) @ x)), uint (ChecksumIEEE ((''2'' @ p) @ x))}"
proof -
  have i: "{0..<3::int} = {0, 1, 2}" by auto
  have "Itoa 0 = ''0''" "Itoa 1 = ''1''" "Itoa 2 = ''2''" by code_simp+
  then show ?thesis by (simp add: vnodes_def Map_New_def i)
qed

lemma ex_urls: "vnodes (Map_New 3 None) url_a \<inter> vnodes (Map_New 3 None) url_b = {}"
proof -
  have p: "''0'' @ ''http://'' = ''0http://''" "''1'' @ ''http://'' = ''1http://''" "''2'' @ ''http://'' = ''2http://''"
    by simp_all
  have u: "url_a = ''http://'' @ ''a''" "url_b = ''http://'' @ ''b''" by simp_all
  show ?thesis
    unfolding u vnodes_3 p Checksum_split crc_prefix_0 crc_prefix_1 crc_prefix_2 crc_last by simp
qed

lemma ex_config_fields:
  "p_self (ex_config grpc a) = a" "p_basePath (ex_config grpc a) = ''/geecache''"
  "p_peerAuthToken (ex_config grpc a) = ''secret''" "p_useGRPC (ex_config grpc a) = grpc"
  "p_peerClientTLS (ex_config grpc a) = None"
  by (simp_all add: ex_config_def UseGRPC_def SetPeerAuthToken_def NewHTTPPool_def AddPeers_def Pool_Set_def
      defaultPath_def)

lemma ex_cluster_on:
  "cluster {url_a, url_b} (\<lambda>_. N) (\<lambda>_. [url_a, url_b]) (ex_config grpc) ''secret''
     (\<lambda>a. snd (AddPeers N [url_a, url_b] (ex_config grpc a)))"
proof -
  have "collision_free (Map_New 3 None) {url_a, url_b}"
    using ex_urls by (simp add: collision_free_def Int_commute)
  moreover have "AddPeers N [url_a, url_b] (ex_config grpc a) =
      (None, snd (AddPeers N [url_a, url_b] (ex_config grpc a)))" for a
    by (simp add: AddPeers_def Pool_Set_def ex_config_fields)
  moreover have "host_ok ''a''" "host_ok ''b''" by code_simp+
  then have "peer_url url_a ''a''" "peer_url url_b ''b''" by (simp_all add: peer_url_def)
  then have "\<forall>x\<in>{url_a, url_b}. \<exists>host. peer_url x host" by blast
  ultimately show ?thesis by (simp add: cluster_def members_def ex_config_fields)
qed

lemma ex_cluster:
  "cluster {url_a, url_b} (\<lambda>_. ex_net :: (mem_world \<times> int) net) (\<lambda>_. [url_a, url_b]) (ex_config grpc) ''secret''
     (ex_node grpc)"
  using ex_cluster_on [of "ex_net :: (mem_world \<times> int) net" grpc] unfolding ex_node_def [abs_def] .

lemma ex_pooled: "pooled {url_a, url_b} (\<lambda>_. ex_net) (ex_node grpc) (ex_env grpc)"
  by (auto simp: pooled_def ex_env_def pool_ext_def)

section \<open>Members on one machine\<close>

text \<open>The checksums go on from those of the common beginning, a few bytes at a time.\<close>

lemma crc_local_steps:
  "crc32_bytes 0xc0a6bd5f ''loc'' = 0x7e2dcaab" "crc32_bytes 0x7e2dcaab ''alh'' = 0x62d3bd98" "crc32_bytes 0x62d3bd98 ''ost'' = 0xad40a9bc" "crc32_bytes 0xad40a9bc '':'' = 0x047666bc"
  "crc32_bytes 0x0c0cbdc1 ''loc'' = 0xbfa3156b" "crc32_bytes 0xbfa3156b ''alh'' = 0xffdc5cee" "crc32_bytes 0xffdc5cee ''ost'' = 0x2ae662ff" "crc32_bytes 0x2ae662ff '':'' = 0xeb24d05d"
  "crc32_bytes 0x8283ba22 ''loc'' = 0x2641736a" "crc32_bytes 0x2641736a ''alh'' = 0x83bd7935" "crc32_bytes 0x83bd7935 ''ost'' = 0x797c397b" "crc32_bytes 0x797c397b '':'' = 0x01a20d3f"
  by code_simp+

lemma crc_local_0: "crc32_bytes (NOT 0) ''0http://localhost:'' = 0x047666bc"
proof -
  have "''0http://localhost:'' = ''0http://'' @ ''loc'' @ ''alh'' @ ''ost'' @ '':''" by simp
  then show ?thesis by (simp only: crc32_bytes_append crc_prefix_0 crc_local_steps)
qed

lemma crc_local_1: "crc32_bytes (NOT 0) ''1http://localhost:'' = 0xeb24d05d"
proof -
  have "''1http://localhost:'' = ''1http://'' @ ''loc'' @ ''alh'' @ ''ost'' @ '':''" by simp
  then show ?thesis by (simp only: crc32_bytes_append crc_prefix_1 crc_local_steps)
qed

lemma crc_local_2: "crc32_bytes (NOT 0) ''2http://localhost:'' = 0x01a20d3f"
proof -
  have "''2http://localhost:'' = ''2http://'' @ ''loc'' @ ''alh'' @ ''ost'' @ '':''" by simp
  then show ?thesis by (simp only: crc32_bytes_append crc_prefix_2 crc_local_steps)
qed

lemma crc_local_last:
  "NOT (crc32_bytes 0x047666bc ''1'') = 0x6cf27604" "NOT (crc32_bytes 0x047666bc ''2'') = 0xf5fb27be"
  "NOT (crc32_bytes 0xeb24d05d ''1'') = 0xbb10f65c" "NOT (crc32_bytes 0xeb24d05d ''2'') = 0x2219a7e6"
  "NOT (crc32_bytes 0x01a20d3f ''1'') = 0x184670f5" "NOT (crc32_bytes 0x01a20d3f ''2'') = 0x814f214f"
  by code_simp+

abbreviation local :: "string \<Rightarrow> string" where "local port \<equiv> ''http://localhost:'' @ port"

lemma ex_ports: "vnodes (Map_New 3 None) (local ''1'') \<inter> vnodes (Map_New 3 None) (local ''2'') = {}"
proof -
  have p: "''0'' @ ''http://localhost:'' = ''0http://localhost:''" "''1'' @ ''http://localhost:'' = ''1http://localhost:''"
    "''2'' @ ''http://localhost:'' = ''2http://localhost:''"
    by simp_all
  show ?thesis
    unfolding vnodes_3 p Checksum_split crc_local_0 crc_local_1 crc_local_2 crc_local_last by simp
qed

definition local_flags :: "string \<Rightarrow> flags" where
  "local_flags a = (ex_flags False)\<lparr>f_port := (if a = local ''1'' then 1 else 2),
     f_peers := ''http://localhost:1,http://localhost:2''\<rparr>"

lemma local_flags_ok:
  "check_flags (local_flags a) = None" "\<not> peerMTLS (local_flags a)" "\<not> f_useEtcd (local_flags a)"
  "f_persistPath (local_flags a) = []" "f_warmKeys (local_flags a) = []" "f_peerAuthToken (local_flags a) = []"
  "static_peers (f_peers (local_flags a)) = [local ''1'', local ''2'']"
proof -
  have "static_peers ''http://localhost:1,http://localhost:2'' = [local ''1'', local ''2'']" by code_simp
  then show "static_peers (f_peers (local_flags a)) = [local ''1'', local ''2'']" by (simp add: local_flags_def)
qed (simp_all add: local_flags_def ex_flags_def check_flags_def peerMTLS_def mtls_files_def)

lemma local_self: "a \<in> {local ''1'', local ''2''} \<Longrightarrow> selfAddr (local_flags a) = a"
proof -
  have "Itoa 1 = ''1''" "Itoa 2 = ''2''" by code_simp+
  then show "a \<in> {local ''1'', local ''2''} \<Longrightarrow> selfAddr (local_flags a) = a"
    using local_flags_ok(2) [of a] by (auto simp: selfAddr_def local_flags_def)
qed

lemma local_boot:
  "\<exists>m w'. main_boot (ex_net :: unit net) ex_etcd [] ex_pki ex_os ex_base (local_flags a) () = Done (Inr m, w')"
proof -
  have "\<exists>p. main_pool (ex_net :: unit net) ex_pki (local_flags a) = Inr p"
    using local_flags_ok [of a]
    by (simp add: main_pool_def main_config_def Let_def AddPeers_def Pool_Set_def UseGRPC_def NewHTTPPool_def)
  then obtain p where p: "main_pool (ex_net :: unit net) ex_pki (local_flags a) = Inr p" by blast
  have u: "\<forall>d w. fst (o_MkdirAll (ex_os :: unit os) d w) = None" "\<forall>a w. fst (o_Listen (ex_os :: unit os) a w) = None"
    by (simp_all add: ex_os_def)
  have l: "peerMTLS (local_flags a) \<longrightarrow> (\<exists>cfg. LoadPeerServerTLS ex_pki (f_peerMtlsCert (local_flags a))
      (f_peerMtlsKey (local_flags a)) (f_peerMtlsClientCA (local_flags a)) = Inr cfg)"
    using local_flags_ok(2) by blast
  from main_boot_static [OF local_flags_ok(1) p local_flags_ok(3-5) u l] show ?thesis by blast
qed

section \<open>Properties\<close>

text \<open>
  C7: Members started by \<open>main\<close> with the same peers are a cluster: when each has its own address among
  the static peers of its flags, the lists of peers agree up to order and the tokens agree, then the
  pools they start with form a cluster, and every key has exactly one owner, which all members
  agree on.
\<close>

theorem main_cluster:
  assumes "S \<noteq> {}" and "[] \<notin> S" and "collision_free (Map_New 3 None) S"
    and "\<forall>a\<in>S. \<exists>w w'. main_boot (N a) (D a) (order a) (K a) (U a) (X a) (f a) w = Done (Inr (m a), w')"
    and "\<forall>a\<in>S. \<not> f_useEtcd (f a) \<and> selfAddr (f a) = a \<and> set (static_peers (f_peers (f a))) = S \<and>
      TrimSpace (f_peerAuthToken (f a)) = tok \<and> (\<exists>host. peer_url a host)"
  shows "\<exists>q. cluster S N (\<lambda>a. static_peers (f_peers (f a))) q tok (\<lambda>a. m_pool (m a)) \<and>
    (\<forall>a\<in>S. p_useGRPC (q a) = f_useGRPC (f a)) \<and> (\<exists>!b. owner_of S (\<lambda>a. m_pool (m a)) key b)"
proof -
  have start: "\<exists>q. main_config (N a) (K a) (f a) = Inr q \<and>
      AddPeers (N a) (static_peers (f_peers (f a))) q = (None, m_pool (m a))" if "a \<in> S" for a
  proof -
    obtain w w' where b: "main_boot (N a) (D a) (order a) (K a) (U a) (X a) (f a) w = Done (Inr (m a), w')"
      using assms(4) \<open>a \<in> S\<close> by blast
    have e: "\<not> f_useEtcd (f a)" using assms(5) \<open>a \<in> S\<close> by blast
    obtain p w3 w4 where "main_pool (N a) (K a) (f a) = Inr p"
      "main_announce (N a) (D a) (U a) (f a) p w3 = Done (Inr (m_lease (m a), m_pool (m a)), w4)"
      using main_boot_steps [OF b] by blast
    then have "main_pool (N a) (K a) (f a) = Inr p" "m_pool (m a) = p" by (simp_all add: main_announce_static [OF e])
    with main_pool_steps [of "N a" "K a" "f a" p] e show ?thesis by auto
  qed
  then obtain q where q: "\<forall>a\<in>S. main_config (N a) (K a) (f a) = Inr (q a) \<and>
      AddPeers (N a) (static_peers (f_peers (f a))) (q a) = (None, m_pool (m a))"
    by metis
  note fields = main_config_fields
  have c: "cluster S N (\<lambda>a. static_peers (f_peers (f a))) q tok (\<lambda>a. m_pool (m a))"
    unfolding cluster_def members_def using assms(1-3,5) q fields(2-4) by metis
  moreover have "\<forall>a\<in>S. p_useGRPC (q a) = f_useGRPC (f a)" using q fields(5) by metis
  moreover have "\<exists>!b. owner_of S (\<lambda>a. m_pool (m a)) key b"
    using cluster_owner [OF c, of key] unfolding owner_of_def by metis
  ultimately show ?thesis by blast
qed

theorem main_cluster_witness:
  "\<exists>m. (\<forall>a\<in>{local ''1'', local ''2''}. \<exists>w'. main_boot (ex_net :: unit net) ex_etcd [] ex_pki ex_os ex_base (local_flags a) ()
       = Done (Inr (m a), w')) \<and>
     (\<exists>!b. owner_of {local ''1'', local ''2''} (\<lambda>a. m_pool (m a)) ''Tom'' b)"
proof -
  let ?S = "{local ''1'', local ''2''}"
  obtain m where m: "\<forall>a\<in>?S. \<exists>w'. main_boot (ex_net :: unit net) ex_etcd [] ex_pki ex_os ex_base (local_flags a) () = Done (Inr (m a), w')"
    using local_boot by metis
  then have b: "\<forall>a\<in>?S. \<exists>w w'. main_boot (ex_net :: unit net) ex_etcd [] ex_pki ex_os ex_base (local_flags a) w = Done (Inr (m a), w')"
    by blast
  have ne: "?S \<noteq> {}" "[] \<notin> ?S" by simp_all
  have cf: "collision_free (Map_New 3 None) ?S" using ex_ports by (simp add: collision_free_def Int_commute)
  have "host_ok ''localhost:1''" "host_ok ''localhost:2''" by code_simp+
  then have "peer_url (local ''1'') ''localhost:1''" "peer_url (local ''2'') ''localhost:2''" by (simp_all add: peer_url_def)
  then have "\<exists>host. peer_url a host" if "a \<in> ?S" for a using that by blast
  then have h: "\<forall>a\<in>?S. \<not> f_useEtcd (local_flags a) \<and> selfAddr (local_flags a) = a \<and>
      set (static_peers (f_peers (local_flags a))) = ?S \<and> TrimSpace (f_peerAuthToken (local_flags a)) = [] \<and>
      (\<exists>host. peer_url a host)"
    using local_flags_ok local_self by simp
  from main_cluster [OF ne cf b h, of "''Tom''"] m show ?thesis by blast
qed

text \<open>
  C5: A write anywhere in a cluster over HTTP ends at the owner, when neither the group nor the key has a
  slash in it and the value has at most 32 MiB (a slash is answered with status 400 and a longer body is
  cut). There is one member at which \<open>Set\<close> of such a key stores locally and broadcasts; at every other
  member it sends one HTTP request to that member and leaves its own group alone, and when this request is
  served there, exactly the local store and broadcast of the same key and value are run, never another
  forward.
\<close>

theorem cluster_write_at_owner:
  assumes "cluster S N peers q tok pool" and "pooled S N pool E" and "\<forall>a\<in>S. \<not> p_useGRPC (q a)"
    and "key \<noteq> []" and "slash_free key" and "slash_free grp" and "length val \<le> maxSetBodyBytes"
  shows "\<exists>m\<in>S.
    (\<forall>g w. Group_Set (E m grp) key val (g, w) = setLocalAndBroadcast (E m grp) key val (g, w)) \<and>
    (\<forall>a\<in>S - {m}. \<forall>g w Groups gm wm. g_name g = grp \<and> Groups grp = Some gm \<longrightarrow>
       (\<exists>h req r. p_httpGetters (pool a) m = Some h \<and> h_peer h = m \<and> deliver req = Some r \<and>
          Group_Set (E a grp) key val (g, w) = (case do_write (N a) h req w of (err, w1) \<Rightarrow> Done (err, g, w1)) \<and>
          ServeHTTP (E m) (pool m) r (Groups, wm) =
            obind (setLocalAndBroadcast (E m grp) key val (gm, wm)) (\<lambda>x. Done (answer_write grp Groups x))))"
proof -
  obtain m where m: "owner_of S pool key m" using cluster_owner [OF assms(1)] by blast
  then have mS: "m \<in> S" by (simp add: owner_of_def)
  have own: "Group_Set (E m grp) key val s = setLocalAndBroadcast (E m grp) key val s" for s
    using pooled_Set(1) [OF assms(1) m assms(2) mS assms(4) refl] by (cases s) simp
  have "\<exists>h req r. p_httpGetters (pool a) m = Some h \<and> h_peer h = m \<and> deliver req = Some r \<and>
          Group_Set (E a grp) key val (g, w) = (case do_write (N a) h req w of (err, w1) \<Rightarrow> Done (err, g, w1)) \<and>
          ServeHTTP (E m) (pool m) r (Groups, wm) =
            obind (setLocalAndBroadcast (E m grp) key val (gm, wm)) (\<lambda>x. Done (answer_write grp Groups x))"
    if a: "a \<in> S" "a \<noteq> m" and g: "g_name g = grp" "Groups grp = Some gm" for a g w Groups gm wm
  proof -
    obtain h where h: "p_httpGetters (pool a) m = Some h" "client_of h (pool m)"
      using cluster_client [OF assms(1) a(1) mS] by blast
    have hp: "h_peer h = m" using cluster_member(1) [OF assms(1) a(1)] h(1) by (auto simp: pool_inv_def)
    have o: "ownerForKey (pool a) key = Inr m" using m a by (simp add: owner_of_def)
    have ng: "\<not> p_useGRPC (pool a)" using assms(3) a(1) cluster_member(5) [OF assms(1) a(1)] by simp
    obtain req r where r: "httpGetter_Set (N a) h grp key val w = do_write (N a) h req w" "deliver req = Some r"
      "ServeHTTP (E m) (pool m) r (Groups, wm) =
         obind (Group_Set (E m grp) key (take maxSetBodyBytes val) (gm, wm)) (\<lambda>x. Done (answer_write grp Groups x))"
      using write_roundtrip [where N = "N a" and E = "E m" and w = wm and wc = w and Groups = Groups and grp = grp
          and key = key and val = val, OF h(2) g(2)] assms(5,6) by blast
    have "Group_Set (E a grp) key val (g, w) = (case do_write (N a) h req w of (err, w1) \<Rightarrow> Done (err, g, w1))"
      using pooled_Set(2) [OF assms(1) m assms(2) a(1) assms(4) a(2)] ForwardSet_http [OF o ng h(1), of "N a"] g(1) r(1)
      by simp
    with h(1) hp r(2,3) own assms(7) show ?thesis by auto
  qed
  with mS own show ?thesis by blast
qed

theorem cluster_write_at_owner_witness:
  "\<exists>m\<in>{url_a, url_b}. \<forall>g w.
     Group_Set (ex_env False m ''g'') ''Tom'' ''630'' (g, w) = setLocalAndBroadcast (ex_env False m ''g'') ''Tom'' ''630'' (g, w)"
proof -
  have g: "\<forall>a\<in>{url_a, url_b}. \<not> p_useGRPC (ex_config False a)" by (simp add: ex_config_fields)
  have k: "''Tom'' \<noteq> []" "slash_free ''Tom''" "slash_free ''g''" "length ''630'' \<le> maxSetBodyBytes"
    by (simp_all add: slash_free_def maxSetBodyBytes_def)
  from cluster_write_at_owner [OF ex_cluster ex_pooled g k] show ?thesis by blast
qed

text \<open>
  The same over gRPC, for any key and value: the call a member makes for a key it does not own
  carries the token of the cluster to the target of the owner, whose server lets it in and runs
  exactly the local store and broadcast.
\<close>

theorem cluster_write_grpc:
  assumes "cluster S N peers q tok pool" and "pooled S N pool E" and "key \<noteq> []"
    and "\<forall>a\<in>S. p_useGRPC (q a) \<and> (\<forall>b\<in>S. n_NewClient (N a) (grpcTarget b) (p_peerClientTLS (q a)) = None)"
  shows "\<exists>m\<in>S. \<forall>a\<in>S - {m}. \<forall>g w Groups gm wm. g_name g = grp \<and> Groups grp = Some gm \<longrightarrow>
       (\<exists>md. Group_Set (E a grp) key val (g, w) =
            (case n_stubSet (N a) (grpcTarget m) md grp key val w of (err, w1) \<Rightarrow> Done (err, g, w1)) \<and>
          unary_call (E m) (NewGRPCServer tok None) (Some md) (RSet (Some (grp, key, val))) (Groups, wm) =
            obind (setLocalAndBroadcast (E m grp) key val (gm, wm)) (\<lambda>x. Done (rpc_write grp Groups x)))"
proof -
  obtain m where m: "owner_of S pool key m" using cluster_owner [OF assms(1)] by blast
  then have mS: "m \<in> S" by (simp add: owner_of_def)
  let ?md = "peerAppendOutgoingContext [] tok"
  have "Group_Set (E a grp) key val (g, w) =
        (case n_stubSet (N a) (grpcTarget m) ?md grp key val w of (err, w1) \<Rightarrow> Done (err, g, w1))"
    if a: "a \<in> S" "a \<noteq> m" "g_name g = grp" for a g w
  proof -
    have o: "ownerForKey (pool a) key = Inr m" using m a by (simp add: owner_of_def)
    have u: "p_useGRPC (pool a)" using assms(4) a(1) cluster_member(5) [OF assms(1) a(1)] by simp
    obtain c where c: "p_grpcClients (pool a) m = Some c"
      using assms(1,4) a(1) mS AddPeers_fields(7) [of "N a" "peers a" "q a" "pool a"]
      by (simp add: cluster_def members_def make_grpcClients_eq NewGRPCClient_def)
    from pooled_Set(2) [OF assms(1) m assms(2) a(1) assms(3) a(2)] ForwardSet_grpc [OF o u c, of "N a"]
      cluster_grpc_client [OF assms(1) a(1) c] a(3)
    show ?thesis by (simp add: GRPCClient_Set_def)
  qed
  moreover have "unary_call (E m) (NewGRPCServer tok None) (Some ?md) (RSet (Some (grp, key, val))) (Groups, wm) =
        obind (setLocalAndBroadcast (E m grp) key val (gm, wm)) (\<lambda>x. Done (rpc_write grp Groups x))"
    if "Groups grp = Some gm" for Groups gm wm
    using that pooled_Set(1) [OF assms(1) m assms(2) mS assms(3) refl]
    by (simp add: unary_call_NewGRPCServer interceptor_admits GRPCServer_Set_def GetGroup_def)
  ultimately show ?thesis using mS by blast
qed

theorem cluster_write_grpc_witness:
  "\<exists>m\<in>{url_a, url_b}. \<forall>a\<in>{url_a, url_b} - {m}. \<exists>md.
     unary_call (ex_env True m) (NewGRPCServer ''secret'' None) (Some md) (RSet (Some (''g'', ''Tom/1'', ''630''))) (ex_groups, ([], 1)) =
       obind (setLocalAndBroadcast (ex_env True m ''g'') ''Tom/1'' ''630'' (ex_group, ([], 1)))
         (\<lambda>x. Done (rpc_write ''g'' ex_groups x))"
proof -
  have u: "\<forall>a\<in>{url_a, url_b}. p_useGRPC (ex_config True a) \<and> (\<forall>b\<in>{url_a, url_b}.
      n_NewClient (ex_net :: (mem_world \<times> int) net) (grpcTarget b) (p_peerClientTLS (ex_config True a)) = None)"
    by (simp add: ex_config_fields ex_net_def)
  have k: "''Tom/1'' \<noteq> []" by simp
  have g: "ex_groups ''g'' = Some ex_group" by (simp add: ex_groups_def)
  have n: "g_name (ex_group\<lparr>g_name := ''g''\<rparr>) = ''g''" by simp
  from cluster_write_grpc [OF ex_cluster ex_pooled k u, of "''g''" "''630''"] g n show ?thesis by metis
qed

text \<open>
  C6: An invalidation over HTTP reaches the copies, when neither the group nor the key has a slash in it (a
  slash is answered with status 400 and the copy stays). What a member sends to another in a broadcast is
  served there as an invalidation of exactly this key of exactly this group: it is acknowledged,
  the key is gone from both tiers and from the negative cache, and no other key is affected.
\<close>

theorem cluster_invalidation:
  assumes "cluster S N peers q tok pool" and "\<not> p_useGRPC (q b)" and "a \<in> S" and "b \<in> S"
    and "key \<noteq> []" and "slash_free key" and "slash_free grp" and "Groups grp = Some g" and "group_inv g"
  shows "\<exists>h req r g' w'. invalidate_peer (N b) (pool b) grp key a w = do_write (N b) h req w \<and>
    h_peer h = a \<and> deliver req = Some r \<and>
    ServeHTTP E (pool a) r (Groups, wa) = Done (no_content, Groups(grp \<mapsto> g'), w') \<and>
    group_inv g' \<and> (\<forall>t. held t g' = (held t g)(key := None)) \<and> g_negUntil g' = (g_negUntil g)(key := None)"
proof -
  obtain h where h: "p_httpGetters (pool b) a = Some h" "client_of h (pool a)"
    using cluster_client [OF assms(1,4,3)] by blast
  have hp: "h_peer h = a" using cluster_member(1) [OF assms(1,4)] h(1) by (auto simp: pool_inv_def)
  have ng: "\<not> p_useGRPC (pool b)" using assms(2) cluster_member(5) [OF assms(1,4)] by simp
  obtain req r where r: "httpGetter_Invalidate (N b) h grp key w = do_write (N b) h req w" "deliver req = Some r"
    "ServeHTTP E (pool a) r (Groups, wa) = Done (answer_write grp Groups (InvalidateLocal (E grp) key (g, wa)))"
    using write_roundtrip [where N = "N b" and E = E and w = wa and wc = w and Groups = Groups and grp = grp
        and key = key, OF h(2) assms(8)] assms(6,7) by blast
  obtain err g' w' where i: "InvalidateLocal (E grp) key (g, wa) = (err, g', w')" by (metis surj_pair)
  note ok = InvalidateLocal_ok [OF assms(9,5) i]
  from ok have err: "err = None" by blast
  have "invalidate_peer (N b) (pool b) grp key a w = do_write (N b) h req w"
    using invalidate_peer_http [OF ng h(1), of "N b"] r(1) by simp
  moreover have "ServeHTTP E (pool a) r (Groups, wa) = Done (no_content, Groups(grp \<mapsto> g'), w')"
    unfolding r(3) i by (simp add: answer_write_def err)
  ultimately show ?thesis using hp r(2) ok by blast
qed

theorem cluster_invalidation_witness:
  "\<exists>h req r g' w'. invalidate_peer ex_net (ex_node False url_a) ''g'' ''Tom'' url_b ([], 1) =
      do_write ex_net h req (([], 1) :: mem_world \<times> int) \<and>
     deliver req = Some r \<and>
     ServeHTTP (\<lambda>_. ex_ext) (ex_node False url_b) r (ex_groups, ([], 5)) = Done (no_content, ex_groups(''g'' \<mapsto> g'), w') \<and>
     held Main g' ''Tom'' = None"
proof -
  have n: "\<not> p_useGRPC (ex_config False url_a)" by (simp add: ex_config_fields)
  have k: "''Tom'' \<noteq> []" "slash_free ''Tom''" "slash_free ''g''" by (simp_all add: slash_free_def)
  have g: "ex_groups ''g'' = Some ex_group" by (simp add: ex_groups_def)
  have m: "url_b \<in> {url_a, url_b}" "url_a \<in> {url_a, url_b}" by simp_all
  obtain h req r g' w' where
    i: "invalidate_peer ex_net (ex_node False url_a) ''g'' ''Tom'' url_b ([], 1) =
      do_write ex_net h req (([], 1) :: mem_world \<times> int)"
      "deliver req = Some r"
      "ServeHTTP (\<lambda>_. ex_ext) (ex_node False url_b) r (ex_groups, ([], 5)) = Done (no_content, ex_groups(''g'' \<mapsto> g'), w')"
    and t: "\<forall>t. held t g' = (held t ex_group)(''Tom'' := None)"
    using cluster_invalidation [where Groups = ex_groups and grp = "''g''" and E = "\<lambda>_. ex_ext" and w = "([], 1)"
      and wa = "([], 5)", OF ex_cluster n m k g ex_group_ok(1)] by blast
  from t have "held Main g' ''Tom'' = None" by simp
  with i show ?thesis by blast
qed

end
