(* ===== verification/LiveCluster.thy ===== *)
theory LiveCluster
  imports Cluster
begin

text \<open>
  A running cluster: the network of every member is the servers of the others. The state has the
  group of each member and the rest of the world. A call over gRPC runs the server of the member it
  is addressed to, whose own calls run further servers; the depth of this nesting is a number, calls
  below depth 0 fail, and two levels are shown to be enough: a write that is forwarded to the
  owner and broadcast from there, or a read that is answered by the owner.

  The network is an ideal one. A call to a member runs the whole handler there before it returns; it is not
  lost and does not time out, messages of any length are carried (gRPC limits a message to 4 MiB by
  default) and strings need not be valid UTF-8 (which the encoding of proto3 strings demands). When the
  handler panics or does not return, the caller gets an error and the state is the one before the call;
  the theorems below show of the calls they are about that they return, so that this case does not occur
  in them.
\<close>

section \<open>What leaves the other groups alone\<close>

text \<open>
  The collaborators of a group (clock, randomness, getter, store on disk) do not change what
  \<open>obs\<close> observes of the world.
\<close>

definition keeps :: "('w \<Rightarrow> 'x) \<Rightarrow> ('w, 'b) ext \<Rightarrow> bool" where
  "keeps obs E \<longleftrightarrow> (\<forall>w. obs (snd (x_now E w)) = obs w) \<and> (\<forall>n w. obs (snd (x_Int63n E n w)) = obs w) \<and>
     (\<forall>key w. obs (snd (x_getter E key w)) = obs w) \<and>
     (\<forall>s grp key val w. obs (snd (BoltStore_Put (x_bolt E) s grp key val w)) = obs w) \<and>
     (\<forall>s grp key w. obs (snd (BoltStore_Delete (x_bolt E) s grp key w)) = obs w)"

lemma keepsD:
  assumes "keeps obs E"
  shows "x_now E w = (t, w') \<Longrightarrow> obs w' = obs w" "x_Int63n E n w = (r, w') \<Longrightarrow> obs w' = obs w"
    "obs (snd (BoltStore_Put (x_bolt E) s grp key val w)) = obs w"
    "obs (snd (BoltStore_Delete (x_bolt E) s grp key w)) = obs w"
  using assms unfolding keeps_def by (metis snd_conv)+

lemma keeps_peers [simp]: "keeps obs (E\<lparr>x_peers := pp\<rparr>) = keeps obs E"
  by (simp add: keeps_def)

lemma resetMissBloom_keeps: "keeps obs E \<Longrightarrow> resetMissBloom E (g, w) = (g', w') \<Longrightarrow> obs w' = obs w"
  by (auto simp: resetMissBloom_def split: if_splits prod.splits dest: keepsD(1))

lemma persist_keeps:
  assumes "keeps obs E"
  shows "obs (snd (persistPutView E key v (g, w))) = obs w" "obs (snd (persistDeleteKey E key (g, w))) = obs w"
  using keepsD(3,4) [OF assms] by (simp_all add: persistPutView_def persistDeleteKey_def)

lemma onEvicted_keeps:
  assumes "keeps obs E"
  shows "obs (snd (onEvicted E t kv (g, w))) = obs w"
  using keepsD(3) [OF assms] by (cases t) (simp_all add: onMain_def onHot_def)

lemma onEvicted_fold_keeps: "keeps obs E \<Longrightarrow> obs (snd (fold (onEvicted E t) ev (g, w))) = obs w"
proof (induction ev arbitrary: g w)
  case (Cons kv ev)
  obtain g1 w1 where s: "onEvicted E t kv (g, w) = (g1, w1)" by fastforce
  with Cons onEvicted_keeps [OF Cons.prems, of t kv g w] show ?case by simp
qed simp

lemma tier_Add_keeps:
  assumes "keeps obs E" and "tier_Add E t c key v (g, w) = Done (g', w')"
  shows "obs w' = obs w"
proof -
  from assms(2) obtain c' ev where "fold (onEvicted E t) ev (set_tier t c' g, w) = (g', w')"
    by (auto simp: tier_Add_def split: option.splits prod.splits)
  with onEvicted_fold_keeps [OF assms(1), of t ev "set_tier t c' g" w] show ?thesis by simp
qed

lemma cacheTTL_keeps:
  "keeps obs E \<Longrightarrow> cacheTTLWithJitter E g w = Done (d, w') \<Longrightarrow> obs w' = obs w"
  by (auto simp: cacheTTLWithJitter_def Let_def split: if_splits prod.splits dest: keepsD(2))

lemma putTier_keeps:
  assumes "keeps obs E" and "putTier E t key v (g, w) = Done (g', w')"
  shows "obs w' = obs w"
proof (cases "tier_cache t g")
  case None
  with assms(2) show ?thesis by (simp add: putTier_def)
next
  case (Some c)
  show ?thesis
  proof (cases "g_ttl g > 0")
    case True
    obtain now w1 where n: "x_now E w = (now, w1)" by fastforce
    from assms(2) Some True n obtain d w2 where d: "cacheTTLWithJitter E g w1 = Done (d, w2)"
      "tier_Add E t c key (VTtl \<lparr>view = v, until = now + d\<rparr>) (g, w2) = Done (g', w')"
      by (auto simp: putTier_def obind_Done_iff)
    show ?thesis using keepsD(1) [OF assms(1) n] cacheTTL_keeps [OF assms(1) d(1)] tier_Add_keeps [OF assms(1) d(2)] by simp
  next
    case False
    with assms(2) Some tier_Add_keeps [OF assms(1)] show ?thesis by (auto simp: putTier_def)
  qed
qed

lemma InvalidateLocal_keeps:
  assumes "keeps obs E" and "InvalidateLocal E key (g, w) = (err, g', w')"
  shows "obs w' = obs w"
proof (cases "key = []")
  case False
  obtain g1 w1 where r: "resetMissBloom E (g\<lparr>g_negUntil := (g_negUntil g)(key := None)\<rparr>, w) = (g1, w1)" by fastforce
  have "w' = snd (persistDeleteKey E key (tier_Remove Hot key (tier_Remove Main key g1), w1))"
    using assms(2) False by (auto simp: InvalidateLocal_def r persistDeleteKey_def)
  with resetMissBloom_keeps [OF assms(1) r] persist_keeps(2) [OF assms(1)] show ?thesis by simp
qed (use assms in \<open>simp add: InvalidateLocal_def\<close>)

section \<open>Room in a tier\<close>

fun store_max :: "CacheStore \<Rightarrow> int" where
  "store_max (IsCache c) = c_maxBytes c"
| "store_max (IsLFU f) = f_maxBytes f"
| "store_max (IsARC a) = a_maxBytes a"

fun is_lru :: "CacheStore \<Rightarrow> bool" where
  "is_lru (IsCache c) = True"
| "is_lru _ = False"

text \<open>The policy and the size of the tiers, which no operation changes.\<close>

definition shapes :: "'b Group \<Rightarrow> tier \<Rightarrow> (bool \<times> int) option" where
  "shapes g t = map_option (\<lambda>c. (is_lru c, store_max c)) (tier_cache t g)"

lemma shapes_cong: "(\<And>t. tier_cache t g' = tier_cache t g) \<Longrightarrow> shapes g' = shapes g"
  by (simp add: shapes_def fun_eq_iff)

lemma shapes_set_tier:
  "tier_cache t g = Some c \<Longrightarrow> is_lru c' = is_lru c \<Longrightarrow> store_max c' = store_max c \<Longrightarrow>
    shapes (set_tier t c' g) = shapes g"
proof
  fix u
  assume "tier_cache t g = Some c" "is_lru c' = is_lru c" "store_max c' = store_max c"
  then show "shapes (set_tier t c' g) u = shapes g u" by (cases "u = t") (simp_all add: shapes_def)
qed

lemma shape_Remove:
  "is_lru (snd (CacheStore_Remove c key)) = is_lru c" "store_max (snd (CacheStore_Remove c key)) = store_max c"
  by (cases c; simp add: Cache_Remove_def LFU_Remove_def ARC_Remove_def deleteGhostB1_def deleteGhostB2_def split: option.splits)+

lemma shapes_Remove: "shapes (tier_Remove t key g) = shapes g"
proof (cases "tier_cache t g")
  case (Some c)
  with shapes_set_tier [OF Some, of "snd (CacheStore_Remove c key)"] show ?thesis by (simp add: tier_Remove_def shape_Remove)
qed (simp add: tier_Remove_def)

text \<open>A key that is absent is admitted as soon as it fits into the whole cache.\<close>

lemma store_admits_absent:
  "store_entries c key = None \<Longrightarrow> len key + Value_Len v \<le> store_max c \<Longrightarrow> store_admits c key v"
  by (cases c) (simp_all add: Cache_admits_def LFU_admits_def ARC_admits_def entBytes_def)

definition has_room :: "'b Group \<Rightarrow> string \<Rightarrow> bytes \<Rightarrow> bool" where
  "has_room g key val \<longleftrightarrow> (\<forall>t c. tier_cache t g = Some c \<longrightarrow> len key + len val \<le> store_max c)"

lemma shapes_room: "has_room g key val \<Longrightarrow> shapes g' = shapes g \<Longrightarrow> has_room g' key val"
  unfolding has_room_def
proof (intro allI impI)
  fix t c
  assume room: "\<forall>t c. tier_cache t g = Some c \<longrightarrow> len key + len val \<le> store_max c"
    and "shapes g' = shapes g" "tier_cache t g' = Some c"
  then have "shapes g t = Some (is_lru c, store_max c)" by (metis shapes_def option.map(2))
  then obtain z where "tier_cache t g = Some z" "store_max z = store_max c" by (auto simp: shapes_def)
  with room show "len key + len val \<le> store_max c" by metis
qed

lemma shapes_None: "shapes g' = shapes g \<Longrightarrow> tier_cache t g' = None \<longleftrightarrow> tier_cache t g = None"
  by (metis shapes_def option.map_disc_iff)

lemma has_room_fits:
  assumes "has_room g key val" and "held t g key = None"
  shows "fits t g key (NewByteView val)"
proof (cases "tier_cache t g")
  case (Some c)
  with assms have "store_entries c key = None" "len key + len val \<le> store_max c"
    by (simp_all add: has_room_def held_Some)
  with Some store_admits_absent [of c key "VView (NewByteView val)"] show ?thesis by (simp add: fits_def)
qed (simp add: fits_def)

lemma InvalidateLocal_shapes:
  assumes "InvalidateLocal E key' (g, w) = (err, g', w')"
  shows "shapes g' = shapes g"
proof (cases "key' = []")
  case False
  obtain g1 w1 where r: "resetMissBloom E (g\<lparr>g_negUntil := (g_negUntil g)(key' := None)\<rparr>, w) = (g1, w1)" by fastforce
  have "g' = tier_Remove Hot key' (tier_Remove Main key' g1)"
    using assms False by (auto simp: InvalidateLocal_def r persistDeleteKey_def)
  moreover have "shapes g1 = shapes g"
    using resetMissBloom_frame(1) [OF r] forget_miss_frame(1) [where g = g] by (intro shapes_cong) simp
  ultimately show ?thesis by (simp add: shapes_Remove)
qed (use assms in \<open>simp add: InvalidateLocal_def\<close>)

section \<open>The cluster as its own network\<close>

record ('b, 'e) shared =
  s_group :: "string \<Rightarrow> 'b Group"
  s_rest :: 'e

text \<open>
  A deployment: the addresses, the pool of each, the collaborators of its group, the name of the group,
  the etcd client and the order in which each broadcasts.
\<close>

record ('b, 'e) deployment =
  d_members :: "string list"
  d_pool :: "string \<Rightarrow> HTTPPool"
  d_ext :: "string \<Rightarrow> (('b, 'e) shared, 'b) ext"
  d_grp :: string
  d_etcd :: "('b, 'e) shared etcd"
  d_order :: "string \<Rightarrow> string list"

definition node_ext ::
  "('b, 'e) deployment \<Rightarrow> ('b, 'e) shared net \<Rightarrow> string \<Rightarrow> (('b, 'e) shared, 'b) ext" where
  "node_ext D N a = (d_ext D a)\<lparr>x_peers := Some (pool_picker N (d_etcd D) (d_order D a) (d_pool D a))\<rparr>"

text \<open>
  A write that is forwarded does not touch the group of the member, which may meanwhile be reached by
  the broadcast of the owner; every other call ends with the group that its handler has left.
\<close>

fun is_forwarded :: "('w, 'b) ext \<Rightarrow> rpc \<Rightarrow> 'w \<Rightarrow> bool" where
  "is_forwarded E (RSet (Some (grp, key, val))) w = (key \<noteq> [] \<and> forwards E key w \<noteq> None)"
| "is_forwarded E (RPurge (Some (grp, key))) w = (key \<noteq> [] \<and> forwards E key w \<noteq> None)"
| "is_forwarded E call w = False"

definition serve ::
  "('b, 'e) deployment \<Rightarrow> ('b, 'e) shared net \<Rightarrow> string \<Rightarrow> MD option \<Rightarrow> rpc \<Rightarrow> ('b, 'e) shared \<Rightarrow>
   ((status + rpc_reply) \<times> ('b, 'e) shared) outcome" where
  "serve D N a md call W =
     obind (unary_call (\<lambda>_. node_ext D N a) (NewGRPCServer (p_peerAuthToken (d_pool D a)) None) md call
         ([d_grp D \<mapsto> s_group W a], W))
       (\<lambda>(res, Groups, W1). Done (res,
          if is_forwarded (node_ext D N a) call W then W1
          else (case Groups (d_grp D) of
                  None \<Rightarrow> W1
                | Some g \<Rightarrow> W1\<lparr>s_group := (s_group W1)(a := g)\<rparr>)))"

text \<open>A call to a target runs the server there; when it does not return, the client sees an error.\<close>

definition call_target ::
  "('b, 'e) deployment \<Rightarrow> ('b, 'e) shared net \<Rightarrow> string \<Rightarrow> MD \<Rightarrow> rpc \<Rightarrow> ('b, 'e) shared \<Rightarrow>
   (error + rpc_reply) \<times> ('b, 'e) shared" where
  "call_target D N target md call W =
     (case List.find (\<lambda>a. grpcTarget a = target) (d_members D) of
        None \<Rightarrow> (Inl (Errorf ''rpc error: unavailable''), W)
      | Some a \<Rightarrow>
          (case serve D N a (Some md) call W of
             Done (Inl st, W1) \<Rightarrow> (Inl (Errorf ''rpc error''), W1)
           | Done (Inr reply, W1) \<Rightarrow> (Inr reply, W1)
           | _ \<Rightarrow> (Inl (Errorf ''rpc error: unavailable''), W)))"

definition reply_error :: "(error + rpc_reply) \<times> 'w \<Rightarrow> error option \<times> 'w" where
  "reply_error = (\<lambda>(res, w). (case res of Inl err \<Rightarrow> Some err | Inr _ \<Rightarrow> None, w))"

definition reply_value :: "(error + rpc_reply) \<times> 'w \<Rightarrow> (error + bytes) \<times> 'w" where
  "reply_value = (\<lambda>(res, w).
     (case res of Inl err \<Rightarrow> Inl err | Inr (Response bs) \<Rightarrow> Inr bs | Inr Empty \<Rightarrow> Inr [], w))"

definition served_net ::
  "(string \<Rightarrow> MD \<Rightarrow> rpc \<Rightarrow> 'w \<Rightarrow> (error + rpc_reply) \<times> 'w) \<Rightarrow> 'w net" where
  "served_net call =
     \<lparr>n_Do = (\<lambda>_ _ _ w. (Inl (Errorf ''connection refused''), w)), n_NewClient = (\<lambda>_ _. None),
      n_Close = (\<lambda>_ w. (None, w)),
      n_stubGet = (\<lambda>target md grp key w. reply_value (call target md (RGet (Some (grp, key))) w)),
      n_stubSet = (\<lambda>target md grp key val w. reply_error (call target md (RSet (Some (grp, key, val))) w)),
      n_stubInvalidate = (\<lambda>target md grp key w. reply_error (call target md (RInvalidate (Some (grp, key))) w)),
      n_stubPurge = (\<lambda>target md grp key w. reply_error (call target md (RPurge (Some (grp, key))) w))\<rparr>"

fun wire :: "('b, 'e) deployment \<Rightarrow> nat \<Rightarrow> ('b, 'e) shared net" where
  "wire D 0 = served_net (\<lambda>_ _ _ w. (Inl (Errorf ''rpc error: unavailable''), w))"
| "wire D (Suc n) = served_net (call_target D (wire D n))"

declare wire.simps(2) [simp del]

section \<open>Calls between members\<close>

text \<open>The members agree on peers and token, use gRPC, and have distinct targets.\<close>

definition deployed ::
  "('b, 'e) deployment \<Rightarrow> string set \<Rightarrow> (string \<Rightarrow> string list) \<Rightarrow> (string \<Rightarrow> HTTPPool) \<Rightarrow> string \<Rightarrow> bool" where
  "deployed D S peers q tok \<longleftrightarrow> cluster S (\<lambda>_. wire D 0) peers q tok (d_pool D) \<and>
     set (d_members D) = S \<and> inj_on grpcTarget S \<and>
     (\<forall>a\<in>S. p_useGRPC (q a) \<and> p_registry (d_pool D a) = None \<and> distinct (d_order D a) \<and>
        set (d_order D a) = broadcast_peers (d_pool D a) \<and> keeps s_group (d_ext D a) \<and> rand_ok (d_ext D a))"

text \<open>The groups are well-formed and have no expiry, as by default.\<close>

definition sound_group :: "string \<Rightarrow> 'b Group \<Rightarrow> bool" where
  "sound_group grp g \<longleftrightarrow> group_inv g \<and> g_name g = grp \<and> g_ttl g \<le> 0 \<and> durations_ok g \<and> g_mainCache g \<noteq> None"

lemma deployedD:
  assumes "deployed D S peers q tok" and "a \<in> S"
  shows "cluster S (\<lambda>_. wire D 0) peers q tok (d_pool D)" "keeps s_group (node_ext D N a)" "rand_ok (node_ext D N a)"
    "p_useGRPC (d_pool D a)" "p_registry (d_pool D a) = None" "distinct (d_order D a)"
    "p_peerAuthToken (d_pool D a) = tok" "pool_inv (d_pool D a)" "p_self (d_pool D a) = a"
    "x_peers (node_ext D N a) = Some (pool_picker N (d_etcd D) (d_order D a) (d_pool D a))"
proof -
  show c: "cluster S (\<lambda>_. wire D 0) peers q tok (d_pool D)" using assms(1) by (simp add: deployed_def)
  note m = cluster_member [OF c assms(2)]
  show "p_peerAuthToken (d_pool D a) = tok" "pool_inv (d_pool D a)" "p_self (d_pool D a) = a" using m by simp_all
  show "p_useGRPC (d_pool D a)" using m(5) assms by (simp add: deployed_def)
  show "keeps s_group (node_ext D N a)" "p_registry (d_pool D a) = None" "distinct (d_order D a)"
    "x_peers (node_ext D N a) = Some (pool_picker N (d_etcd D) (d_order D a) (d_pool D a))"
    "rand_ok (node_ext D N a)"
    using assms by (simp_all add: deployed_def node_ext_def rand_ok_def)
qed

lemma deployed_order:
  assumes "deployed D S peers q tok" and "m \<in> S"
  shows "set (d_order D m) = S - {m}"
proof -
  have "dom (p_httpGetters (d_pool D m)) = S"
    using assms AddPeers_fields(6) [of "wire D 0" "peers m" "q m" "d_pool D m"]
    by (auto simp: deployed_def cluster_def members_def make_getters_eq split: if_splits)
  with deployedD(9) [OF assms] assms show ?thesis by (simp add: deployed_def broadcast_peers_def)
qed

lemma deployed_client:
  assumes "deployed D S peers q tok" and "a \<in> S" and "b \<in> S"
  shows "\<exists>c. p_grpcClients (d_pool D a) b = Some c \<and> c_target c = grpcTarget b \<and> c_peerToken c = tok"
proof -
  have "n_NewClient (wire D 0) t creds = None" for t creds by (simp add: served_net_def)
  then obtain c where "p_grpcClients (d_pool D a) b = Some c"
    using assms AddPeers_fields(7) [of "wire D 0" "peers a" "q a" "d_pool D a"]
    by (simp add: deployed_def cluster_def members_def make_grpcClients_eq NewGRPCClient_def)
  with cluster_grpc_client [OF deployedD(1) [OF assms(1,2)] assms(2)] show ?thesis by blast
qed

lemma deployed_find:
  assumes "deployed D S peers q tok" and "b \<in> S"
  shows "List.find (\<lambda>a. grpcTarget a = grpcTarget b) (d_members D) = Some b"
proof -
  obtain x where x: "List.find (\<lambda>a. grpcTarget a = grpcTarget b) (d_members D) = Some x"
    using assms by (cases "List.find (\<lambda>a. grpcTarget a = grpcTarget b) (d_members D)")
      (auto simp: find_None_iff deployed_def)
  then have "x \<in> S" "grpcTarget x = grpcTarget b"
    using assms(1) by (auto simp: find_Some_iff deployed_def)
  with assms x show ?thesis by (auto simp: deployed_def dest: inj_onD)
qed

text \<open>A call that carries the token reaches its handler.\<close>

lemma serve_admitted:
  assumes "deployed D S peers q tok" and "a \<in> S"
  shows "serve D N a (Some (peerAppendOutgoingContext [] tok)) call W =
    obind (rpc_handler (\<lambda>_. node_ext D N a) call ([d_grp D \<mapsto> s_group W a], W))
      (\<lambda>(res, Groups, W1). Done (res,
         if is_forwarded (node_ext D N a) call W then W1
         else (case Groups (d_grp D) of None \<Rightarrow> W1 | Some g \<Rightarrow> W1\<lparr>s_group := (s_group W1)(a := g)\<rparr>)))"
  using deployedD(7) [OF assms] by (simp add: serve_def unary_call_NewGRPCServer interceptor_admits)

section \<open>Invalidation\<close>

text \<open>What a member is left with when it was told to forget a key.\<close>

definition forgot :: "string \<Rightarrow> 'b Group \<Rightarrow> 'b Group \<Rightarrow> bool" where
  "forgot key g g' \<longleftrightarrow> group_inv g' \<and> config g' = config g \<and> (\<forall>t. held t g' = (held t g)(key := None)) \<and>
     g_negUntil g' = (g_negUntil g)(key := None) \<and> (g_missBloom g = None \<longrightarrow> g_missBloom g' = None) \<and>
     shapes g' = shapes g"

lemma InvalidateLocal_forgot:
  assumes "group_inv g" and "key \<noteq> []" and "InvalidateLocal E key (g, w) = (err, g', w')"
  shows "err = None" "forgot key g g'"
  using InvalidateLocal_ok [OF assms] InvalidateLocal_shapes [OF assms(3)] by (auto simp: forgot_def)

lemma invalidate_peer_live:
  assumes "deployed D S peers q tok" and "m \<in> S" and "b \<in> S" and "key \<noteq> []" and "group_inv (s_group W b)"
  shows "\<exists>W' g'. invalidate_peer (wire D (Suc n)) (d_pool D m) (d_grp D) key b W = (None, W') \<and>
    s_group W' = (s_group W)(b := g') \<and> forgot key (s_group W b) g'"
proof -
  obtain c where c: "p_grpcClients (d_pool D m) b = Some c" "c_target c = grpcTarget b" "c_peerToken c = tok"
    using deployed_client [OF assms(1-3)] by blast
  let ?E = "node_ext D (wire D n) b"
  obtain err g' W1 where i: "InvalidateLocal ?E key (s_group W b, W) = (err, g', W1)" by (metis surj_pair)
  note f = InvalidateLocal_forgot [OF assms(5,4) i]
  have k: "s_group W1 = s_group W" by (rule InvalidateLocal_keeps [OF deployedD(2) [OF assms(1,3)] i])
  have "serve D (wire D n) b (Some (peerAppendOutgoingContext [] tok)) (RInvalidate (Some (d_grp D, key))) W =
      Done (Inr Empty, W1\<lparr>s_group := (s_group W1)(b := g')\<rparr>)"
    unfolding serve_admitted [OF assms(1,3)]
    by (simp add: GRPCServer_Invalidate_def GetGroup_def i f(1) rpc_write_def)
  then have "invalidate_peer (wire D (Suc n)) (d_pool D m) (d_grp D) key b W = (None, W1\<lparr>s_group := (s_group W1)(b := g')\<rparr>)"
    using deployedD(4) [OF assms(1,2)] c deployed_find [OF assms(1,3)]
    by (simp add: invalidate_peer_def GRPCClient_Invalidate_def wire.simps(2) served_net_def call_target_def reply_error_def)
  with k f(2) show ?thesis by (intro exI conjI) (assumption | simp)+
qed

lemma broadcast_live_fold:
  assumes "deployed D S peers q tok" and "m \<in> S" and "key \<noteq> []" and "distinct order" and "set order \<subseteq> S"
    and "\<forall>b\<in>set order. group_inv (s_group W b)"
  shows "\<exists>W'. fold (\<lambda>peer (firstErr, w).
             case invalidate_peer (wire D (Suc n)) (d_pool D m) (d_grp D) key peer w of
               (err, w1) \<Rightarrow>
                 (case (firstErr, err) of
                    (None, Some e) \<Rightarrow> (Some (Wrapf (''peer '' @ peer) e), w1)
                  | _ \<Rightarrow> (firstErr, w1))) order (None, W) = (None, W') \<and>
    (\<forall>b. if b \<in> set order then forgot key (s_group W b) (s_group W' b) else s_group W' b = s_group W b)"
  using assms(4-6)
proof (induction order arbitrary: W)
  case (Cons b order)
  from invalidate_peer_live [OF assms(1,2) _ assms(3), of b W n] Cons.prems obtain W1 g1 where
    i: "invalidate_peer (wire D (Suc n)) (d_pool D m) (d_grp D) key b W = (None, W1)"
    and s: "s_group W1 = (s_group W)(b := g1)" "forgot key (s_group W b) g1" by auto
  have "\<forall>b\<in>set order. group_inv (s_group W1 b)" using Cons.prems s(1) by auto
  with Cons.IH [of W1] Cons.prems obtain W' where
    W': "fold (\<lambda>peer (firstErr, w).
             case invalidate_peer (wire D (Suc n)) (d_pool D m) (d_grp D) key peer w of
               (err, w1) \<Rightarrow>
                 (case (firstErr, err) of
                    (None, Some e) \<Rightarrow> (Some (Wrapf (''peer '' @ peer) e), w1)
                  | _ \<Rightarrow> (firstErr, w1))) order (None, W1) = (None, W')"
    and f: "\<forall>b. if b \<in> set order then forgot key (s_group W1 b) (s_group W' b) else s_group W' b = s_group W1 b"
    by auto
  have "if x \<in> set (b # order) then forgot key (s_group W x) (s_group W' x) else s_group W' x = s_group W x" for x
    using f [rule_format, of x] s Cons.prems(1) by (auto split: if_splits)
  with W' i show ?case by auto
qed simp

lemma broadcast_live:
  assumes "deployed D S peers q tok" and "m \<in> S" and "key \<noteq> []" and "\<forall>b\<in>S. group_inv (s_group W b)"
    and "g_name g = d_grp D"
  shows "\<exists>W'. broadcast (node_ext D (wire D (Suc n)) m) key (g, W) = (None, g, W') \<and> s_group W' m = s_group W m \<and>
    (\<forall>b\<in>S - {m}. forgot key (s_group W b) (s_group W' b))"
proof -
  note o = deployed_order [OF assms(1,2)]
  obtain W' where
    W': "fold (\<lambda>peer (firstErr, w).
             case invalidate_peer (wire D (Suc n)) (d_pool D m) (d_grp D) key peer w of
               (err, w1) \<Rightarrow>
                 (case (firstErr, err) of
                    (None, Some e) \<Rightarrow> (Some (Wrapf (''peer '' @ peer) e), w1)
                  | _ \<Rightarrow> (firstErr, w1))) (d_order D m) (None, W) = (None, W')"
    and f: "\<forall>b. if b \<in> set (d_order D m) then forgot key (s_group W b) (s_group W' b) else s_group W' b = s_group W b"
    using broadcast_live_fold [OF assms(1-3) deployedD(6) [OF assms(1,2)], of W n] o assms(4) by auto
  have "broadcast (node_ext D (wire D (Suc n)) m) key (g, W) = (None, g, W')"
    using W' assms(5) deployedD(5) [OF assms(1,2)]
    by (simp add: broadcast_def peerWriter_def deployedD(10) [OF assms(1,2)] pool_picker_def pool_writer_def
        BroadcastInvalidate_def publishInvalidationViaEtcd_def)
  moreover have "s_group W' m = s_group W m" using f [rule_format, of m] o by simp
  moreover have "forgot key (s_group W b) (s_group W' b)" if "b \<in> S - {m}" for b
    using f [rule_format, of b] o that by simp
  ultimately show ?thesis by blast
qed

section \<open>Writing\<close>

lemma sound_groupD:
  assumes "sound_group grp g"
  shows "group_inv g" "g_name g = grp" "g_ttl g \<le> 0" "durations_ok g" "g_mainCache g \<noteq> None"
  using assms by (simp_all add: sound_group_def)

text \<open>The owner stores the value and the others forget the key.\<close>

lemma store_live:
  assumes "deployed D S peers q tok" and "m \<in> S" and "key \<noteq> []" and "\<forall>b\<in>S. group_inv (s_group W b)"
    and "g_name (s_group W m) = d_grp D" and "durations_ok (s_group W m)" and "g_mainCache (s_group W m) \<noteq> None"
    and "fits Main (s_group W m) key (NewByteView val)"
  shows "\<exists>g1 w1 g2 w2 g' W' x. setLocalAndBroadcast (node_ext D (wire D (Suc n)) m) key val (s_group W m, W) =
      Done (None, g', W') \<and> group_inv g' \<and> config g' = config (s_group W m) \<and>
    lifetime (s_group W m) (fst (x_now (node_ext D (wire D (Suc n)) m) w1)) (NewByteView val) x \<and>
    held Main g' key = Some x \<and> held Main g' \<subseteq>\<^sub>m (held Main (s_group W m))(key \<mapsto> x) \<and>
    held Hot g' = (held Hot (s_group W m))(key := None) \<and>
    g_negUntil g' = (g_negUntil (s_group W m))(key := None) \<and>
    (g_missBloom (s_group W m) = None \<longrightarrow> g_missBloom g' = None) \<and>
    (\<forall>b\<in>S - {m}. forgot key (s_group W b) (s_group W' b)) \<and>
    (\<forall>t. tier_cache t g1 = tier_cache t (s_group W m)) \<and>
    putTier (node_ext D (wire D (Suc n)) m) Main key (NewByteView val) (g1, w1) = Done (g2, w2) \<and>
    g' = tier_Remove Hot key g2"
proof -
  let ?E = "node_ext D (wire D (Suc n)) m" and ?g = "s_group W m" and ?v = "NewByteView val"
  note k = deployedD(2,3) [OF assms(1,2), of "wire D (Suc n)"]
  obtain g1 w1 where r: "resetMissBloom ?E (?g\<lparr>g_negUntil := (g_negUntil ?g)(key := None)\<rparr>, W) = (g1, w1)" by fastforce
  have inv: "group_inv ?g" using assms(2,4) by blast
  obtain err g' W' x where st: "setLocalAndBroadcast ?E key val (?g, W) = Done (err, g', W')" "group_inv g'"
    "config g' = config ?g" "lifetime ?g (fst (x_now ?E w1)) ?v x" "held Main g' key = Some x"
    "held Main g' \<subseteq>\<^sub>m (held Main ?g)(key \<mapsto> x)" "held Hot g' = (held Hot ?g)(key := None)"
    "g_negUntil g' = (g_negUntil ?g)(key := None)" "g_missBloom g' = g_missBloom g1"
    using setLocalAndBroadcast_ok [OF inv assms(7,8,6) k(2) r] by blast
  from st(1) obtain g2 w2 where p: "putTier ?E Main key ?v (g1, w1) = Done (g2, w2)"
    by (auto simp: setLocalAndBroadcast_def r Let_def obind_Done_iff)
  obtain w3 where w3: "persistPutView ?E key ?v (g2, w2) = (g2, w3)"
    using persistPut_group [of ?E key ?v g2 w2] by (metis prod.collapse)
  have eq: "broadcast ?E key (tier_Remove Hot key g2, w3) = (err, g', W')"
    using st(1) by (simp add: setLocalAndBroadcast_def r p w3)
  have g': "g' = tier_Remove Hot key g2" using broadcast_group [of ?E key "tier_Remove Hot key g2" w3] eq by simp
  have s3: "s_group w3 = s_group W"
    using resetMissBloom_keeps [OF k(1) r] putTier_keeps [OF k(1) p] persist_keeps(1) [OF k(1), of key ?v g2 w2] w3 by simp
  have nm: "g_name g' = d_grp D" using configD(1) [OF st(3)] assms(5) by simp
  have inv3: "\<forall>b\<in>S. group_inv (s_group w3 b)" using assms(4) s3 by simp
  obtain W2 where b: "broadcast ?E key (g', w3) = (None, g', W2)"
    "\<forall>b\<in>S - {m}. forgot key (s_group w3 b) (s_group W2 b)"
    using broadcast_live [OF assms(1-3) inv3 nm] by blast
  have b1: "g_missBloom ?g = None \<longrightarrow> g_missBloom g1 = None" using resetMissBloom_frame(8) [OF r] by simp
  have t1: "\<forall>t. tier_cache t g1 = tier_cache t ?g"
    using resetMissBloom_frame(1) [OF r] forget_miss_frame(1) [where g = ?g] by simp
  from b eq g' s3 have "err = None" "\<forall>b\<in>S - {m}. forgot key (s_group W b) (s_group W' b)" by simp_all
  with st b1 t1 p g' show ?thesis
    by (intro exI [of _ g1] exI [of _ w1] exI [of _ g2] exI [of _ w2] exI [of _ g'] exI [of _ W'] exI [of _ x]) simp
qed

lemma deployed_pick:
  assumes "deployed D S peers q tok" and "owner_of S (d_pool D) key m" and "a \<in> S"
  shows "pp_PickPeer (pool_picker N T order (d_pool D a)) key w = (if a = m then [] else m)"
proof -
  have "a = m \<longleftrightarrow> IsOwner (d_pool D a) key" "a \<noteq> m \<Longrightarrow> snd (PickPeer (d_pool D a) key) = m"
    using assms(2,3) by (auto simp: owner_of_def)
  then show ?thesis by (simp add: pool_picker_def IsOwner_iff PickPeer_addr)
qed

lemma forwards_live:
  assumes "deployed D S peers q tok" and "owner_of S (d_pool D) key m" and "a \<in> S"
  shows "pp_PickPeer (pool_picker N (d_etcd D) (d_order D a) (d_pool D a)) key w = [] \<longleftrightarrow> a = m"
    "forwards (node_ext D N a) key w = None \<longleftrightarrow> a = m"
proof -
  have m: "m \<in> S" "\<exists>host. peer_url m host"
    using assms(1,2) by (simp_all add: owner_of_def deployed_def cluster_def)
  then have "m \<noteq> []" by (auto simp: peer_url_def)
  then show "pp_PickPeer (pool_picker N (d_etcd D) (d_order D a) (d_pool D a)) key w = [] \<longleftrightarrow> a = m"
    by (simp add: deployed_pick [OF assms])
  then show "forwards (node_ext D N a) key w = None \<longleftrightarrow> a = m"
    using pool.forwards_iff [OF deployedD(8,10) [OF assms(1,3)], of N key w] by simp
qed

text \<open>The state after a write: the owner has the value, the others do not have the key.\<close>

definition written :: "string set \<Rightarrow> string \<Rightarrow> string \<Rightarrow> bytes \<Rightarrow> ('b, 'e) shared \<Rightarrow> ('b, 'e) shared \<Rightarrow> bool" where
  "written S m key val W W' \<longleftrightarrow> group_inv (s_group W' m) \<and> config (s_group W' m) = config (s_group W m) \<and>
     held Main (s_group W' m) key = Some (VView (NewByteView val)) \<and>
     (\<forall>b\<in>S - {m}. forgot key (s_group W b) (s_group W' b))"

lemma serve_Set_store:
  assumes "deployed D S peers q tok" and "owner_of S (d_pool D) key m" and "key \<noteq> []"
    and "setLocalAndBroadcast (node_ext D N m) key val (s_group W m, W) = Done (None, g', W')"
  shows "serve D N m (Some (peerAppendOutgoingContext [] tok)) (RSet (Some (d_grp D, key, val))) W =
      Done (Inr Empty, W'\<lparr>s_group := (s_group W')(m := g')\<rparr>)"
proof -
  have mS: "m \<in> S" using assms(2) by (simp add: owner_of_def)
  have "Group_Set (node_ext D N m) key val (s_group W m, W) = Done (None, g', W')"
    using pool.owner_serves(1) [OF deployedD(8,10) [OF assms(1) mS] _ assms(3)]
      forwards_live(1) [OF assms(1,2) mS, of N] assms(4) by simp
  then show ?thesis
    unfolding serve_admitted [OF assms(1) mS]
    by (simp add: GRPCServer_Set_def GetGroup_def rpc_write_def forwards_live(2) [OF assms(1,2) mS])
qed

lemma serve_Set_owner:
  assumes "deployed D S peers q tok" and "owner_of S (d_pool D) key m" and "key \<noteq> []"
    and "\<forall>b\<in>S. sound_group (d_grp D) (s_group W b)" and "fits Main (s_group W m) key (NewByteView val)"
  shows "\<exists>W'. serve D (wire D (Suc n)) m (Some (peerAppendOutgoingContext [] tok)) (RSet (Some (d_grp D, key, val))) W =
      Done (Inr Empty, W') \<and> written S m key val W W'"
proof -
  have mS: "m \<in> S" using assms(2) by (simp add: owner_of_def)
  note sg = sound_groupD [OF assms(4) [rule_format, OF mS]]
  have "\<forall>b\<in>S. group_inv (s_group W b)" using assms(4) by (simp add: sound_group_def)
  from store_live [OF assms(1) mS assms(3) this sg(2,4,5) assms(5), of n] obtain w1 g' W1 x where
    st: "setLocalAndBroadcast (node_ext D (wire D (Suc n)) m) key val (s_group W m, W) = Done (None, g', W1)" "group_inv g'"
      "lifetime (s_group W m) (fst (x_now (node_ext D (wire D (Suc n)) m) w1)) (NewByteView val) x" "held Main g' key = Some x"
      "\<forall>b\<in>S - {m}. forgot key (s_group W b) (s_group W1 b)" "config g' = config (s_group W m)" by blast
  have "x = VView (NewByteView val)" using st(3) sg(3) by (simp add: lifetime_def)
  with st(2,4-6) serve_Set_store [OF assms(1-3) st(1)] show ?thesis by (simp add: written_def)
qed

text \<open>A write at another member ends as the owner has served it.\<close>

lemma serve_Set_forward:
  assumes "deployed D S peers q tok" and "owner_of S (d_pool D) key m" and "key \<noteq> []" and "a \<in> S" and "a \<noteq> m"
    and "g_name (s_group W a) = d_grp D"
    and "serve D (wire D n) m (Some (peerAppendOutgoingContext [] tok)) (RSet (Some (d_grp D, key, val))) W = Done (Inr Empty, W')"
  shows "serve D (wire D (Suc n)) a (Some (peerAppendOutgoingContext [] tok)) (RSet (Some (d_grp D, key, val))) W =
      Done (Inr Empty, W')"
proof -
  let ?E = "node_ext D (wire D (Suc n)) a"
  have mS: "m \<in> S" and o: "ownerForKey (d_pool D a) key = Inr m" using assms(2,4,5) by (simp_all add: owner_of_def)
  obtain c where c: "p_grpcClients (d_pool D a) m = Some c" "c_target c = grpcTarget m" "c_peerToken c = tok"
    using deployed_client [OF assms(1,4) mS] by blast
  have "n_stubSet (wire D (Suc n)) (grpcTarget m) (peerAppendOutgoingContext [] tok) (d_grp D) key val W = (None, W')"
    by (simp add: wire.simps(2) served_net_def call_target_def reply_error_def deployed_find [OF assms(1) mS] assms(7))
  with ForwardSet_grpc [OF o deployedD(4) [OF assms(1,4)] c(1), of "wire D (Suc n)"] c(2,3)
  have "ForwardSet (wire D (Suc n)) (d_pool D a) (d_grp D) key val W = (None, W')" by (simp add: GRPCClient_Set_def)
  then have "Group_Set ?E key val (s_group W a, W) = Done (None, s_group W a, W')"
    using pool.others_write(1) [OF deployedD(8,10) [OF assms(1,4)] _ assms(3)]
      forwards_live(1) [OF assms(1,2,4), of "wire D (Suc n)"] assms(5,6)
    by (simp add: pool_writer_def)
  moreover have "forwards ?E key W \<noteq> None" using forwards_live(2) [OF assms(1,2,4)] assms(5) by simp
  ultimately show ?thesis
    unfolding serve_admitted [OF assms(1,4)] using assms(3)
    by (simp add: GRPCServer_Set_def GetGroup_def rpc_write_def del: not_None_eq)
qed

lemma serve_Set:
  assumes "deployed D S peers q tok" and "owner_of S (d_pool D) key m" and "key \<noteq> []"
    and "\<forall>b\<in>S. sound_group (d_grp D) (s_group W b)" and "fits Main (s_group W m) key (NewByteView val)" and "a \<in> S"
  shows "\<exists>W'. serve D (wire D (Suc (Suc n))) a (Some (peerAppendOutgoingContext [] tok)) (RSet (Some (d_grp D, key, val))) W =
      Done (Inr Empty, W') \<and> written S m key val W W'"
proof (cases "a = m")
  case False
  have "g_name (s_group W a) = d_grp D" using assms(4,6) by (simp add: sound_group_def)
  with serve_Set_owner [OF assms(1-5), of n] serve_Set_forward [OF assms(1-3,6) False] show ?thesis by blast
qed (use serve_Set_owner [OF assms(1-5)] in blast)

section \<open>Purging\<close>

lemma Purge_owner:
  assumes "deployed D S peers q tok" and "owner_of S (d_pool D) key m" and "key \<noteq> []"
    and "\<forall>b\<in>S. group_inv (s_group W b) \<and> g_name (s_group W b) = d_grp D"
  shows "\<exists>g' W'. PurgeKey (node_ext D (wire D (Suc n)) m) key (s_group W m, W) = (None, g', W') \<and>
    forgot key (s_group W m) g' \<and> (\<forall>b\<in>S - {m}. forgot key (s_group W b) (s_group W' b))"
proof -
  let ?E = "node_ext D (wire D (Suc n)) m"
  have mS: "m \<in> S" using assms(2) by (simp add: owner_of_def)
  have sg: "group_inv (s_group W m)" "g_name (s_group W m) = d_grp D" using assms(4) mS by blast+
  obtain err g' W1 where i: "InvalidateLocal ?E key (s_group W m, W) = (err, g', W1)" by (metis surj_pair)
  note f = InvalidateLocal_forgot [OF sg(1) assms(3) i]
  have k: "s_group W1 = s_group W" by (rule InvalidateLocal_keeps [OF deployedD(2) [OF assms(1) mS] i])
  have "config g' = config (s_group W m)" using f(2) by (simp add: forgot_def)
  then have nm: "g_name g' = d_grp D" using configD(1) sg(2) by metis
  have inv: "\<forall>b\<in>S. group_inv (s_group W1 b)" using assms(4) k by simp
  obtain W' where b: "broadcast ?E key (g', W1) = (None, g', W')" "\<forall>b\<in>S - {m}. forgot key (s_group W1 b) (s_group W' b)"
    using broadcast_live [OF assms(1) mS assms(3) inv nm] by blast
  have "forwards ?E key W = None" using forwards_live(2) [OF assms(1,2) mS] by blast
  with b k f i assms(3) show ?thesis by (intro exI [of _ g'] exI [of _ W']) (simp add: PurgeKey_def)
qed

lemma serve_Purge_owner:
  assumes "deployed D S peers q tok" and "owner_of S (d_pool D) key m" and "key \<noteq> []"
    and "\<forall>b\<in>S. group_inv (s_group W b) \<and> g_name (s_group W b) = d_grp D"
  shows "\<exists>W'. serve D (wire D (Suc n)) m (Some (peerAppendOutgoingContext [] tok)) (RPurge (Some (d_grp D, key))) W =
      Done (Inr Empty, W') \<and> (\<forall>b\<in>S. forgot key (s_group W b) (s_group W' b))"
proof -
  have mS: "m \<in> S" using assms(2) by (simp add: owner_of_def)
  obtain g' W1 where p: "PurgeKey (node_ext D (wire D (Suc n)) m) key (s_group W m, W) = (None, g', W1)"
    "forgot key (s_group W m) g'" "\<forall>b\<in>S - {m}. forgot key (s_group W b) (s_group W1 b)"
    using Purge_owner [OF assms] by blast
  have "serve D (wire D (Suc n)) m (Some (peerAppendOutgoingContext [] tok)) (RPurge (Some (d_grp D, key))) W =
      Done (Inr Empty, W1\<lparr>s_group := (s_group W1)(m := g')\<rparr>)"
    unfolding serve_admitted [OF assms(1) mS]
    by (simp add: GRPCServer_Purge_def GetGroup_def rpc_write_def forwards_live(2) [OF assms(1,2) mS] p(1))
  with p(2,3) show ?thesis by (intro exI [of _ "W1\<lparr>s_group := (s_group W1)(m := g')\<rparr>"]) simp
qed

lemma serve_Purge:
  assumes "deployed D S peers q tok" and "owner_of S (d_pool D) key m" and "key \<noteq> []"
    and "\<forall>b\<in>S. group_inv (s_group W b) \<and> g_name (s_group W b) = d_grp D" and "a \<in> S"
  shows "\<exists>W'. serve D (wire D (Suc (Suc n))) a (Some (peerAppendOutgoingContext [] tok)) (RPurge (Some (d_grp D, key))) W =
      Done (Inr Empty, W') \<and> (\<forall>b\<in>S. forgot key (s_group W b) (s_group W' b))"
proof (cases "a = m")
  case True
  then show ?thesis using serve_Purge_owner [OF assms(1-4)] by blast
next
  case False
  let ?E = "node_ext D (wire D (Suc (Suc n))) a"
  have mS: "m \<in> S" and o: "ownerForKey (d_pool D a) key = Inr m" using assms(2,5) False by (simp_all add: owner_of_def)
  obtain c where c: "p_grpcClients (d_pool D a) m = Some c" "c_target c = grpcTarget m" "c_peerToken c = tok"
    using deployed_client [OF assms(1,5) mS] by blast
  obtain W' where W': "serve D (wire D (Suc n)) m (Some (peerAppendOutgoingContext [] tok)) (RPurge (Some (d_grp D, key))) W =
      Done (Inr Empty, W')" "\<forall>b\<in>S. forgot key (s_group W b) (s_group W' b)"
    using serve_Purge_owner [OF assms(1-4)] by blast
  have "n_stubPurge (wire D (Suc (Suc n))) (grpcTarget m) (peerAppendOutgoingContext [] tok) (d_grp D) key W = (None, W')"
    by (simp add: wire.simps(2) [of D "Suc n"] served_net_def call_target_def reply_error_def deployed_find [OF assms(1) mS] W'(1))
  then have fp: "ForwardPurge (wire D (Suc (Suc n))) (d_pool D a) (d_grp D) key W = (None, W')"
    using o deployedD(4) [OF assms(1,5)] c by (simp add: ForwardPurge_def GRPCClient_Purge_def)
  have nm: "g_name (s_group W a) = d_grp D" using assms(4,5) by simp
  have "PurgeKey ?E key (s_group W a, W) = (None, s_group W a, W')"
    using pool.others_write(2) [OF deployedD(8,10) [OF assms(1,5)] _ assms(3)]
      forwards_live(1) [OF assms(1,2,5), of "wire D (Suc (Suc n))"] False fp nm
    by (simp add: pool_writer_def)
  moreover have "forwards ?E key W \<noteq> None" using forwards_live(2) [OF assms(1,2,5)] False by simp
  ultimately have "serve D (wire D (Suc (Suc n))) a (Some (peerAppendOutgoingContext [] tok)) (RPurge (Some (d_grp D, key))) W =
      Done (Inr Empty, W')"
    unfolding serve_admitted [OF assms(1,5)] using assms(3)
    by (simp add: GRPCServer_Purge_def GetGroup_def rpc_write_def del: not_None_eq)
  with W'(2) show ?thesis by blast
qed

section \<open>Reading\<close>

text \<open>A member that has a copy of the value, and one that does not have the key but has room for it.\<close>

definition replica :: "string \<Rightarrow> bytes \<Rightarrow> 'b Group \<Rightarrow> bool" where
  "replica key val g \<longleftrightarrow> group_inv g \<and>
     (held Main g key = Some (VView (NewByteView val)) \<or>
      held Main g key = None \<and> held Hot g key = Some (VView (NewByteView val)))"

definition blank :: "string \<Rightarrow> string \<Rightarrow> bytes \<Rightarrow> 'b Group \<Rightarrow> bool" where
  "blank grp key val g \<longleftrightarrow> sound_group grp g \<and> (\<forall>t. held t g key = None) \<and> g_negUntil g key = None \<and>
     has_room g key val"

text \<open>The owner has the value and nobody has another one.\<close>

definition agreed :: "string \<Rightarrow> string set \<Rightarrow> string \<Rightarrow> string \<Rightarrow> bytes \<Rightarrow> ('b, 'e) shared \<Rightarrow> bool" where
  "agreed grp S m key val W \<longleftrightarrow> group_inv (s_group W m) \<and>
     held Main (s_group W m) key = Some (VView (NewByteView val)) \<and>
     (\<forall>b\<in>S - {m}. replica key val (s_group W b) \<or> blank grp key val (s_group W b))"

lemma peekTier_keeps:
  assumes "keeps obs E" and "peekTier E t key (g, w) = Done (r, g', w')"
  shows "obs w' = obs w"
proof (cases "tier_cache t g")
  case None
  with assms(2) show ?thesis by (simp add: peekTier_def)
next
  case (Some c)
  obtain vi c1 where c1: "CacheStore_Get c key = (vi, c1)" by fastforce
  obtain now w1 where n: "x_now E w = (now, w1)" by fastforce
  show ?thesis
    using assms(2) Some c1 n keepsD(1) [OF assms(1) n]
      persist_keeps(2) [OF assms(1), of key "tier_Remove t key (set_tier t c1 g)" w1]
    by (auto simp: peekTier_def split: option.splits if_splits Value.splits prod.splits)
qed

lemma peekTier_view:
  assumes "group_inv g" and "held t g key = Some (VView v)"
  shows "\<exists>g' w'. peekTier E t key (g, w) = Done (Some v, g', w') \<and> group_inv g' \<and> held t g' = held t g \<and>
    (\<forall>u. u \<noteq> t \<longrightarrow> tier_cache u g' = tier_cache u g)"
proof -
  from peekTier_ok [OF assms(1), of E t key w] obtain r g' w' where
    p: "peekTier E t key (g, w) = Done (r, g', w')" "peek_done t key (fst (x_now E w)) g r g'" by blast
  have r: "r = Some v" using peek_doneD(6) [OF p(2)] assms(2) by (simp add: live_view_def)
  then show ?thesis using p(1) peek_doneD(1,4,8) [OF p(2)] by (intro exI [of _ g'] exI [of _ w']) auto
qed

lemma held_cong: "tier_cache t g' = tier_cache t g \<Longrightarrow> held t g' = held t g"
  by (simp add: held_def)

text \<open>A copy is read without asking anybody.\<close>

lemma Get_replica:
  assumes "replica key val g" and "key \<noteq> []" and "keeps obs E"
  shows "\<exists>g' w'. Group_Get E key (g, w) = Done (Inr (NewByteView val), g', w') \<and> replica key val g' \<and>
    held Main g' = held Main g \<and> obs w' = obs w"
proof (cases "held Main g key")
  case (Some x)
  with assms(1) have g: "group_inv g" "held Main g key = Some (VView (NewByteView val))"
    by (auto simp: replica_def)
  obtain g' w' where p: "peekTier E Main key (g, w) = Done (Some (NewByteView val), g', w')" "group_inv g'"
    "held Main g' = held Main g" using peekTier_view [OF g, of E w] by blast
  with g assms(2) peekTier_keeps [OF assms(3) p(1)] show ?thesis by (simp add: Group_Get_def replica_def)
next
  case None
  with assms(1) have g: "group_inv g" "held Hot g key = Some (VView (NewByteView val))"
    by (auto simp: replica_def)
  have h: "g_hotCache g \<noteq> None" using g(2) held_None [of Hot g] by (cases "g_hotCache g") simp_all
  obtain g' w' where p: "peekTier E Hot key (g, w) = Done (Some (NewByteView val), g', w')" "group_inv g'"
    "held Hot g' = held Hot g" "tier_cache Main g' = tier_cache Main g"
    using peekTier_view [OF g, of E w] by blast
  with g assms(2) None h peekTier_keeps [OF assms(3) p(1)] held_cong [OF p(4)] show ?thesis
    by (simp add: Group_Get_def replica_def peekTier_absent [OF g(1) None] del: not_None_eq)
qed

lemma serve_Get_replica:
  assumes "deployed D S peers q tok" and "b \<in> S" and "key \<noteq> []" and "replica key val (s_group W b)"
  shows "\<exists>g' W'. serve D N b (Some (peerAppendOutgoingContext [] tok)) (RGet (Some (d_grp D, key))) W =
      Done (Inr (Response val), W') \<and> s_group W' = (s_group W)(b := g') \<and> replica key val g' \<and>
      held Main g' = held Main (s_group W b)"
proof -
  obtain g' W1 where g: "Group_Get (node_ext D N b) key (s_group W b, W) = Done (Inr (NewByteView val), g', W1)"
    "replica key val g'" "held Main g' = held Main (s_group W b)" "s_group W1 = s_group W"
    using Get_replica [OF assms(4,3) deployedD(2) [OF assms(1,2)], of N W] by blast
  have "serve D N b (Some (peerAppendOutgoingContext [] tok)) (RGet (Some (d_grp D, key))) W =
      Done (Inr (Response val), W1\<lparr>s_group := (s_group W1)(b := g')\<rparr>)"
    unfolding serve_admitted [OF assms(1,2)]
    by (simp add: GRPCServer_Get_def GetGroup_def g(1) NewByteView_def cloneBytes_def go_copy_def)
  with g show ?thesis by (intro exI [of _ g'] exI [of _ "W1\<lparr>s_group := (s_group W1)(b := g')\<rparr>"]) simp
qed

text \<open>A member without the key asks the owner and keeps what it gets.\<close>

lemma stub_Get_owner:
  assumes "deployed D S peers q tok" and "m \<in> S" and "key \<noteq> []" and "replica key val (s_group W m)"
  shows "\<exists>g' W'. n_stubGet (wire D (Suc n)) (grpcTarget m) (peerAppendOutgoingContext [] tok) (d_grp D) key W =
      (Inr val, W') \<and> s_group W' = (s_group W)(m := g') \<and> replica key val g' \<and>
      held Main g' = held Main (s_group W m)"
proof -
  obtain g' W' where W': "serve D (wire D n) m (Some (peerAppendOutgoingContext [] tok)) (RGet (Some (d_grp D, key))) W =
      Done (Inr (Response val), W')" "s_group W' = (s_group W)(m := g')" "replica key val g'"
    "held Main g' = held Main (s_group W m)"
    using serve_Get_replica [OF assms] by blast
  have "n_stubGet (wire D (Suc n)) (grpcTarget m) (peerAppendOutgoingContext [] tok) (d_grp D) key W = (Inr val, W')"
    by (simp add: wire.simps(2) served_net_def call_target_def reply_value_def deployed_find [OF assms(1,2)] W'(1))
  with W'(2-) show ?thesis by blast
qed

lemma pool_Get_owner:
  assumes "deployed D S peers q tok" and "m \<in> S" and "key \<noteq> []" and "replica key val (s_group W m)" and "b \<in> S"
  shows "\<exists>g' W'. pp_Get (pool_picker (wire D (Suc n)) (d_etcd D) (d_order D b) (d_pool D b)) m (d_grp D) key W =
      Done (Inr val, W') \<and> s_group W' = (s_group W)(m := g') \<and> replica key val g' \<and>
      held Main g' = held Main (s_group W m)"
proof -
  obtain c where c: "p_grpcClients (d_pool D b) m = Some c" "c_target c = grpcTarget m" "c_peerToken c = tok"
    using deployed_client [OF assms(1,5,2)] by blast
  with stub_Get_owner [OF assms(1-4), of n] deployedD(4) [OF assms(1,5)] show ?thesis
    by (simp add: pool_picker_def peer_client_def GRPCClient_Get_def)
qed

lemma Get_blank:
  assumes "deployed D S peers q tok" and "owner_of S (d_pool D) key m" and "key \<noteq> []"
    and "replica key val (s_group W m)" and "b \<in> S" and "b \<noteq> m" and "blank (d_grp D) key val g"
  shows "\<exists>gm gb W'. Group_Get (node_ext D (wire D (Suc n)) b) key (g, W) = Done (Inr (NewByteView val), gb, W') \<and>
      s_group W' = (s_group W)(m := gm) \<and> replica key val gm \<and> held Main gm = held Main (s_group W m) \<and>
      replica key val gb"
proof -
  let ?E = "node_ext D (wire D (Suc n)) b" and ?t = "if g_hotCache g \<noteq> None then Hot else Main"
  note k = deployedD(2) [OF assms(1,5), of "wire D (Suc n)"]
  have mS: "m \<in> S" using assms(2) by (simp add: owner_of_def)
  have g: "sound_group (d_grp D) g" "\<And>t. held t g key = None" "g_negUntil g key = None" "has_room g key val"
    using assms(7) by (simp_all add: blank_def)
  note sg = sound_groupD [OF g(1)]
  define W0 where "W0 = (if g_negTTL g \<le> 0 then W else snd (x_now ?E W))"
  have s0: "s_group W0 = s_group W" "s_group (snd (x_now ?E w)) = s_group w" for w
    using keepsD(1) [OF k] by (auto simp: W0_def) (metis prod.collapse)+
  have get: "Group_Get ?E key (g, W) = load ?E key (g, W0)"
    by (simp add: Group_Get_absent [OF sg(1) assms(3) g(2)] peekNegative_absent [OF g(3)] W0_def)
  have "replica key val (s_group (snd (x_now ?E W0)) m)" using s0 assms(4) by simp
  from pool_Get_owner [OF assms(1) mS assms(3) this assms(5), of n] s0 sg(2) obtain gm W1 where
    peer: "pp_Get (pool_picker (wire D (Suc n)) (d_etcd D) (d_order D b) (d_pool D b)) m (g_name g) key
      (snd (x_now ?E W0)) = Done (Inr val, W1)"
    and gm: "s_group W1 = (s_group W)(m := gm)" "replica key val gm" "held Main gm = held Main (s_group W m)"
    by auto
  have pick: "pp_PickPeer (pool_picker (wire D (Suc n)) (d_etcd D) (d_order D b) (d_pool D b)) key W0 = m"
    and "m \<noteq> []"
    using deployed_pick [OF assms(1,2,5), of "wire D (Suc n)" "d_etcd D" "d_order D b" W0]
      forwards_live(1) [OF assms(1,2,5), of "wire D (Suc n)" W0] assms(6) by simp_all
  have t: "tier_cache ?t g \<noteq> None" using sg(5) by simp
  from load_peer_value [OF sg(1) deployedD(10) [OF assms(1,5)] pick \<open>m \<noteq> []\<close> peer sg(4)
      deployedD(3) [OF assms(1,5)] refl has_room_fits [OF g(4,2)] t]
  obtain g1 gb W' x where l: "load ?E key (g, W0) = Done (Inr (NewByteView val), gb, W')" "group_inv gb"
    "held ?t gb key = Some x" "lifetime g (fst (x_now ?E (snd (x_now ?E W1)))) (NewByteView val) x"
    "\<forall>u. u \<noteq> ?t \<longrightarrow> tier_cache u gb = tier_cache u g"
    "putTier ?E ?t key (NewByteView val) (g1, snd (x_now ?E W1)) = Done (gb, W')" by blast
  have x: "x = VView (NewByteView val)" using l(4) sg(3) by (simp add: lifetime_def)
  have "g_hotCache g \<noteq> None \<Longrightarrow> held Main gb key = None"
    using l(5) [rule_format, of Main] held_cong [of Main gb g] g(2) by simp
  then have "replica key val gb" using l(2,3) x by (auto simp: replica_def split: if_splits)
  moreover have "s_group W' = (s_group W)(m := gm)" using putTier_keeps [OF k l(6)] s0(2) gm(1) by simp
  ultimately show ?thesis using get l(1) gm by auto
qed

text \<open>Every read returns the value and leaves the members in agreement.\<close>

lemma serve_Get:
  assumes "deployed D S peers q tok" and "owner_of S (d_pool D) key m" and "key \<noteq> []"
    and "agreed (d_grp D) S m key val W" and "b \<in> S"
  shows "\<exists>W'. serve D (wire D (Suc n)) b (Some (peerAppendOutgoingContext [] tok)) (RGet (Some (d_grp D, key))) W =
      Done (Inr (Response val), W') \<and> agreed (d_grp D) S m key val W'"
proof -
  have m: "replica key val (s_group W m)" using assms(4) by (simp add: agreed_def replica_def)
  have step: "agreed (d_grp D) S m key val W'"
    if "s_group W' = (s_group W)(x := g')" "replica key val g'" "x = m \<Longrightarrow> held Main g' = held Main (s_group W m)"
      "agreed (d_grp D) S m key val W" for W W' :: "('a, 'b) shared" and x g'
    using that by (auto simp: agreed_def replica_def)
  show ?thesis
  proof (cases "replica key val (s_group W b)")
    case True
    from serve_Get_replica [OF assms(1,5,3) this] step [OF _ _ _ assms(4)] show ?thesis by blast
  next
    case False
    with m have "b \<noteq> m" by auto
    with assms(4,5) False have "blank (d_grp D) key val (s_group W b)" by (auto simp: agreed_def)
    from Get_blank [OF assms(1-3) m assms(5) \<open>b \<noteq> m\<close> this, of n] obtain gm gb W1 where
      g: "Group_Get (node_ext D (wire D (Suc n)) b) key (s_group W b, W) = Done (Inr (NewByteView val), gb, W1)"
        "s_group W1 = (s_group W)(m := gm)" "replica key val gm" "held Main gm = held Main (s_group W m)"
        "replica key val gb" by blast
    have "serve D (wire D (Suc n)) b (Some (peerAppendOutgoingContext [] tok)) (RGet (Some (d_grp D, key))) W =
        Done (Inr (Response val), W1\<lparr>s_group := (s_group W1)(b := gb)\<rparr>)"
      unfolding serve_admitted [OF assms(1,5)]
      by (simp add: GRPCServer_Get_def GetGroup_def g(1) ByteSlice_NewByteView)
    moreover have "agreed (d_grp D) S m key val W1" using step [OF g(2,3) _ assms(4)] g(4) by simp
    then have "agreed (d_grp D) S m key val (W1\<lparr>s_group := (s_group W1)(b := gb)\<rparr>)"
      using step [of _ W1 b gb] g(5) \<open>b \<noteq> m\<close> by simp
    ultimately show ?thesis by blast
  qed
qed

text \<open>Reads of one key, one after the other, each at a member of its own.\<close>

fun reads ::
  "('b, 'e) deployment \<Rightarrow> ('b, 'e) shared net \<Rightarrow> MD option \<Rightarrow> string \<Rightarrow> string list \<Rightarrow> ('b, 'e) shared \<Rightarrow>
   ((status + rpc_reply) list \<times> ('b, 'e) shared) outcome" where
  "reads D N md key [] W = Done ([], W)"
| "reads D N md key (b # bs) W =
     obind (serve D N b md (RGet (Some (d_grp D, key))) W)
       (\<lambda>(r, W1). obind (reads D N md key bs W1) (\<lambda>(rs, W2). Done (r # rs, W2)))"

lemma reads_agreed:
  assumes "deployed D S peers q tok" and "owner_of S (d_pool D) key m" and "key \<noteq> []"
    and "agreed (d_grp D) S m key val W" and "set bs \<subseteq> S"
  shows "\<exists>W'. reads D (wire D (Suc n)) (Some (peerAppendOutgoingContext [] tok)) key bs W =
      Done (map (\<lambda>_. Inr (Response val)) bs, W')"
  using assms(4,5)
proof (induction bs arbitrary: W)
  case (Cons b bs)
  from serve_Get [OF assms(1-3) Cons.prems(1), of b n] Cons.prems(2) obtain W1 where
    "serve D (wire D (Suc n)) b (Some (peerAppendOutgoingContext [] tok)) (RGet (Some (d_grp D, key))) W =
      Done (Inr (Response val), W1)" "agreed (d_grp D) S m key val W1" by auto
  with Cons.IH [of W1] Cons.prems(2) show ?case by auto
qed simp

lemma written_agreed:
  assumes "written S m key val W W'" and "\<forall>b\<in>S. sound_group grp (s_group W b) \<and> has_room (s_group W b) key val"
  shows "agreed grp S m key val W'"
proof -
  have "blank grp key val (s_group W' b)" if "b \<in> S - {m}" for b
  proof -
    have f: "forgot key (s_group W b) (s_group W' b)" using assms(1) that by (simp add: written_def)
    then have c: "config (s_group W' b) = config (s_group W b)" by (simp add: forgot_def)
    from f have sh: "shapes (s_group W' b) = shapes (s_group W b)" by (simp add: forgot_def)
    have "has_room (s_group W' b) key val" using shapes_room [OF _ sh] assms(2) that by blast
    with f assms(2) that configD(1,2) [OF c] durations_config [OF c] shapes_None [OF sh, of Main] show ?thesis
      by (simp add: blank_def sound_group_def forgot_def)
  qed
  with assms(1) show ?thesis by (simp add: agreed_def written_def)
qed

section \<open>Two members of a running cluster\<close>

definition live_ext :: "((string list, int) shared, string list) ext" where
  "live_ext =
     \<lparr>x_now = (\<lambda>w. (s_rest w, w\<lparr>s_rest := s_rest w + 1\<rparr>)), x_Int63n = (\<lambda>n w. (n - 1, w)),
      x_getter = (\<lambda>key w. (if key = ''Sam'' then Inr ''567'' else Inl (Wrapf ''db'' ErrNotFound), w)), x_peers = None,
      x_bolt =
        \<lparr>bb_Open = (\<lambda>_ w. (None, w)), bb_Close = (\<lambda>w. (None, w)), bb_Sync = (\<lambda>w. (None, w)),
         bb_Update = (\<lambda>fn w. (Some (Errorf ''read-only file system''), w)), bb_ViewBegin = (\<lambda>_. None),
         bb_CreateBucketIfNotExists = (\<lambda>_ w. (None, w)), bb_Bucket = (\<lambda>_ _. False), bb_Put = (\<lambda>_ _ _ w. (None, w)),
         bb_Delete = (\<lambda>_ _ w. (None, w)), bb_pairs = (\<lambda>_ _. [])\<rparr>,
      x_bloomNew = (\<lambda>_ _. []), x_bloomTest = (\<lambda>b key. key \<in> set b), x_bloomAdd = (\<lambda>b key. key # b)\<rparr>"

definition live_net :: "(string list, int) shared net" where
  "live_net = served_net (\<lambda>_ _ _ w. (Inl (Errorf ''rpc error: unavailable''), w))"

definition live_deployment :: "(string list, int) deployment" where
  "live_deployment =
     \<lparr>d_members = [url_a, url_b],
      d_pool = (\<lambda>a. snd (AddPeers live_net [url_a, url_b] (ex_config True a))),
      d_ext = (\<lambda>_. live_ext), d_grp = ''scores'', d_etcd = ex_etcd,
      d_order = (\<lambda>a. if a = url_a then [url_b] else [url_a])\<rparr>"

definition live_group :: "string list Group" where
  "live_group = (case NewGroup ex_ext ''scores'' 2048 512 ''lru'' 0 0 50 0 0 True None False (\<lambda>_. None) ([], 0) of
     Done (g, _) \<Rightarrow> g)"

lemma live_ext_ok: "keeps s_group live_ext" "rand_ok live_ext"
  by (simp_all add: keeps_def rand_ok_def live_ext_def BoltStore_Put_def BoltStore_Delete_def)

lemma live_pool_fields:
  assumes "a \<in> {url_a, url_b}"
  shows "p_registry (d_pool live_deployment a) = None"
    "broadcast_peers (d_pool live_deployment a) = {url_a, url_b} - {a}"
proof -
  let ?p = "snd (AddPeers live_net [url_a, url_b] (ex_config True a))"
  have p: "AddPeers live_net [url_a, url_b] (ex_config True a) = (None, ?p)"
    by (simp add: AddPeers_def Pool_Set_def ex_config_fields)
  have "p_registry (ex_config True a) = None"
    by (simp add: ex_config_def UseGRPC_def SetPeerAuthToken_def NewHTTPPool_def AddPeers_def Pool_Set_def)
  then show "p_registry (d_pool live_deployment a) = None"
    by (simp add: live_deployment_def AddPeers_def Pool_Set_def ex_config_fields)
  have "dom (p_httpGetters ?p) = {url_a, url_b}"
    using AddPeers_fields(6) [OF p] by (auto simp: make_getters_eq split: if_splits)
  then show "broadcast_peers (d_pool live_deployment a) = {url_a, url_b} - {a}"
    using AddPeers_fields(2) [OF p] by (simp add: live_deployment_def broadcast_peers_def ex_config_fields)
qed

lemma live_deployed: "deployed live_deployment {url_a, url_b} (\<lambda>_. [url_a, url_b]) (ex_config True) ''secret''"
proof -
  have c: "cluster {url_a, url_b} (\<lambda>_. wire live_deployment 0) (\<lambda>_. [url_a, url_b]) (ex_config True) ''secret''
      (d_pool live_deployment)"
    using ex_cluster_on [of live_net True] by (simp add: live_deployment_def live_net_def)
  have "grpcTarget url_a \<noteq> grpcTarget url_b" by code_simp
  then have i: "inj_on grpcTarget {url_a, url_b}" by (auto simp: inj_on_def)
  show ?thesis unfolding deployed_def
  proof (intro conjI ballI)
    fix a assume a: "a \<in> {url_a, url_b}"
    show "set (d_order live_deployment a) = broadcast_peers (d_pool live_deployment a)"
      using a live_pool_fields(2) [OF a] by (auto simp: live_deployment_def)
    show "distinct (d_order live_deployment a)" "keeps s_group (d_ext live_deployment a)"
      "rand_ok (d_ext live_deployment a)" "p_useGRPC (ex_config True a)"
      using live_ext_ok by (simp_all add: live_deployment_def ex_config_fields)
  qed (use c i live_pool_fields(1) in \<open>simp_all add: live_deployment_def\<close>)
qed

lemma live_group_ok:
  "sound_group ''scores'' live_group" "has_room live_group ''Tom'' ''630''" "fits Main live_group ''Tom'' (NewByteView ''630'')"
proof -
  have b: "(0::int) \<le> 2048" by simp
  from NewGroup_cold [OF b, of None False ex_ext "''scores''" 512 "''lru''" 0 0 50 0 0 "\<lambda>_. None" "([], 0)"]
  have "group_inv live_group \<and> g_mainCache live_group \<noteq> None \<and> g_name live_group = ''scores'' \<and> g_ttl live_group = 0 \<and>
      g_ttlJitter live_group = 0"
    by (auto simp: live_group_def)
  then show "sound_group ''scores'' live_group" by (simp add: sound_group_def durations_ok_def)
  have "map_option store_max (tier_cache Main live_group) = Some 2048" "map_option store_max (tier_cache Hot live_group) = Some 512"
    by code_simp+
  then have "tier_cache t live_group = Some c \<Longrightarrow> 512 \<le> store_max c" for t c by (cases t) auto
  then show "has_room live_group ''Tom'' ''630''" by (fastforce simp: has_room_def)
  show "fits Main live_group ''Tom'' (NewByteView ''630'')" by code_simp
qed

section \<open>Properties\<close>

text \<open>
  C2: A cluster whose members talk over gRPC reads its own writes, when entries do not expire (no
  \<open>-cache-ttl\<close>) and the entry has room: key and value together are no longer than the capacity of each tier of
  each member, and the main tier admits the entry, that is, storing it ends. (With a TTL a later read may
  go back to the getter; the histories of \<open>History\<close> cover it.) The network is the members' own servers. When a client that has the token sets a key at any member, the call succeeds,
  and then any sequence of reads of the key, each at any member, gets exactly the value that was set: the
  write reaches the one owner, every copy elsewhere, of whatever value, is dropped before the call returns,
  and members that are asked fetch the value from the owner and may keep it.
\<close>

theorem cluster_reads_writes:
  assumes "deployed D S peers q tok" and "a \<in> S" and "key \<noteq> []"
    and "\<forall>b\<in>S. sound_group (d_grp D) (s_group W b) \<and> has_room (s_group W b) key val \<and>
      fits Main (s_group W b) key (NewByteView val)"
  shows "\<exists>W1. serve D (wire D (n + 2)) a (Some (peerAppendOutgoingContext [] tok)) (RSet (Some (d_grp D, key, val))) W =
      Done (Inr Empty, W1) \<and>
    (\<forall>bs. set bs \<subseteq> S \<longrightarrow> (\<exists>W2. reads D (wire D (k + 1)) (Some (peerAppendOutgoingContext [] tok)) key bs W1 =
      Done (map (\<lambda>_. Inr (Response val)) bs, W2)))"
proof -
  obtain m where m: "owner_of S (d_pool D) key m" using cluster_owner [OF deployedD(1) [OF assms(1,2)]] by blast
  then have "m \<in> S" by (simp add: owner_of_def)
  with assms(4) have "\<forall>b\<in>S. sound_group (d_grp D) (s_group W b)" "fits Main (s_group W m) key (NewByteView val)"
    by simp_all
  from serve_Set [OF assms(1) m assms(3) this assms(2), of n] obtain W1 where
    W1: "serve D (wire D (Suc (Suc n))) a (Some (peerAppendOutgoingContext [] tok)) (RSet (Some (d_grp D, key, val))) W =
      Done (Inr Empty, W1)" "written S m key val W W1" by blast
  have "agreed (d_grp D) S m key val W1" using written_agreed [OF W1(2)] assms(4) by blast
  from W1(1) reads_agreed [OF assms(1) m assms(3) this, of _ k] show ?thesis by auto
qed

theorem cluster_reads_writes_witness:
  "\<exists>W1 W2. serve live_deployment (wire live_deployment 2) url_a (Some (peerAppendOutgoingContext [] ''secret''))
      (RSet (Some (''scores'', ''Tom'', ''630''))) \<lparr>s_group = \<lambda>_. live_group, s_rest = 0\<rparr> = Done (Inr Empty, W1) \<and>
    reads live_deployment (wire live_deployment 1) (Some (peerAppendOutgoingContext [] ''secret'')) ''Tom''
      [url_b, url_a, url_b] W1 = Done ([Inr (Response ''630''), Inr (Response ''630''), Inr (Response ''630'')], W2)"
proof -
  let ?W = "\<lparr>s_group = \<lambda>_. live_group, s_rest = 0 :: int\<rparr>"
  have g: "d_grp live_deployment = ''scores''" by (simp add: live_deployment_def)
  have a: "url_a \<in> {url_a, url_b}" and k: "''Tom'' \<noteq> []" by simp_all
  have s: "\<forall>b\<in>{url_a, url_b}. sound_group (d_grp live_deployment) (s_group ?W b) \<and>
      has_room (s_group ?W b) ''Tom'' ''630'' \<and> fits Main (s_group ?W b) ''Tom'' (NewByteView ''630'')"
    using live_group_ok by (simp add: g)
  obtain W1 where w: "serve live_deployment (wire live_deployment (0 + 2)) url_a
      (Some (peerAppendOutgoingContext [] ''secret'')) (RSet (Some (d_grp live_deployment, ''Tom'', ''630''))) ?W = Done (Inr Empty, W1)"
    and r: "\<forall>bs. set bs \<subseteq> {url_a, url_b} \<longrightarrow> (\<exists>W2. reads live_deployment (wire live_deployment (0 + 1))
      (Some (peerAppendOutgoingContext [] ''secret'')) ''Tom'' bs W1 = Done (map (\<lambda>_. Inr (Response ''630'')) bs, W2))"
    using cluster_reads_writes [OF live_deployed a k s, of 0 0] by blast
  have "set [url_b, url_a, url_b] \<subseteq> {url_a, url_b}" by simp
  with r obtain W2 where "reads live_deployment (wire live_deployment (0 + 1))
      (Some (peerAppendOutgoingContext [] ''secret'')) ''Tom'' [url_b, url_a, url_b] W1 =
      Done (map (\<lambda>_. Inr (Response ''630'')) [url_b, url_a, url_b], W2)" by blast
  then show ?thesis using w by (intro exI [of _ W1] exI [of _ W2]) (simp only: g list.map add_0 simp_thms)
qed

text \<open>
  C3: A purge at any member reaches all of them: when the call returns, it has succeeded and no
  member has the key in a tier or in its negative cache, while every other key is as before. The groups
  need only be well-formed; they may have a TTL.
\<close>

theorem cluster_purges:
  assumes "deployed D S peers q tok" and "a \<in> S" and "key \<noteq> []"
    and "\<forall>b\<in>S. group_inv (s_group W b) \<and> g_name (s_group W b) = d_grp D"
  shows "\<exists>W1. serve D (wire D (n + 2)) a (Some (peerAppendOutgoingContext [] tok)) (RPurge (Some (d_grp D, key))) W =
      Done (Inr Empty, W1) \<and>
    (\<forall>b\<in>S. group_inv (s_group W1 b) \<and> (\<forall>t. held t (s_group W1 b) = (held t (s_group W b))(key := None)) \<and>
       g_negUntil (s_group W1 b) = (g_negUntil (s_group W b))(key := None))"
proof -
  obtain m where m: "owner_of S (d_pool D) key m" using cluster_owner [OF deployedD(1) [OF assms(1,2)]] by blast
  from serve_Purge [OF assms(1) m assms(3,4,2), of n] show ?thesis by (auto simp: forgot_def)
qed

text \<open>After a write the owner has the key; a purge at the other member removes it.\<close>

lemma live_written:
  obtains m and W :: "(string list, int) shared"
  where "m \<in> {url_a, url_b}" "held Main (s_group W m) ''Tom'' = Some (VView (NewByteView ''630''))"
    "serve live_deployment (wire live_deployment 2) url_a (Some (peerAppendOutgoingContext [] ''secret''))
      (RSet (Some (''scores'', ''Tom'', ''630''))) \<lparr>s_group = \<lambda>_. live_group, s_rest = 0\<rparr> = Done (Inr Empty, W)"
    "\<forall>b\<in>{url_a, url_b}. group_inv (s_group W b) \<and> g_name (s_group W b) = ''scores''"
proof -
  let ?W = "\<lparr>s_group = \<lambda>_. live_group, s_rest = 0 :: int\<rparr>" and ?S = "{url_a, url_b}"
  have a: "url_a \<in> ?S" and k: "''Tom'' \<noteq> []" by simp_all
  obtain m where m: "owner_of ?S (d_pool live_deployment) ''Tom'' m"
    using cluster_owner [OF deployedD(1) [OF live_deployed a]] by blast
  have grp: "d_grp live_deployment = ''scores''" by (simp add: live_deployment_def)
  have sg: "\<forall>c\<in>?S. sound_group (d_grp live_deployment) (s_group ?W c)"
    and fit: "fits Main (s_group ?W m) ''Tom'' (NewByteView ''630'')"
    using live_group_ok by (simp_all add: grp)
  from serve_Set [OF live_deployed m k sg fit a, of 0] obtain W where
    w: "serve live_deployment (wire live_deployment (Suc (Suc 0))) url_a (Some (peerAppendOutgoingContext [] ''secret''))
        (RSet (Some (''scores'', ''Tom'', ''630''))) ?W = Done (Inr Empty, W)" "written ?S m ''Tom'' ''630'' ?W W"
    unfolding grp by blast
  have "config (s_group W b) = config live_group \<and> group_inv (s_group W b)" if "b \<in> ?S" for b
    using w(2) that by (cases "b = m") (auto simp: written_def forgot_def)
  moreover have "g_name live_group = ''scores''" using live_group_ok(1) by (simp add: sound_group_def)
  ultimately have "\<forall>b\<in>?S. group_inv (s_group W b) \<and> g_name (s_group W b) = ''scores''"
    using configD(1) by metis
  then show ?thesis
    using that [of m W] m w by (simp add: owner_of_def written_def numeral_2_eq_2)
qed

theorem cluster_purges_witness:
  "\<exists>m W W1. m \<in> {url_a, url_b} \<and> held Main (s_group W m) ''Tom'' = Some (VView (NewByteView ''630'')) \<and>
    serve live_deployment (wire live_deployment 2) url_a (Some (peerAppendOutgoingContext [] ''secret''))
      (RSet (Some (''scores'', ''Tom'', ''630''))) \<lparr>s_group = \<lambda>_. live_group, s_rest = 0\<rparr> = Done (Inr Empty, W) \<and>
    serve live_deployment (wire live_deployment 2) url_b (Some (peerAppendOutgoingContext [] ''secret''))
      (RPurge (Some (''scores'', ''Tom''))) W = Done (Inr Empty, W1) \<and>
    held Main (s_group W1 m) ''Tom'' = None"
proof -
  obtain m and W :: "(string list, int) shared" where W: "m \<in> {url_a, url_b}"
    "held Main (s_group W m) ''Tom'' = Some (VView (NewByteView ''630''))"
    "serve live_deployment (wire live_deployment 2) url_a (Some (peerAppendOutgoingContext [] ''secret''))
      (RSet (Some (''scores'', ''Tom'', ''630''))) \<lparr>s_group = \<lambda>_. live_group, s_rest = 0\<rparr> = Done (Inr Empty, W)"
    "\<forall>b\<in>{url_a, url_b}. group_inv (s_group W b) \<and> g_name (s_group W b) = ''scores''"
    by (rule live_written)
  have g: "d_grp live_deployment = ''scores''" by (simp add: live_deployment_def)
  have b: "url_b \<in> {url_a, url_b}" and k: "''Tom'' \<noteq> []" by simp_all
  obtain W1 where w: "serve live_deployment (wire live_deployment 2) url_b
      (Some (peerAppendOutgoingContext [] ''secret'')) (RPurge (Some (''scores'', ''Tom''))) W = Done (Inr Empty, W1)"
    "\<forall>b\<in>{url_a, url_b}. \<forall>t. held t (s_group W1 b) = (held t (s_group W b))(''Tom'' := None)"
    using cluster_purges [OF live_deployed b k, of W 0, unfolded g add_0] W(4) by blast
  then have "held Main (s_group W1 m) ''Tom'' = None" using W(1) by (metis fun_upd_same)
  with W w show ?thesis by blast
qed

end
