(* ===== verification/History.thy ===== *)
theory History
  imports LiveCluster
begin

text \<open>
  Histories of a running cluster: sets, gets and purges of any keys, one after the other, each at any
  member. The abstract state is the map of what was set last; a history of the cluster refines it as
  far as a cache can: a read returns what was set last and not purged since or, when that was lost to
  eviction or expiry or there was none, what the getter has, and never a value that was overwritten; it fails
  only where the getter may fail. The members use the default policy LRU and have room for every entry on
  its own; lifetimes are arbitrary.
\<close>

section \<open>Sound groups\<close>

definition roomy :: "int \<Rightarrow> 'b Group \<Rightarrow> bool" where
  "roomy M g \<longleftrightarrow> (\<forall>t lru n. shapes g t = Some (lru, n) \<longrightarrow> lru \<and> M \<le> n)"

text \<open>Keys other than those in \<open>miss\<close> are not remembered as missing.\<close>

definition clear :: "(string \<Rightarrow> bool) \<Rightarrow> 'b Group \<Rightarrow> bool" where
  "clear miss g \<longleftrightarrow> (\<forall>key. \<not> miss key \<longrightarrow> g_negUntil g key = None \<and> g_missBloom g = None)"

lemma clear_misses: "misses g' = misses g \<Longrightarrow> clear miss g' = clear miss g"
  using missesD [of g' g] by (simp add: clear_def)

text \<open>\<open>ok\<close> are the values a key may have.\<close>

definition sane :: "string \<Rightarrow> int \<Rightarrow> (string \<Rightarrow> bool) \<Rightarrow> (string \<Rightarrow> bytes set) \<Rightarrow> 'b Group \<Rightarrow> bool" where
  "sane grp M miss ok g \<longleftrightarrow> group_inv g \<and> g_name g = grp \<and> durations_ok g \<and> g_mainCache g \<noteq> None \<and> roomy M g \<and>
     clear miss g \<and> (\<forall>t key x. held t g key = Some x \<longrightarrow> bv_b (value_view x) \<in> ok key)"

lemma saneD:
  assumes "sane grp M miss ok g"
  shows "group_inv g" "g_name g = grp" "durations_ok g" "g_mainCache g \<noteq> None" "roomy M g"
    "held t g key = Some x \<Longrightarrow> bv_b (value_view x) \<in> ok key" "clear miss g"
  using assms by (auto simp: sane_def)

text \<open>A group with the same settings and shapes that holds no more is as sound.\<close>

lemma sane_step:
  assumes "sane grp M miss ok g" and "group_inv g'" and "config g' = config g" and "shapes g' = shapes g" and "clear miss g'"
    and "\<And>t key x. held t g' key = Some x \<Longrightarrow> bv_b (value_view x) \<in> ok' key"
  shows "sane grp M miss ok' g'"
proof -
  have "roomy M g'" using saneD(5) [OF assms(1)] unfolding roomy_def assms(4) .
  then show ?thesis
    using assms(2,5,6) saneD(2-4) [OF assms(1)] configD(1) [OF assms(3)] durations_config [OF assms(3)]
      shapes_None [OF assms(4), of Main]
    unfolding sane_def by simp
qed

lemma sane_same:
  assumes "sane grp M miss ok g" and "\<And>t. tier_cache t g' = tier_cache t g" and "config g' = config g" and "clear miss g'"
  shows "sane grp M miss ok g'"
proof -
  have "held t g' = held t g" for t using assms(2) by (simp add: held_def)
  moreover have "group_inv g' = group_inv g" using assms(2) configD(2) [OF assms(3)] by (simp add: group_inv_def)
  ultimately show ?thesis
    using saneD [OF assms(1)] by (intro sane_step [OF assms(1) _ assms(3) shapes_cong assms(4)]) (simp_all add: assms(2))
qed

lemma sane_inc [simp]: "sane grp M miss ok (inc m ls g) \<longleftrightarrow> sane grp M miss ok g"
proof -
  have t: "tier_cache t (inc m ls g) = tier_cache t g" for t by (cases t) simp_all
  have "config (inc m ls g) = config g" by simp
  moreover have "clear miss (inc m ls g) = clear miss g" by (rule clear_misses) simp
  ultimately show ?thesis
    using t saneD(7) sane_same [of grp M miss ok g "inc m ls g"] sane_same [of grp M miss ok "inc m ls g" g] by metis
qed

lemma roomy_fits:
  assumes "roomy M g" and "len key + len val \<le> M"
  shows "fits t g key (NewByteView val)"
proof (cases "tier_cache t g")
  case (Some c)
  then have "shapes g t = Some (is_lru c, store_max c)" by (simp add: shapes_def)
  with assms have "is_lru c" "len key + len val \<le> store_max c" unfolding roomy_def by fastforce+
  with Some show ?thesis by (cases c) (simp_all add: fits_def Cache_admits_def)
qed (simp add: fits_def)

section \<open>Tiers\<close>

lemma shape_Get:
  "is_lru (snd (CacheStore_Get c key)) = is_lru c" "is_lru c \<Longrightarrow> store_max (snd (CacheStore_Get c key)) = store_max c"
  by (cases c; simp add: Cache_Get_def split: option.splits)+

lemma shape_Add:
  assumes "store_inv c" and "store_admits c key v" and "is_lru c" and "CacheStore_Add c key v = Some (c', ev)"
  shows "is_lru c'" "store_max c' = store_max c"
proof -
  from assms(3) obtain x where c: "c = IsCache x" by (cases c) simp_all
  with assms(1,2) have "Cache_wf x" "len key + Value_Len v \<le> c_maxBytes x"
    by (simp_all add: Cache_inv_def Cache_admits_def)
  from Cache_Add_spec [OF this] assms(4) c show "is_lru c'" "store_max c' = store_max c"
    by (auto simp: add_result_def)
qed

lemma roomy_lru: "roomy M g \<Longrightarrow> tier_cache t g = Some c \<Longrightarrow> is_lru c"
  by (auto simp: roomy_def shapes_def)

lemma shapes_inc [simp]: "shapes (inc m ls g) = shapes g"
  by (rule shapes_cong) simp

lemma peekTier_shapes:
  assumes "roomy M g" and "peekTier E t key (g, w) = Done (r, g', w')"
  shows "shapes g' = shapes g"
proof (cases "tier_cache t g")
  case None
  with assms(2) show ?thesis by (simp add: peekTier_def)
next
  case (Some c)
  obtain vi c1 where c1: "CacheStore_Get c key = (vi, c1)" by fastforce
  obtain now w1 where n: "x_now E w = (now, w1)" by fastforce
  have s1: "shapes (set_tier t c1 g) = shapes g"
    using shape_Get [of c key] roomy_lru [OF assms(1) Some] c1 by (intro shapes_set_tier [OF Some]) simp_all
  have "g' = set_tier t c1 g \<or> g' = inc CacheExpired [g_name (tier_Remove t key (set_tier t c1 g))] (tier_Remove t key (set_tier t c1 g))"
    using assms(2) Some c1 n
    by (auto simp: peekTier_def persistDeleteKey_def split: option.splits if_splits Value.splits prod.splits)
  with s1 show ?thesis by (auto simp: shapes_Remove)
qed

lemma putTier_shapes:
  assumes "\<And>c. tier_cache t g = Some c \<Longrightarrow> store_inv c" and "roomy M g" and "fits t g key v"
    and "putTier E t key v (g, w) = Done (g', w')"
  shows "shapes g' = shapes g"
proof (cases "tier_cache t g")
  case None
  with assms(4) show ?thesis by (simp add: putTier_def)
next
  case (Some c)
  have add: "shapes g' = shapes g" if "tier_Add E t c key x (g, w1) = Done (g', w')" "Value_Len x = Value_Len (VView v)" for x w1
  proof -
    from that(1) obtain c' ev where a: "CacheStore_Add c key x = Some (c', ev)"
      "fold (onEvicted E t) ev (set_tier t c' g, w1) = (g', w')"
      by (auto simp: tier_Add_def split: option.splits prod.splits)
    have lru: "is_lru c" by (rule roomy_lru [OF assms(2) Some])
    then have "store_admits c key x" using assms(3) Some that(2) by (cases c) (simp_all add: fits_def Cache_admits_def)
    from shape_Add [OF assms(1) [OF Some] this lru a(1)] lru
    have "shapes (set_tier t c' g) = shapes g" by (intro shapes_set_tier [OF Some]) simp_all
    moreover have "same_tiers (set_tier t c' g) g'" using onEvicted_fold [of "set_tier t c' g" E t ev w1] a(2) by simp
    then have "shapes g' = shapes (set_tier t c' g)" by (intro shapes_cong) (simp add: same_tiers_def)
    ultimately show ?thesis by simp
  qed
  show ?thesis
  proof (cases "g_ttl g > 0")
    case True
    obtain now w1 where n: "x_now E w = (now, w1)" by fastforce
    from assms(4) Some True n obtain d w2 where
      "tier_Add E t c key (VTtl \<lparr>view = v, until = now + d\<rparr>) (g, w2) = Done (g', w')"
      by (auto simp: putTier_def obind_Done_iff)
    then show ?thesis by (rule add) (simp add: ttlEntry_Len_def)
  next
    case False
    with assms(4) Some have "tier_Add E t c key (VView v) (g, w) = Done (g', w')" by (simp add: putTier_def)
    then show ?thesis by (rule add) simp
  qed
qed

text \<open>Reading a tier gives a value the key may have.\<close>

lemma peekTier_sane:
  assumes "sane grp M miss ok g" and "keeps obs E"
  shows "\<exists>r g' w'. peekTier E t key (g, w) = Done (r, g', w') \<and> sane grp M miss ok g' \<and>
    (\<forall>v. r = Some v \<longrightarrow> bv_b v \<in> ok key) \<and> obs w' = obs w"
proof -
  note sn = saneD [OF assms(1)]
  from peekTier_ok [OF sn(1), of E t key w] obtain r g' w' where
    p: "peekTier E t key (g, w) = Done (r, g', w')" "peek_done t key (fst (x_now E w)) g r g'" by blast
  note d = peek_doneD [OF p(2)]
  have h: "held u g' k = Some x \<Longrightarrow> held u g k = Some x" for u k x
    using d(4) [of u] d(7,8) by (cases "u = t"; cases r) (auto simp: held_def split: if_splits)
  have "bv_b v \<in> ok key" if "r = Some v" for v
  proof -
    from d(6) that obtain x where "held t g key = Some x" "live_view (fst (x_now E w)) x = Some v"
      by (cases "held t g key") simp_all
    moreover from this(2) have "value_view x = v" by (auto simp: live_view_def value_view_def split: Value.splits if_splits)
    ultimately show ?thesis using sn(6) by blast
  qed
  moreover have "clear miss g'" using clear_misses [OF d(3)] sn(7) by blast
  then have "sane grp M miss ok g'"
    using sane_step [OF assms(1) d(1,2) peekTier_shapes [OF sn(5) p(1)]] h sn(6) by blast
  ultimately show ?thesis using p(1) peekTier_keeps [OF assms(2) p(1)] by blast
qed

lemma lifetime_view: "lifetime g now v x \<Longrightarrow> value_view x = v"
  by (auto simp: lifetime_def value_view_def split: if_splits)

lemma putTier_sane:
  assumes "sane grp M miss ok g" and "keeps obs E" and "rand_ok E" and "val \<in> ok key" and "len key + len val \<le> M"
  shows "\<exists>g' w'. putTier E t key (NewByteView val) (g, w) = Done (g', w') \<and> sane grp M miss ok g' \<and> obs w' = obs w"
proof -
  note sn = saneD [OF assms(1)]
  have fit: "fits t g key (NewByteView val)" by (rule roomy_fits [OF sn(5) assms(5)])
  from putTier_ok [OF sn(1) fit sn(3) assms(3), of w] obtain g' w' where
    p: "putTier E t key (NewByteView val) (g, w) = Done (g', w')"
      "put_done t key (NewByteView val) (fst (x_now E w)) g g'" by blast
  have "bv_b (value_view x) \<in> ok k" if "held u g' k = Some x" for u k x
  proof (cases "u = t \<and> tier_cache t g \<noteq> None")
    case True
    with p(2) obtain y where y: "lifetime g (fst (x_now E w)) (NewByteView val) y" "held t g' \<subseteq>\<^sub>m (held t g)(key \<mapsto> y)"
      by (auto simp: put_done_def)
    from y(2) that True have "((held t g)(key \<mapsto> y)) k = Some x" unfolding map_le_def by (metis domI)
    then show ?thesis using lifetime_view [OF y(1)] sn(6) assms(4) by (auto simp: NewByteView_def cloneBytes_def go_copy_def split: if_splits)
  next
    case False
    with p(2) have "tier_cache u g' = tier_cache u g" by (cases "u = t") (simp_all add: put_done_def)
    with that have "held u g k = Some x" by (simp add: held_def)
    then show ?thesis by (rule sn(6))
  qed
  moreover have pd: "group_inv g'" "config g' = config g" "misses g' = misses g" using p(2) by (simp_all add: put_done_def)
  moreover have "clear miss g'" using clear_misses [OF pd(3)] sn(7) by blast
  moreover have "shapes g' = shapes g" by (rule putTier_shapes [OF _ sn(5) fit p(1)]) (rule group_invD(1) [OF sn(1)])
  ultimately have "sane grp M miss ok g'" using sane_step [OF assms(1)] by blast
  with p(1) putTier_keeps [OF assms(2) p(1)] show ?thesis by blast
qed

section \<open>Reading from a group\<close>

text \<open>A read ends with a result the key may have; \<open>Q\<close> is what it keeps of the world.\<close>

definition reads_ok ::
  "string \<Rightarrow> int \<Rightarrow> (string \<Rightarrow> bool) \<Rightarrow> (string \<Rightarrow> bytes set) \<Rightarrow> ('w \<Rightarrow> bool) \<Rightarrow> string \<Rightarrow>
   ((error + ByteView) \<times> 'b Group \<times> 'w) outcome \<Rightarrow> bool" where
  "reads_ok grp M miss ok Q key r \<longleftrightarrow> (\<exists>res g' w'. r = Done (res, g', w') \<and> sane grp M miss ok g' \<and> Q w' \<and>
     (\<forall>v. res = Inr v \<longrightarrow> bv_b v \<in> ok key) \<and> (\<forall>err. res = Inl err \<longrightarrow> miss key))"

definition observed :: "('w \<Rightarrow> 'x) \<Rightarrow> ('w \<Rightarrow> bool) \<Rightarrow> bool" where
  "observed obs Q \<longleftrightarrow> (\<forall>w w'. obs w' = obs w \<longrightarrow> Q w \<longrightarrow> Q w')"

lemma observedD: "observed obs Q \<Longrightarrow> obs w' = obs w \<Longrightarrow> Q w \<Longrightarrow> Q w'"
  unfolding observed_def by blast

text \<open>What the getter has for a key, and the keys for which it may fail.\<close>

definition getter_ok :: "(string \<Rightarrow> bytes option) \<Rightarrow> (string \<Rightarrow> bool) \<Rightarrow> ('w, 'b) ext \<Rightarrow> bool" where
  "getter_ok src miss E \<longleftrightarrow> (\<forall>key w bs. fst (x_getter E key w) = Inr bs \<longrightarrow> src key = Some bs) \<and>
     (\<forall>key w err. fst (x_getter E key w) = Inl err \<longrightarrow> miss key)"

definition sized :: "int \<Rightarrow> (string \<Rightarrow> bytes set) \<Rightarrow> bool" where
  "sized M ok \<longleftrightarrow> (\<forall>key. \<forall>v\<in>ok key. len key + len v \<le> M)"

lemma keeps_now: "keeps obs E \<Longrightarrow> obs (snd (x_now E w)) = obs w"
  and keeps_getter: "keeps obs E \<Longrightarrow> obs (snd (x_getter E key w)) = obs w"
  by (simp_all add: keeps_def)

lemma sane_Remove:
  assumes "sane grp M miss ok g"
  shows "sane grp M miss ok (tier_Remove t key g)"
proof -
  note sn = saneD [OF assms]
  note r = tier_Remove_ok [OF sn(1), where t = t and key = key]
  show ?thesis
    using sn(6,7) clear_misses [OF r(4)] by (intro sane_step [OF assms r(1,3) shapes_Remove]) (auto simp: r(2) split: if_splits)
qed

lemma load_getter_sane:
  assumes "sane grp M miss ok g" and "keeps obs E" and "rand_ok E" and "getter_ok src miss E" and "sized M ok"
    and "\<And>v. src key = Some v \<Longrightarrow> v \<in> ok key" and "observed obs Q" and "Q w"
  shows "reads_ok grp M miss ok Q key (load_getter E key (g, w))"
proof -
  obtain g1 w1 where m: "maybeRotateMissBloom E (g, w) = (g1, w1)" by fastforce
  have w1: "obs w1 = obs w"
    using m by (auto simp: maybeRotateMissBloom_def split: if_splits prod.splits) (metis keepsD(1) [OF assms(2)])+
  have "g_missBloom g = None \<Longrightarrow> g_missBloom g1 = None" using m by (simp add: maybeRotateMissBloom_def)
  then have "clear miss g1" using saneD(7) [OF assms(1)] rotate_frame(4) [OF m] by (auto simp: clear_def)
  then have g1: "sane grp M miss ok g1" using rotate_frame(1,3) [OF m] by (intro sane_same [OF assms(1)]) simp_all
  obtain res w2 where get: "x_getter E key w1 = (res, w2)" by fastforce
  have w2: "obs w2 = obs w" using keeps_getter [OF assms(2), of key w1] get w1 by simp
  show ?thesis
  proof (cases "blocked E key g1")
    case True
    then have "miss key" using saneD(7) [OF g1] by (auto simp: blocked_def clear_def)
    with True show ?thesis
      using g1 observedD [OF assms(7) w1 assms(8)] by (simp add: reads_ok_def load_getter_def m blocked_def)
  next
    case False
    show ?thesis
    proof (cases res)
      case (Inl err)
      let ?h = "inc LoadErrors [g_name g1, ''getter''] g1"
      obtain g3 w3 where r: "recordNotFound E key (?h, w2) = (g3, w3)" by fastforce
      have "sane grp M miss ok ?h" using g1 by simp
      moreover have mk: "miss key" using assms(4) get Inl unfolding getter_ok_def by (metis fst_conv)
      then have "clear miss g3" using recordNotFound_frame(5,6) [OF r] saneD(7) [OF g1] by (auto simp: clear_def)
      ultimately have "sane grp M miss ok g3" using sane_same recordNotFound_frame(1,3) [OF r] by blast
      moreover have "obs w3 = obs w2" using recordNotFound_frame(8) [OF r] keeps_now [OF assms(2)] by simp
      then have "Q w3" "Q w2" using observedD [OF assms(7) _ assms(8)] w2 by simp_all
      ultimately show ?thesis
        using g1 mk r Inl get load_getter_error [OF m False, of err w2] by (simp add: reads_ok_def Let_def)
    next
      case (Inr bs)
      let ?h = "inc Loads [g_name g1, ''getter''] g1"
      have "src key = Some bs" using assms(4) get Inr unfolding getter_ok_def by (metis fst_conv)
      then have ok: "bs \<in> ok key" by (rule assms(6))
      then have sz: "len key + len bs \<le> M" using assms(5) unfolding sized_def by blast
      have "sane grp M miss ok ?h" using g1 by simp
      from putTier_sane [where t = Main and w = w2, OF this assms(2,3) ok sz] obtain g2 w3 where
        p: "putTier E Main key (NewByteView bs) (?h, w2) = Done (g2, w3)" "sane grp M miss ok g2" "obs w3 = obs w2" by auto
      obtain w4 where w4: "persistPutView E key (NewByteView bs) (g2, w3) = (g2, w4)"
        using persistPut_group [of E key "NewByteView bs" g2 w3] by (metis prod.collapse)
      have "obs w4 = obs w" using persist_keeps(1) [OF assms(2), of key "NewByteView bs" g2 w3] w4 p(3) w2 by simp
      then have "Q w4" using observedD [OF assms(7) _ assms(8)] by simp
      moreover have "load_getter E key (g, w) = Done (Inr (NewByteView bs), tier_Remove Hot key g2, w4)"
        using False by (simp add: load_getter_def m blocked_def getLocally_def get Inr p(1) w4)
      ultimately show ?thesis
        using sane_Remove [OF p(2)] ok by (simp add: reads_ok_def NewByteView_def cloneBytes_def go_copy_def)
    qed
  qed
qed

lemma peekNegative_sane:
  assumes "sane grp M miss ok g" and "keeps obs E" and "peekNegative E key (g, w) = (hit, g', w')"
  shows "sane grp M miss ok g' \<and> obs w' = obs w \<and> (hit \<longrightarrow> miss key)"
proof -
  have r: "g' = g \<or> g' = g\<lparr>g_negUntil := (g_negUntil g)(key := None)\<rparr>" "w' = w \<or> w' = snd (x_now E w)"
    "hit \<longrightarrow> g_negUntil g key \<noteq> None"
    using assms(3) by (auto simp: peekNegative_def split: if_splits option.splits prod.splits)
  have "sane grp M miss ok (g\<lparr>g_negUntil := (g_negUntil g)(key := None)\<rparr>)"
    using saneD(7) [OF assms(1)] by (intro sane_same [OF assms(1)]) (simp_all add: forget_miss_frame clear_def)
  moreover have "hit \<longrightarrow> miss key" using r(3) saneD(7) [OF assms(1)] by (auto simp: clear_def)
  ultimately show ?thesis using r(1,2) assms(1) keeps_now [OF assms(2)] by auto
qed

lemma Group_Get_sane:
  assumes "sane grp M miss ok g" and "keeps obs E" and "observed obs Q" and "Q w"
    and "\<And>g w. sane grp M miss ok g \<Longrightarrow> Q w \<Longrightarrow> reads_ok grp M miss ok Q key (load E key (g, w))"
    and "key \<noteq> []"
  shows "reads_ok grp M miss ok Q key (Group_Get E key (g, w))"
proof -
  from peekTier_sane [OF assms(1,2), of Main key w] obtain r1 g1 w1 where
    p1: "peekTier E Main key (g, w) = Done (r1, g1, w1)" "sane grp M miss ok g1" "\<forall>v. r1 = Some v \<longrightarrow> bv_b v \<in> ok key" "obs w1 = obs w"
    by blast
  from peekTier_sane [OF p1(2) assms(2), of Hot key w1] obtain r2 g2 w2 where
    p2: "peekTier E Hot key (g1, w1) = Done (r2, g2, w2)" "sane grp M miss ok g2" "\<forall>v. r2 = Some v \<longrightarrow> bv_b v \<in> ok key" "obs w2 = obs w1"
    by blast
  have q: "Q w1" "Q w2" using observedD [OF assms(3) _ assms(4)] p1(4) p2(4) by simp_all
  have rest: "reads_ok grp M miss ok Q key (case peekNegative E key (h, u) of
      (True, g3, w3) \<Rightarrow> Done (Inl ErrNotFound, inc NegativeCacheHits [g_name g3] g3, w3)
    | (False, g3, w3) \<Rightarrow> load E key (g3, w3))" if hu: "sane grp M miss ok h" "Q u" for h u
  proof -
    obtain hit g3 w3 where n: "peekNegative E key (h, u) = (hit, g3, w3)" by (metis surj_pair)
    have g3: "sane grp M miss ok g3" "obs w3 = obs u" "hit \<Longrightarrow> miss key" using peekNegative_sane [OF hu(1) assms(2) n] by simp_all
    then have q3: "Q w3" using observedD [OF assms(3) _ hu(2)] by simp
    show ?thesis using assms(5) [OF g3(1) q3] g3(1,3) q3 by (cases hit) (simp_all add: n reads_ok_def)
  qed
  show ?thesis
  proof (cases r1)
    case (Some v)
    with assms(6) p1 q(1) show ?thesis by (simp add: Group_Get_def reads_ok_def)
  next
    case None
    show ?thesis
    proof (cases "g_hotCache g1")
      case None': None
      then show ?thesis using rest [OF p1(2) q(1)] assms(6) p1(1) None by (simp add: Group_Get_def)
    next
      case (Some c)
      then show ?thesis using rest [OF p2(2) q(2)] assms(6) p1(1) p2 q(2) None
        by (cases r2) (simp_all add: Group_Get_def reads_ok_def)
    qed
  qed
qed

section \<open>Reading from the cluster\<close>

definition all_sane :: "string set \<Rightarrow> string \<Rightarrow> int \<Rightarrow> (string \<Rightarrow> bool) \<Rightarrow> (string \<Rightarrow> bytes set) \<Rightarrow> ('b, 'e) shared \<Rightarrow> bool" where
  "all_sane S grp M miss ok W \<longleftrightarrow> (\<forall>a\<in>S. sane grp M miss ok (s_group W a))"

lemma all_sane_observed: "observed s_group (all_sane S grp M miss ok)"
  by (simp add: observed_def all_sane_def)

text \<open>A read is answered with a value the key may have or, if it may fail, with an error.\<close>

fun get_reply :: "bool \<Rightarrow> bytes set \<Rightarrow> status + rpc_reply \<Rightarrow> bool" where
  "get_reply mayfail V (Inr (Response v)) = (v \<in> V)"
| "get_reply mayfail V (Inr Empty) = False"
| "get_reply mayfail V (Inl st) = mayfail"

lemma serve_Get_sane:
  assumes "deployed D S peers q tok" and "b \<in> S"
    and "reads_ok (d_grp D) M miss ok (all_sane S (d_grp D) M miss ok) key (Group_Get (node_ext D N b) key (s_group W b, W))"
  shows "\<exists>r W'. serve D N b (Some (peerAppendOutgoingContext [] tok)) (RGet (Some (d_grp D, key))) W = Done (r, W') \<and>
    all_sane S (d_grp D) M miss ok W' \<and> get_reply (miss key) (ok key) r"
proof -
  from assms(3) obtain res g' W1 where
    g: "Group_Get (node_ext D N b) key (s_group W b, W) = Done (res, g', W1)" "sane (d_grp D) M miss ok g'"
      "all_sane S (d_grp D) M miss ok W1" "\<forall>v. res = Inr v \<longrightarrow> bv_b v \<in> ok key"
      "\<forall>err. res = Inl err \<longrightarrow> miss key" by (auto simp: reads_ok_def)
  have "all_sane S (d_grp D) M miss ok (W1\<lparr>s_group := (s_group W1)(b := g')\<rparr>)" using g(2,3) by (simp add: all_sane_def)
  then show ?thesis
    unfolding serve_admitted [OF assms(1,2)] using g(1,4,5)
    by (cases res) (simp_all add: GRPCServer_Get_def GetGroup_def)
qed

text \<open>What the members share of the getters: \<open>src\<close> is what they have, of at most \<open>M\<close> bytes with the key.\<close>

definition sourced ::
  "('b, 'e) deployment \<Rightarrow> string set \<Rightarrow> (string \<Rightarrow> bytes option) \<Rightarrow> int \<Rightarrow> (string \<Rightarrow> bool) \<Rightarrow>
   (string \<Rightarrow> bytes set) \<Rightarrow> bool" where
  "sourced D S src M miss ok \<longleftrightarrow> (\<forall>a\<in>S. getter_ok src miss (d_ext D a)) \<and> sized M ok \<and> (\<forall>key v. src key = Some v \<longrightarrow> v \<in> ok key)"

lemma local_load_sane:
  assumes "deployed D S peers q tok" and "sourced D S src M miss ok" and "b \<in> S"
    and "sane (d_grp D) M miss ok g" and "all_sane S (d_grp D) M miss ok W"
  shows "reads_ok (d_grp D) M miss ok (all_sane S (d_grp D) M miss ok) key (load_getter (node_ext D N b) key (g, W))"
proof -
  have "getter_ok src miss (node_ext D N b)" "sized M ok" "\<And>v. src key = Some v \<Longrightarrow> v \<in> ok key"
    using assms(2,3) by (simp_all add: sourced_def getter_ok_def node_ext_def)
  then show ?thesis
    using load_getter_sane [OF assms(4) deployedD(2,3) [OF assms(1,3)] _ _ _ all_sane_observed assms(5)] by blast
qed

lemma owner_Get_sane:
  assumes "deployed D S peers q tok" and "owner_of S (d_pool D) key m" and "key \<noteq> []" and "sourced D S src M miss ok"
    and "all_sane S (d_grp D) M miss ok W"
  shows "reads_ok (d_grp D) M miss ok (all_sane S (d_grp D) M miss ok) key (Group_Get (node_ext D N m) key (s_group W m, W))"
proof (rule Group_Get_sane [OF _ deployedD(2) [OF assms(1)] all_sane_observed assms(5) _ assms(3)])
  show mS: "m \<in> S" using assms(2) by (simp add: owner_of_def)
  then show "sane (d_grp D) M miss ok (s_group W m)" using assms(5) by (simp add: all_sane_def)
  show "reads_ok (d_grp D) M miss ok (all_sane S (d_grp D) M miss ok) key (load (node_ext D N m) key (g, w))"
    if "sane (d_grp D) M miss ok g" "all_sane S (d_grp D) M miss ok w" for g w
    using pool.owner_serves(2) [OF deployedD(8,10) [OF assms(1) mS] _ assms(3)]
      forwards_live(1) [OF assms(1,2) mS, of N w] local_load_sane [OF assms(1,4) mS that] by simp
qed

text \<open>Asking the owner over the network.\<close>

lemma pool_Get_sane:
  assumes "deployed D S peers q tok" and "owner_of S (d_pool D) key m" and "key \<noteq> []" and "sourced D S src M miss ok"
    and "all_sane S (d_grp D) M miss ok W" and "b \<in> S"
  shows "\<exists>r W'. pp_Get (pool_picker (wire D (Suc n)) (d_etcd D) (d_order D b) (d_pool D b)) m (d_grp D) key W =
      Done (r, W') \<and> all_sane S (d_grp D) M miss ok W' \<and> (\<forall>v. r = Inr v \<longrightarrow> v \<in> ok key)"
proof -
  have mS: "m \<in> S" using assms(2) by (simp add: owner_of_def)
  obtain c where c: "p_grpcClients (d_pool D b) m = Some c" "c_target c = grpcTarget m" "c_peerToken c = tok"
    using deployed_client [OF assms(1,6) mS] by blast
  from serve_Get_sane [OF assms(1) mS owner_Get_sane [OF assms(1-5)], of "wire D n"] obtain r W' where
    s: "serve D (wire D n) m (Some (peerAppendOutgoingContext [] tok)) (RGet (Some (d_grp D, key))) W = Done (r, W')"
      "all_sane S (d_grp D) M miss ok W'" "get_reply (miss key) (ok key) r" by blast
  have "\<exists>x. n_stubGet (wire D (Suc n)) (grpcTarget m) (peerAppendOutgoingContext [] tok) (d_grp D) key W = (x, W') \<and>
      (\<forall>v. x = Inr v \<longrightarrow> v \<in> ok key)"
    using s(1,3) by (cases "(miss key, ok key, r)" rule: get_reply.cases)
      (simp_all add: wire.simps(2) served_net_def call_target_def reply_value_def deployed_find [OF assms(1) mS])
  with s(2) c deployedD(4) [OF assms(1,6)] show ?thesis
    by (auto simp: pool_picker_def peer_client_def GRPCClient_Get_def)
qed

lemma peer_load_sane:
  assumes "deployed D S peers q tok" and "owner_of S (d_pool D) key m" and "key \<noteq> []" and "sourced D S src M miss ok"
    and "b \<in> S" and "b \<noteq> m" and "sane (d_grp D) M miss ok g" and "all_sane S (d_grp D) M miss ok W"
  shows "reads_ok (d_grp D) M miss ok (all_sane S (d_grp D) M miss ok) key (load (node_ext D (wire D (Suc n)) b) key (g, W))"
proof -
  let ?E = "node_ext D (wire D (Suc n)) b" and ?Q = "all_sane S (d_grp D) M miss ok"
  let ?pp = "pool_picker (wire D (Suc n)) (d_etcd D) (d_order D b) (d_pool D b)"
  note k = deployedD(2) [OF assms(1,5), of "wire D (Suc n)"]
  have q: "?Q (snd (x_now ?E w)) = ?Q w" for w using keeps_now [OF k, of w] by (simp add: all_sane_def)
  have nm: "g_name g = d_grp D" by (rule saneD(2) [OF assms(7)])
  have pick: "pp_PickPeer ?pp key W = m" "m \<noteq> []"
    using deployed_pick [OF assms(1,2,5), of "wire D (Suc n)" "d_etcd D" "d_order D b" W]
      forwards_live(1) [OF assms(1,2,5), of "wire D (Suc n)" W] assms(6) by simp_all
  from pool_Get_sane [OF assms(1-4) _ assms(5), of "snd (x_now ?E W)" n] q assms(8) obtain r W1 where
    p: "pp_Get ?pp m (d_grp D) key (snd (x_now ?E W)) = Done (r, W1)" "?Q W1" "\<forall>v. r = Inr v \<longrightarrow> v \<in> ok key" by auto
  define g1 where "g1 = inc PeerRequestDuration [g_name g, pp_Proto ?pp m] g"
  show ?thesis
  proof (cases r)
    case (Inl err)
    let ?h = "inc LoadErrors [g_name g, ''peer''] g1"
    have "load ?E key (g, W) = load_getter ?E key (?h, snd (x_now ?E W1))"
      using p(1) nm pick Inl
      by (simp add: load_def load_fn_def deployedD(10) [OF assms(1,5)] getFromPeer_def g1_def Let_def case_prod_unfold)
    moreover have "sane (d_grp D) M miss ok ?h" using assms(7) by (simp add: g1_def)
    ultimately show ?thesis using local_load_sane [OF assms(1,4,5)] q p(2) by simp
  next
    case (Inr val)
    let ?h = "inc Loads [g_name g, ''peer''] g1" and ?t = "if g_hotCache g \<noteq> None then Hot else Main"
    have v: "val \<in> ok key" using p(3) Inr by blast
    moreover have "len key + len val \<le> M" using assms(4) v by (auto simp: sourced_def sized_def)
    moreover have "sane (d_grp D) M miss ok ?h" using assms(7) by (simp add: g1_def)
    ultimately obtain g' W' where
      put: "putTier ?E ?t key (NewByteView val) (?h, snd (x_now ?E W1)) = Done (g', W')" "sane (d_grp D) M miss ok g'"
        "s_group W' = s_group (snd (x_now ?E W1))"
      using putTier_sane [OF _ k deployedD(3) [OF assms(1,5)]] by metis
    have "load ?E key (g, W) = Done (Inr (NewByteView val), g', W')"
      using p(1) nm pick Inr put(1)
      by (simp add: load_def load_fn_def deployedD(10) [OF assms(1,5)] getFromPeer_def g1_def Let_def case_prod_unfold)
    moreover have "?Q W'" using observedD [OF all_sane_observed put(3)] q p(2) by blast
    ultimately show ?thesis using put(2) v by (simp add: reads_ok_def)
  qed
qed

lemma cluster_Get_sane:
  assumes "deployed D S peers q tok" and "key \<noteq> []" and "sourced D S src M miss ok"
    and "all_sane S (d_grp D) M miss ok W" and "b \<in> S"
  shows "\<exists>r W'. serve D (wire D (Suc n)) b (Some (peerAppendOutgoingContext [] tok)) (RGet (Some (d_grp D, key))) W =
      Done (r, W') \<and> all_sane S (d_grp D) M miss ok W' \<and> get_reply (miss key) (ok key) r"
proof -
  obtain m where m: "owner_of S (d_pool D) key m" using cluster_owner [OF deployedD(1) [OF assms(1,5)]] by blast
  have g: "sane (d_grp D) M miss ok (s_group W b)" using assms(4,5) by (simp add: all_sane_def)
  show ?thesis
  proof (cases "b = m")
    case True
    show ?thesis
      by (rule serve_Get_sane [OF assms(1,5)]) (simp add: True owner_Get_sane [OF assms(1) m assms(2-4)])
  next
    case False
    from Group_Get_sane [OF g deployedD(2) [OF assms(1,5)] all_sane_observed assms(4)
        peer_load_sane [OF assms(1) m assms(2,3,5) False] assms(2)]
    show ?thesis by (rule serve_Get_sane [OF assms(1,5)])
  qed
qed

section \<open>Writing to the cluster\<close>

lemma sane_forgot:
  assumes "sane grp M miss ok g" and "forgot key g g'" and "\<And>k. k \<noteq> key \<Longrightarrow> ok k \<subseteq> ok' k"
  shows "sane grp M miss ok' g'"
proof (rule sane_step [OF assms(1)])
  show "group_inv g'" "config g' = config g" "shapes g' = shapes g" using assms(2) by (simp_all add: forgot_def)
  show "clear miss g'" using assms(2) saneD(7) [OF assms(1)] by (auto simp: forgot_def clear_def)
  show "bv_b (value_view x) \<in> ok' k" if "held t g' k = Some x" for t k x
    using that assms(2,3) saneD(6) [OF assms(1), of t k x] by (auto simp: forgot_def split: if_splits)
qed

lemma owner_Set_sane:
  assumes "deployed D S peers q tok" and "owner_of S (d_pool D) key m" and "key \<noteq> []"
    and "all_sane S (d_grp D) M miss ok W" and "len key + len val \<le> M"
    and "\<And>k. k \<noteq> key \<Longrightarrow> ok k \<subseteq> ok' k" and "val \<in> ok' key"
  shows "\<exists>W'. serve D (wire D (Suc n)) m (Some (peerAppendOutgoingContext [] tok)) (RSet (Some (d_grp D, key, val))) W =
      Done (Inr Empty, W') \<and> all_sane S (d_grp D) M miss ok' W'"
proof -
  let ?E = "node_ext D (wire D (Suc n)) m" and ?g = "s_group W m"
  have mS: "m \<in> S" using assms(2) by (simp add: owner_of_def)
  have sa: "sane (d_grp D) M miss ok (s_group W b)" if "b \<in> S" for b using assms(4) that by (simp add: all_sane_def)
  note sn = saneD [OF sa [OF mS]]
  have inv: "\<forall>b\<in>S. group_inv (s_group W b)" using saneD(1) [OF sa] by blast
  from store_live [OF assms(1) mS assms(3) inv sn(2-4) roomy_fits [OF sn(5) assms(5)], of n] obtain g1 w1 g2 w2 g' W' x where
    st: "setLocalAndBroadcast ?E key val (?g, W) = Done (None, g', W')" "group_inv g'" "config g' = config ?g"
      "lifetime ?g (fst (x_now ?E w1)) (NewByteView val) x" "held Main g' \<subseteq>\<^sub>m (held Main ?g)(key \<mapsto> x)"
      "held Hot g' = (held Hot ?g)(key := None)" "g_negUntil g' = (g_negUntil ?g)(key := None)"
      "g_missBloom ?g = None \<longrightarrow> g_missBloom g' = None" "\<forall>b\<in>S - {m}. forgot key (s_group W b) (s_group W' b)"
    and put: "\<forall>t. tier_cache t g1 = tier_cache t ?g" "putTier ?E Main key (NewByteView val) (g1, w1) = Done (g2, w2)"
      "g' = tier_Remove Hot key g2" by (elim exE conjE) (rule that; assumption)
  have s1: "shapes g1 = shapes ?g" by (rule shapes_cong) (simp add: put(1))
  then have r1: "roomy M g1" using sn(5) unfolding roomy_def by metis
  have "shapes g' = shapes ?g"
    using putTier_shapes [OF _ r1 roomy_fits [OF r1 assms(5)] put(2)] group_invD(1) [OF sn(1)] put(1,3) s1
    by (metis shapes_Remove)
  moreover have "bv_b (value_view y) \<in> ok' k" if "held t g' k = Some y" for t k y
  proof (cases t)
    case Main
    with that st(5) have "((held Main ?g)(key \<mapsto> x)) k = Some y" unfolding map_le_def by (metis domI)
    then show ?thesis
      using lifetime_view [OF st(4)] sn(6) [of Main k y] assms(6,7) by (auto simp: NewByteView_def cloneBytes_def go_copy_def split: if_splits)
  next
    case Hot
    with that st(6) sn(6) [of Hot k y] assms(6) show ?thesis by (auto split: if_splits)
  qed
  moreover have "clear miss g'" using st(7,8) sn(7) by (auto simp: clear_def)
  ultimately have "sane (d_grp D) M miss ok' g'" using sane_step [OF sa [OF mS] st(2,3)] by blast
  moreover have "sane (d_grp D) M miss ok' (s_group W' b)" if "b \<in> S" "b \<noteq> m" for b
    using sane_forgot [OF sa [OF that(1)] _ assms(6)] st(9) that by blast
  ultimately have "all_sane S (d_grp D) M miss ok' (W'\<lparr>s_group := (s_group W')(m := g')\<rparr>)" by (simp add: all_sane_def)
  with serve_Set_store [OF assms(1-3) st(1)] show ?thesis by blast
qed

lemma cluster_Set_sane:
  assumes "deployed D S peers q tok" and "key \<noteq> []" and "all_sane S (d_grp D) M miss ok W" and "a \<in> S"
    and "len key + len val \<le> M" and "\<And>k. k \<noteq> key \<Longrightarrow> ok k \<subseteq> ok' k" and "val \<in> ok' key"
  shows "\<exists>W'. serve D (wire D (Suc (Suc n))) a (Some (peerAppendOutgoingContext [] tok)) (RSet (Some (d_grp D, key, val))) W =
      Done (Inr Empty, W') \<and> all_sane S (d_grp D) M miss ok' W'"
proof -
  obtain m where m: "owner_of S (d_pool D) key m" using cluster_owner [OF deployedD(1) [OF assms(1,4)]] by blast
  note own = owner_Set_sane [OF assms(1) m assms(2,3,5,6,7)]
  have nm: "g_name (s_group W a) = d_grp D" using assms(3,4) saneD(2) by (fastforce simp: all_sane_def)
  show ?thesis
  proof (cases "a = m")
    case True
    then show ?thesis using own by blast
  next
    case False
    from serve_Set_forward [OF assms(1) m assms(2,4) False nm] own [of n] show ?thesis by blast
  qed
qed

lemma cluster_Purge_sane:
  assumes "deployed D S peers q tok" and "key \<noteq> []" and "all_sane S (d_grp D) M miss ok W" and "a \<in> S"
    and "\<And>k. k \<noteq> key \<Longrightarrow> ok k \<subseteq> ok' k"
  shows "\<exists>W'. serve D (wire D (Suc (Suc n))) a (Some (peerAppendOutgoingContext [] tok)) (RPurge (Some (d_grp D, key))) W =
      Done (Inr Empty, W') \<and> all_sane S (d_grp D) M miss ok' W'"
proof -
  obtain m where m: "owner_of S (d_pool D) key m" using cluster_owner [OF deployedD(1) [OF assms(1,4)]] by blast
  have sa: "sane (d_grp D) M miss ok (s_group W b)" if "b \<in> S" for b using assms(3) that by (simp add: all_sane_def)
  then have "\<forall>b\<in>S. group_inv (s_group W b) \<and> g_name (s_group W b) = d_grp D" using saneD(1,2) by blast
  from serve_Purge [OF assms(1) m assms(2) this assms(4), of n] sane_forgot [OF sa _ assms(5)] show ?thesis
    unfolding all_sane_def by blast
qed

section \<open>The abstract store and its histories\<close>

datatype cluster_op = CSet string bytes | CGet string | CPurge string

fun op_key :: "cluster_op \<Rightarrow> string" where
  "op_key (CSet key val) = key"
| "op_key (CGet key) = key"
| "op_key (CPurge key) = key"

fun op_call :: "string \<Rightarrow> cluster_op \<Rightarrow> rpc" where
  "op_call grp (CSet key val) = RSet (Some (grp, key, val))"
| "op_call grp (CGet key) = RGet (Some (grp, key))"
| "op_call grp (CPurge key) = RPurge (Some (grp, key))"

fun cluster_run ::
  "('b, 'e) deployment \<Rightarrow> ('b, 'e) shared net \<Rightarrow> MD option \<Rightarrow> (string \<times> cluster_op) list \<Rightarrow> ('b, 'e) shared \<Rightarrow>
   ((status + rpc_reply) list \<times> ('b, 'e) shared) outcome" where
  "cluster_run D N md [] W = Done ([], W)"
| "cluster_run D N md ((a, op) # ops) W =
     obind (serve D N a md (op_call (d_grp D) op) W)
       (\<lambda>(r, W1). obind (cluster_run D N md ops W1) (\<lambda>(rs, W2). Done (r # rs, W2)))"

text \<open>
  The abstract store is a map. A read may also see what the getter has, since entries may be lost; \<open>src\<close>
  is what the getter has, \<open>miss\<close> are the keys on which it may fail.
\<close>

fun spec_step :: "cluster_op \<Rightarrow> (string \<rightharpoonup> bytes) \<Rightarrow> (string \<rightharpoonup> bytes)" where
  "spec_step (CSet key val) m = m(key \<mapsto> val)"
| "spec_step (CGet key) m = m"
| "spec_step (CPurge key) m = m(key := None)"

definition allowed :: "(string \<rightharpoonup> bytes) \<Rightarrow> (string \<rightharpoonup> bytes) \<Rightarrow> string \<Rightarrow> bytes set" where
  "allowed src m key = set_option (m key) \<union> set_option (src key)"

fun spec_reply :: "(string \<Rightarrow> bool) \<Rightarrow> (string \<rightharpoonup> bytes) \<Rightarrow> (string \<rightharpoonup> bytes) \<Rightarrow> cluster_op \<Rightarrow> status + rpc_reply \<Rightarrow> bool" where
  "spec_reply miss src m (CGet key) r = get_reply (miss key) (allowed src m key) r"
| "spec_reply miss src m (CSet key val) r = (r = Inr Empty)"
| "spec_reply miss src m (CPurge key) r = (r = Inr Empty)"

fun spec_run :: "(string \<Rightarrow> bool) \<Rightarrow> (string \<rightharpoonup> bytes) \<Rightarrow> (string \<rightharpoonup> bytes) \<Rightarrow> cluster_op list \<Rightarrow> (status + rpc_reply) list \<Rightarrow> bool" where
  "spec_run miss src m [] [] = True"
| "spec_run miss src m (op # ops) (r # rs) = (spec_reply miss src m op r \<and> spec_run miss src (spec_step op m) ops rs)"
| "spec_run miss src m _ _ = False"

fun op_ok :: "string set \<Rightarrow> int \<Rightarrow> string \<times> cluster_op \<Rightarrow> bool" where
  "op_ok S M (a, CSet key val) = (a \<in> S \<and> key \<noteq> [] \<and> len key + len val \<le> M)"
| "op_ok S M (a, op) = (a \<in> S \<and> op_key op \<noteq> [])"

text \<open>Every operation is a step of the abstract store.\<close>

lemma cluster_step:
  assumes "deployed D S peers q tok" and "\<forall>a\<in>S. getter_ok src miss (d_ext D a)" and "op_ok S M (a, op)"
    and "sized M (allowed src m)" and "all_sane S (d_grp D) M miss (allowed src m) W"
  shows "\<exists>r W'. serve D (wire D (Suc (Suc n))) a (Some (peerAppendOutgoingContext [] tok)) (op_call (d_grp D) op) W = Done (r, W') \<and>
    spec_reply miss src m op r \<and> all_sane S (d_grp D) M miss (allowed src (spec_step op m)) W' \<and> sized M (allowed src (spec_step op m))"
proof (cases op)
  case (CSet key val)
  with assms(3,4) cluster_Set_sane [OF assms(1) _ assms(5), of key a val "allowed src (m(key \<mapsto> val))" n] show ?thesis
    by (auto simp: allowed_def sized_def)
next
  case (CGet key)
  have "sourced D S src M miss (allowed src m)" using assms(2,4) by (auto simp: sourced_def allowed_def)
  with assms(3,4) CGet cluster_Get_sane [OF assms(1) _ _ assms(5), of key src a "Suc n"] show ?thesis by auto
next
  case (CPurge key)
  with assms(3,4) cluster_Purge_sane [OF assms(1) _ assms(5), of key a "allowed src (m(key := None))" n] show ?thesis
    by (auto simp: allowed_def sized_def)
qed

lemma cluster_run_refines:
  assumes "deployed D S peers q tok" and "\<forall>a\<in>S. getter_ok src miss (d_ext D a)" and "\<forall>x\<in>set ops. op_ok S M x"
    and "sized M (allowed src m)" and "all_sane S (d_grp D) M miss (allowed src m) W"
  shows "\<exists>rs W'. cluster_run D (wire D (Suc (Suc n))) (Some (peerAppendOutgoingContext [] tok)) ops W = Done (rs, W') \<and>
    spec_run miss src m (map snd ops) rs \<and> all_sane S (d_grp D) M miss (allowed src (fold spec_step (map snd ops) m)) W'"
  using assms(3-)
proof (induction ops arbitrary: m W)
  case (Cons x ops)
  obtain a op where x: "x = (a, op)" by fastforce
  have ok: "op_ok S M (a, op)" "\<forall>x\<in>set ops. op_ok S M x" using Cons.prems(1) x by simp_all
  from cluster_step [OF assms(1,2) ok(1) Cons.prems(2,3), of n] obtain r W1 where
    s: "serve D (wire D (Suc (Suc n))) a (Some (peerAppendOutgoingContext [] tok)) (op_call (d_grp D) op) W = Done (r, W1)"
      "spec_reply miss src m op r" "all_sane S (d_grp D) M miss (allowed src (spec_step op m)) W1" "sized M (allowed src (spec_step op m))"
    by blast
  from Cons.IH [OF ok(2) s(4,3)] s(1,2) x show ?case by auto
qed simp

section \<open>Properties\<close>

text \<open>
  C1: Histories of a running cluster refine an abstract store, a map from keys to values. For every
  sequence of sets, gets and purges of any keys, each at any member, every call returns; sets
  and purges succeed; a get is answered with the value that was set last and not purged since or with what
  the getter has for the key, never with a value that was overwritten or purged; and it is answered with
  an error only for keys on which the getter itself may fail.
  Expiry, eviction, negative caching and the copies that the members keep for each other are all included, and
  the same holds again in the state that is left. The members use the policy LRU, and each entry fits alone.
\<close>

theorem cluster_history:
  assumes "deployed D S peers q tok" and "\<forall>a\<in>S. getter_ok src miss (d_ext D a)" and "\<forall>x\<in>set ops. op_ok S M x"
    and "sized M (allowed src m)" and "all_sane S (d_grp D) M miss (allowed src m) W"
  shows "\<exists>rs W'. cluster_run D (wire D (n + 2)) (Some (peerAppendOutgoingContext [] tok)) ops W = Done (rs, W') \<and>
    spec_run miss src m (map snd ops) rs \<and> all_sane S (d_grp D) M miss (allowed src (fold spec_step (map snd ops) m)) W'"
  using cluster_run_refines [OF assms, of n] by simp

lemma live_group_sane: "sane ''scores'' 512 miss ok live_group"
proof -
  have b: "(0::int) \<le> 2048" by simp
  from NewGroup_cold [OF b, of None False ex_ext "''scores''" 512 "''lru''" 0 0 50 0 0 "\<lambda>_. None" "([], 0)"]
  have "(\<forall>t key. held t live_group key = None) \<and> clear miss live_group" by (auto simp: live_group_def clear_def)
  moreover have "shapes live_group Main = Some (True, 2048)" "shapes live_group Hot = Some (True, 512)" by code_simp+
  then have "shapes live_group t = Some (lru, n) \<Longrightarrow> lru \<and> 512 \<le> n" for t lru n by (cases t) auto
  then have "roomy 512 live_group" unfolding roomy_def by blast
  ultimately show ?thesis using live_group_ok(1) by (simp add: sane_def sound_group_def)
qed

text \<open>The getter of the members knows one key.\<close>

definition live_src :: "string \<rightharpoonup> bytes" where
  "live_src = [''Sam'' \<mapsto> ''567'']"

lemma live_getter: "getter_ok live_src (\<lambda>key. key \<noteq> ''Sam'') (d_ext live_deployment a)"
  by (simp add: getter_ok_def live_src_def live_deployment_def live_ext_def)

definition live_history :: "(string \<times> cluster_op) list" where
  "live_history =
     [(url_b, CGet ''Sam''), (url_a, CSet ''Tom'' ''630''), (url_b, CGet ''Tom''), (url_a, CSet ''Tom'' ''700''),
      (url_b, CGet ''Tom''), (url_b, CPurge ''Tom''), (url_a, CGet ''Tom'')]"

theorem cluster_history_witness:
  "\<exists>rs W'. cluster_run live_deployment (wire live_deployment 2) (Some (peerAppendOutgoingContext [] ''secret'')) live_history
      \<lparr>s_group = \<lambda>_. live_group, s_rest = 0\<rparr> = Done (rs, W') \<and>
    spec_run (\<lambda>key. key \<noteq> ''Sam'') live_src Map.empty (map snd live_history) rs \<and> hd rs = Inr (Response ''567'')"
proof -
  let ?W = "\<lparr>s_group = \<lambda>_. live_group, s_rest = 0 :: int\<rparr>" and ?miss = "\<lambda>key. key \<noteq> ''Sam''"
  have g: "\<forall>a\<in>{url_a, url_b}. getter_ok live_src ?miss (d_ext live_deployment a)" using live_getter by blast
  have o: "\<forall>x\<in>set live_history. op_ok {url_a, url_b} 512 x" by (simp add: live_history_def)
  have z: "sized 512 (allowed live_src Map.empty)" by (simp add: sized_def allowed_def live_src_def)
  have s: "all_sane {url_a, url_b} (d_grp live_deployment) 512 ?miss (allowed live_src Map.empty) ?W"
    using live_group_sane by (simp add: all_sane_def live_deployment_def)
  from cluster_history [OF live_deployed g o z s, of 0, unfolded add_0] obtain rs W' where
    h: "cluster_run live_deployment (wire live_deployment 2) (Some (peerAppendOutgoingContext [] ''secret'')) live_history ?W =
      Done (rs, W')" "spec_run ?miss live_src Map.empty (map snd live_history) rs" by blast
  from h(2) obtain r rest where "rs = r # rest" "get_reply False {''567''} r"
    by (cases rs) (auto simp: live_history_def allowed_def live_src_def)
  then have "hd rs = Inr (Response ''567'')" by (cases "(False, {''567''}, r)" rule: get_reply.cases) simp_all
  with h show ?thesis by blast
qed

end
