(* ===== verification/Races.thy ===== *)
theory Races
  imports History
begin

text \<open>
  A read that is on its way while its key is written. The loader of a group holds no lock between
  fetching a value from the owner and storing it in a tier, so the invalidation that a write sends may
  arrive in between. The loader is split at this point into two steps that are together the loader of
  \<open>Group\<close>, and a write of the running cluster is run between them.
\<close>

section \<open>The two steps of the loader\<close>

definition load_fetch ::
  "('w, 'b) ext \<Rightarrow> string \<Rightarrow> 'b Group \<times> 'w \<Rightarrow> (ByteView option \<times> 'b Group \<times> 'w) outcome" where
  "load_fetch E key s =
     (case x_peers E of
        None \<Rightarrow> Done (None, s)
      | Some pp \<Rightarrow>
          (let addr = pp_PickPeer pp key (snd s) in
           if addr = [] then Done (None, s)
           else
             obind (getFromPeer E pp addr key s)
               (\<lambda>(r, s1). Done (case r of Inr v \<Rightarrow> Some v | Inl err \<Rightarrow> None, s1))))"

definition load_keep ::
  "('w, 'b) ext \<Rightarrow> string \<Rightarrow> ByteView option \<Rightarrow> 'b Group \<times> 'w \<Rightarrow> ((error + ByteView) \<times> 'b Group \<times> 'w) outcome" where
  "load_keep E key r s =
     (case r of
        Some v \<Rightarrow>
          obind (putTier E (if g_hotCache (fst s) \<noteq> None then Hot else Main) key v s) (\<lambda>s1. Done (Inr v, s1))
      | None \<Rightarrow> load_getter E key s)"

lemma load_fn_steps: "load_fn E key s = obind (load_fetch E key s) (\<lambda>(r, s1). load_keep E key r s1)"
proof (cases "x_peers E")
  case (Some pp)
  show ?thesis
  proof (cases "getFromPeer E pp (pp_PickPeer pp key (snd s)) key s")
    case (Done x)
    then show ?thesis
      by (cases "fst x") (auto simp: load_fn_def load_fetch_def load_keep_def Some Let_def case_prod_unfold)
  qed (simp_all add: load_fn_def load_fetch_def load_keep_def Some Let_def)
qed (simp add: load_fn_def load_fetch_def load_keep_def)

section \<open>Fetching, writing, storing\<close>

text \<open>A member fetches a key from the owner; its own tiers do not change.\<close>

lemma fetch_live:
  assumes "deployed D S peers q tok" and "owner_of S (d_pool D) key m" and "key \<noteq> []" and "sourced D S src M miss ok"
    and "all_sane S (d_grp D) M miss ok W" and "replica key val (s_group W m)" and "b \<in> S" and "b \<noteq> m"
    and "g_name g = d_grp D"
  shows "\<exists>g' W' gm. load_fetch (node_ext D (wire D (Suc n)) b) key (g, W) = Done (Some (NewByteView val), g', W') \<and>
      s_group W' = (s_group W)(m := gm) \<and> all_sane S (d_grp D) M miss ok W' \<and>
      config g' = config g \<and> misses g' = misses g \<and> (\<forall>t. tier_cache t g' = tier_cache t g)"
proof -
  let ?E = "node_ext D (wire D (Suc n)) b"
  let ?pp = "pool_picker (wire D (Suc n)) (d_etcd D) (d_order D b) (d_pool D b)"
  note k = deployedD(2) [OF assms(1,7), of "wire D (Suc n)"]
  have mS: "m \<in> S" using assms(2) by (simp add: owner_of_def)
  have now: "s_group (snd (x_now ?E w)) = s_group w" for w using keeps_now [OF k] by simp
  then have q: "all_sane S (d_grp D) M miss ok (snd (x_now ?E w)) = all_sane S (d_grp D) M miss ok w" for w by (simp add: all_sane_def)
  have pick: "pp_PickPeer ?pp key W = m" "m \<noteq> []"
    using deployed_pick [OF assms(1,2,7), of "wire D (Suc n)" "d_etcd D" "d_order D b" W]
      forwards_live(1) [OF assms(1,2,7), of "wire D (Suc n)" W] assms(8) by simp_all
  have "replica key val (s_group (snd (x_now ?E W)) m)" using assms(6) now by simp
  from pool_Get_owner [OF assms(1) mS assms(3) this assms(7), of n] now obtain gm W1 where
    p: "pp_Get ?pp m (d_grp D) key (snd (x_now ?E W)) = Done (Inr val, W1)" "s_group W1 = (s_group W)(m := gm)" by auto
  have w1: "all_sane S (d_grp D) M miss ok W1"
    using pool_Get_sane [OF assms(1-4) _ assms(7), of "snd (x_now ?E W)" n] q assms(5) p(1) by auto
  define g' where "g' = inc Loads [g_name g, ''peer''] (inc PeerRequestDuration [g_name g, pp_Proto ?pp m] g)"
  have "load_fetch ?E key (g, W) = Done (Some (NewByteView val), g', snd (x_now ?E W1))"
    using p(1) pick assms(9)
    by (simp add: load_fetch_def deployedD(10) [OF assms(1,7)] getFromPeer_def g'_def Let_def case_prod_unfold)
  moreover have "s_group (snd (x_now ?E W1)) = (s_group W)(m := gm)" using now p(2) by simp
  moreover have "all_sane S (d_grp D) M miss ok (snd (x_now ?E W1))" using q w1 by simp
  ultimately show ?thesis by (intro exI [of _ g'] exI [of _ "snd (x_now ?E W1)"] exI [of _ gm]) (simp add: g'_def)
qed

text \<open>A write reaches the owner, and every other member forgets the key.\<close>

lemma write_live:
  assumes "deployed D S peers q tok" and "owner_of S (d_pool D) key m" and "key \<noteq> []"
    and "all_sane S (d_grp D) M miss ok W" and "len key + len val \<le> M" and "a \<in> S"
  shows "\<exists>W' x. serve D (wire D (Suc (Suc n))) a (Some (peerAppendOutgoingContext [] tok)) (RSet (Some (d_grp D, key, val))) W =
      Done (Inr Empty, W') \<and> held Main (s_group W' m) key = Some x \<and> value_view x = NewByteView val \<and>
      (\<forall>b\<in>S - {m}. forgot key (s_group W b) (s_group W' b))"
proof -
  have mS: "m \<in> S" using assms(2) by (simp add: owner_of_def)
  have sa: "sane (d_grp D) M miss ok (s_group W b)" if "b \<in> S" for b using assms(4) that by (simp add: all_sane_def)
  note sn = saneD [OF sa [OF mS]]
  have inv: "\<forall>b\<in>S. group_inv (s_group W b)" using saneD(1) [OF sa] by blast
  have own: "\<exists>W' x. serve D (wire D (Suc n)) m (Some (peerAppendOutgoingContext [] tok)) (RSet (Some (d_grp D, key, val))) W =
      Done (Inr Empty, W') \<and> held Main (s_group W' m) key = Some x \<and> value_view x = NewByteView val \<and>
      (\<forall>b\<in>S - {m}. forgot key (s_group W b) (s_group W' b))" for n
  proof -
    from store_live [OF assms(1) mS assms(3) inv sn(2-4) roomy_fits [OF sn(5) assms(5)], of n] obtain w1 g' W' x where
      st: "setLocalAndBroadcast (node_ext D (wire D (Suc n)) m) key val (s_group W m, W) = Done (None, g', W')"
        "lifetime (s_group W m) (fst (x_now (node_ext D (wire D (Suc n)) m) w1)) (NewByteView val) x"
        "held Main g' key = Some x" "\<forall>b\<in>S - {m}. forgot key (s_group W b) (s_group W' b)" by blast
    with serve_Set_store [OF assms(1-3) st(1)] lifetime_view [OF st(2)] show ?thesis by auto
  qed
  show ?thesis
  proof (cases "a = m")
    case True
    then show ?thesis using own by blast
  next
    case False
    from serve_Set_forward [OF assms(1-3,6) False saneD(2) [OF sa [OF assms(6)]]] own [of n] show ?thesis by blast
  qed
qed

text \<open>What was fetched is stored, whatever happened to the key meanwhile.\<close>

lemma keep_live:
  assumes "deployed D S peers q tok" and "b \<in> S" and "group_inv g" and "durations_ok g" and "g_mainCache g \<noteq> None"
    and "g_ttl g \<le> 0" and "roomy M g" and "\<And>t. held t g key = None" and "len key + len val \<le> M"
  shows "\<exists>g' W'. load_keep (node_ext D N b) key (Some (NewByteView val)) (g, W) = Done (Inr (NewByteView val), g', W') \<and>
    replica key val g' \<and> s_group W' = s_group W"
proof -
  let ?t = "if g_hotCache g \<noteq> None then Hot else Main" and ?E = "node_ext D N b"
  from putTier_ok [where t = ?t and E = ?E and w = W, OF assms(3) roomy_fits [OF assms(7,9)] assms(4) deployedD(3) [OF assms(1,2)]]
  obtain g' W' where
    p: "putTier ?E ?t key (NewByteView val) (g, W) = Done (g', W')" "put_done ?t key (NewByteView val) (fst (x_now ?E W)) g g'"
    by blast
  have t: "tier_cache ?t g \<noteq> None" using assms(5) by simp
  with p(2) obtain x where x: "lifetime g (fst (x_now ?E W)) (NewByteView val) x" "held ?t g' key = Some x"
    by (auto simp: put_done_def)
  have "x = VView (NewByteView val)" using x(1) assms(6) by (simp add: lifetime_def)
  moreover have "g_hotCache g \<noteq> None \<Longrightarrow> held Main g' key = None"
  proof -
    assume "g_hotCache g \<noteq> None"
    with p(2) have "tier_cache Main g' = tier_cache Main g" by (auto simp: put_done_def)
    then show ?thesis using held_cong assms(8) by metis
  qed
  ultimately have "replica key val g'" using x(2) p(2) by (auto simp: replica_def put_done_def split: if_splits)
  moreover have "s_group W' = s_group W" by (rule putTier_keeps [OF deployedD(2) [OF assms(1,2)] p(1)])
  ultimately show ?thesis using p(1) by (auto simp: load_keep_def)
qed

lemma reads_replica:
  assumes "deployed D S peers q tok" and "b \<in> S" and "key \<noteq> []" and "replica key val (s_group W b)"
  shows "\<exists>W'. reads D N (Some (peerAppendOutgoingContext [] tok)) key (replicate k b) W =
    Done (replicate k (Inr (Response val)), W')"
  using assms(4)
proof (induction k arbitrary: W)
  case (Suc k)
  from serve_Get_replica [OF assms(1-3) Suc.prems, of N] obtain g' W1 where
    "serve D N b (Some (peerAppendOutgoingContext [] tok)) (RGet (Some (d_grp D, key))) W = Done (Inr (Response val), W1)"
    "replica key val (s_group W1 b)" by auto
  with Suc.IH [of W1] show ?case by auto
qed simp

section \<open>A write between the steps\<close>

definition with_group :: "('b, 'e) shared \<Rightarrow> string \<Rightarrow> 'b Group \<Rightarrow> ('b, 'e) shared" where
  "with_group W b g = W\<lparr>s_group := (s_group W)(b := g)\<rparr>"

text \<open>
  The read of \<open>b\<close> is the two steps; after the first, \<open>a\<close> serves a set of a new value, which succeeds: the
  owner \<open>m\<close> has the new value and \<open>b\<close> has none; after the second, \<open>b\<close> answers any number of reads with the old one.
\<close>

definition overtaken ::
  "('b, 'e) deployment \<Rightarrow> nat \<Rightarrow> string \<Rightarrow> string \<Rightarrow> string \<Rightarrow> string \<Rightarrow> string \<Rightarrow> bytes \<Rightarrow> bytes \<Rightarrow> ('b, 'e) shared \<Rightarrow> bool" where
  "overtaken D n tok m b a key old new W \<longleftrightarrow>
     (let E = node_ext D (wire D (n + 1)) b; md = Some (peerAppendOutgoingContext [] tok) in
      \<exists>W0 g W1 W2 x g' W3.
        Group_Get E key (s_group W b, W) = obind (load_fetch E key (s_group W b, W0)) (\<lambda>(r, s). load_keep E key r s) \<and>
        load_fetch E key (s_group W b, W0) = Done (Some (NewByteView old), g, W1) \<and>
        serve D (wire D (n + 2)) a md (RSet (Some (d_grp D, key, new))) (with_group W1 b g) = Done (Inr Empty, W2) \<and>
        held Main (s_group W2 m) key = Some x \<and> value_view x = NewByteView new \<and> (\<forall>t. held t (s_group W2 b) key = None) \<and>
        load_keep E key (Some (NewByteView old)) (s_group W2 b, W2) = Done (Inr (NewByteView old), g', W3) \<and>
        (\<forall>k. \<exists>W4. reads D (wire D (n + 1)) md key (replicate k b) (with_group W3 b g') =
           Done (replicate k (Inr (Response old)), W4)))"

lemma Get_two_steps:
  assumes "group_inv g" and "key \<noteq> []" and "\<And>t. held t g key = None" and "g_negUntil g key = None" and "keeps obs E"
  shows "\<exists>w0. Group_Get E key (g, w) = obind (load_fetch E key (g, w0)) (\<lambda>(r, s). load_keep E key r s) \<and> obs w0 = obs w"
  using keeps_now [OF assms(5), of w]
  by (intro exI [of _ "if g_negTTL g \<le> 0 then w else snd (x_now E w)"])
    (simp add: Group_Get_absent [OF assms(1-3)] peekNegative_absent [OF assms(4)] load_def load_fn_steps)

section \<open>Properties\<close>

text \<open>
  C4: A read that is overtaken by a write leaves the overwritten value behind. In a running cluster a
  member that does not have a key asks the owner for it. If a set of the key, at any member, is served
  after the owner has answered and before the member stores the answer, the set succeeds and has
  invalidated every copy, and yet the member then keeps the old value and, with no expiry, answers every
  further read with it. The guarantee that reads return what was written is one for calls that follow
  each other.
\<close>

theorem read_overtaken_by_write:
  assumes "deployed D S peers q tok" and "owner_of S (d_pool D) key m" and "key \<noteq> []" and "sourced D S src M miss ok"
    and "all_sane S (d_grp D) M miss ok W" and "replica key old (s_group W m)" and "b \<in> S" and "b \<noteq> m" and "a \<in> S"
    and "\<forall>t. held t (s_group W b) key = None" and "g_negUntil (s_group W b) key = None" and "g_ttl (s_group W b) \<le> 0"
    and "len key + len new \<le> M"
  shows "overtaken D n tok m b a key old new W"
proof -
  let ?E = "node_ext D (wire D (Suc n)) b" and ?g = "s_group W b"
  have mS: "m \<in> S" using assms(2) by (simp add: owner_of_def)
  have sa: "sane (d_grp D) M miss ok (s_group W c)" if "c \<in> S" for c using assms(5) that by (simp add: all_sane_def)
  note sn = saneD [OF sa [OF assms(7)]]
  from assms(6) obtain t where "held t (s_group W m) key = Some (VView (NewByteView old))" by (auto simp: replica_def)
  from saneD(6) [OF sa [OF mS] this] have "old \<in> ok key" by (simp add: value_view_def NewByteView_def cloneBytes_def go_copy_def)
  then have old: "len key + len old \<le> M" using assms(4) by (auto simp: sourced_def sized_def)
  obtain W0 where W0: "Group_Get ?E key (?g, W) = obind (load_fetch ?E key (?g, W0)) (\<lambda>(r, s). load_keep ?E key r s)"
    "s_group W0 = s_group W"
    using Get_two_steps [OF sn(1) assms(3) _ assms(11) deployedD(2) [OF assms(1,7)]] assms(10) by blast
  have "all_sane S (d_grp D) M miss ok W0" "replica key old (s_group W0 m)"
    using assms(5,6) W0(2) by (simp_all add: all_sane_def)
  from fetch_live [OF assms(1-4) this assms(7,8) sn(2), of n] obtain g W1 where
    f: "load_fetch ?E key (?g, W0) = Done (Some (NewByteView old), g, W1)" "all_sane S (d_grp D) M miss ok W1"
      "config g = config ?g" "misses g = misses ?g" "\<forall>t. tier_cache t g = tier_cache t ?g" by blast
  have "clear miss g" using clear_misses [OF f(4)] sn(7) by blast
  then have g: "sane (d_grp D) M miss ok g" using sane_same [OF sa [OF assms(7)]] f(3,5) by blast
  have s1: "all_sane S (d_grp D) M miss ok (with_group W1 b g)" using f(2) g by (simp add: all_sane_def with_group_def)
  from write_live [OF assms(1-3) s1 assms(13,9), of n] obtain W2 x where
    w: "serve D (wire D (Suc (Suc n))) a (Some (peerAppendOutgoingContext [] tok)) (RSet (Some (d_grp D, key, new)))
        (with_group W1 b g) = Done (Inr Empty, W2)" "held Main (s_group W2 m) key = Some x" "value_view x = NewByteView new"
      "\<forall>c\<in>S - {m}. forgot key (s_group (with_group W1 b g) c) (s_group W2 c)" by blast
  have fb: "forgot key g (s_group W2 b)" using w(4) [rule_format, of b] assms(7,8) by (simp add: with_group_def)
  then have none: "\<And>t. held t (s_group W2 b) key = None" by (simp add: forgot_def)
  note s2 = saneD [OF sane_forgot [OF g fb subset_refl]]
  have "config (s_group W2 b) = config ?g" using fb f(3) by (simp add: forgot_def)
  then have "g_ttl (s_group W2 b) \<le> 0" using configD(2) assms(12) by metis
  from keep_live [OF assms(1,7) s2(1,3,4) this s2(5) none old] obtain g' W3 where
    p: "load_keep ?E key (Some (NewByteView old)) (s_group W2 b, W2) = Done (Inr (NewByteView old), g', W3)" "replica key old g'"
    by blast
  have "\<exists>W4. reads D (wire D (Suc n)) (Some (peerAppendOutgoingContext [] tok)) key (replicate k b) (with_group W3 b g') =
      Done (replicate k (Inr (Response old)), W4)" for k
    using reads_replica [OF assms(1,7,3)] p(2) by (simp add: with_group_def)
  with W0(1) f(1) w(1-3) none p(1) show ?thesis unfolding overtaken_def Let_def
    by (intro exI [of _ W0] exI [of _ g] exI [of _ W1] exI [of _ W2] exI [of _ x] exI [of _ g'] exI [of _ W3]) simp
qed

definition live_values :: "string \<Rightarrow> bytes set" where
  "live_values key = (if key = ''Tom'' then {''630''} else set_option (live_src key))"

text \<open>Two members of which the owner of a key has a value and the other has none.\<close>

lemma live_holding:
  obtains m b and W :: "(string list, int) shared"
  where "owner_of {url_a, url_b} (d_pool live_deployment) ''Tom'' m" "b \<in> {url_a, url_b}" "b \<noteq> m"
    "all_sane {url_a, url_b} (d_grp live_deployment) 512 (\<lambda>key. key \<noteq> ''Sam'') live_values W" "replica ''Tom'' ''630'' (s_group W m)"
    "\<forall>t. held t (s_group W b) ''Tom'' = None" "g_negUntil (s_group W b) ''Tom'' = None" "g_ttl (s_group W b) \<le> 0"
proof -
  let ?W = "\<lparr>s_group = \<lambda>_. live_group, s_rest = 0 :: int\<rparr>" and ?S = "{url_a, url_b}"
  have a: "url_a \<in> ?S" and k: "''Tom'' \<noteq> []" and l: "len ''Tom'' + len ''630'' \<le> 512" by simp_all
  obtain m where m: "owner_of ?S (d_pool live_deployment) ''Tom'' m"
    using cluster_owner [OF deployedD(1) [OF live_deployed a]] by blast
  then have mS: "m \<in> ?S" by (simp add: owner_of_def)
  have ne: "url_a \<noteq> url_b" by code_simp
  then obtain b where b: "b \<in> ?S" "b \<noteq> m" by blast
  have grp: "d_grp live_deployment = ''scores''" by (simp add: live_deployment_def)
  have s: "all_sane ?S (d_grp live_deployment) 512 (\<lambda>key. key \<noteq> ''Sam'') live_values ?W" using live_group_sane by (simp add: all_sane_def grp)
  have sg: "\<forall>c\<in>?S. sound_group (d_grp live_deployment) (s_group ?W c)" and fit: "fits Main (s_group ?W m) ''Tom'' (NewByteView ''630'')"
    using live_group_ok by (simp_all add: grp)
  from serve_Set [OF live_deployed m k sg fit a, of 0] obtain W where
    w: "serve live_deployment (wire live_deployment (Suc (Suc 0))) url_a (Some (peerAppendOutgoingContext [] ''secret''))
        (RSet (Some (d_grp live_deployment, ''Tom'', ''630''))) ?W = Done (Inr Empty, W)" "written ?S m ''Tom'' ''630'' ?W W" by blast
  have "all_sane ?S (d_grp live_deployment) 512 (\<lambda>key. key \<noteq> ''Sam'') live_values W"
    using cluster_Set_sane [OF live_deployed k s a l, of live_values 0] w(1) by (auto simp: live_values_def)
  moreover have "replica ''Tom'' ''630'' (s_group W m)" using w(2) by (simp add: written_def replica_def)
  moreover have f: "forgot ''Tom'' live_group (s_group W b)" using w(2) b by (simp add: written_def)
  moreover have "g_ttl (s_group W b) \<le> 0" using f configD(2) sound_groupD(3) [OF live_group_ok(1)] unfolding forgot_def by metis
  ultimately show ?thesis using that [OF m b, of W] by (simp add: forgot_def)
qed

theorem read_overtaken_by_write_witness:
  "\<exists>m b W. owner_of {url_a, url_b} (d_pool live_deployment) ''Tom'' m \<and> b \<noteq> m \<and>
    overtaken live_deployment 0 ''secret'' m b url_a ''Tom'' ''630'' ''700'' W"
proof -
  obtain m b and W :: "(string list, int) shared" where
    o: "owner_of {url_a, url_b} (d_pool live_deployment) ''Tom'' m" "b \<in> {url_a, url_b}" "b \<noteq> m"
    and s: "all_sane {url_a, url_b} (d_grp live_deployment) 512 (\<lambda>key. key \<noteq> ''Sam'') live_values W" "replica ''Tom'' ''630'' (s_group W m)"
      "\<forall>t. held t (s_group W b) ''Tom'' = None" "g_negUntil (s_group W b) ''Tom'' = None" "g_ttl (s_group W b) \<le> 0"
    by (rule live_holding)
  have src: "sourced live_deployment {url_a, url_b} live_src 512 (\<lambda>key. key \<noteq> ''Sam'') live_values"
    using live_getter by (auto simp: sourced_def sized_def live_values_def live_src_def)
  have k: "''Tom'' \<noteq> []" and a: "url_a \<in> {url_a, url_b}" and l: "len ''Tom'' + len ''700'' \<le> 512" by simp_all
  from read_overtaken_by_write [OF live_deployed o(1) k src s(1,2) o(2,3) a s(3-5) l] o(1,3) show ?thesis by blast
qed

end
