(* ===== verification/SingleFlight.thy ===== *)
theory SingleFlight
  imports GC_Prelude
begin

text \<open>
  \<open>geecache/singleflight.go\<close>: goroutines that call \<open>callGroup.Do\<close>, interleaved. A state has
  the map of calls in flight, the calls ever made (a call stays reachable from the goroutines
  that hold it after its key is deleted) and where each goroutine is. One action of one
  goroutine is one critical section, one statement outside it, or the function ending; the
  scheduler is an arbitrary sequence of actions.

  The result \<open>'r\<close> stands for the pair \<open>(val, err)\<close> of a call, \<open>None\<close> for its zero value
  before the assignment of line 40. A function that panics unwinds \<open>Do\<close> without reaching
  line 42: the goroutine is gone, and nothing was deferred.
\<close>

section \<open>State and actions\<close>

record 'r call =
  cl_key :: string
  cl_wg :: nat
  cl_res :: "'r option"

datatype 'r pc =
    Idle
  | Waiting string nat
  | Running string nat
  | Signalling string nat
  | Deleting string nat
  | Returned string nat "'r option"
  | Panicked string nat

record 'r callGroup =
  g_m :: "string \<Rightarrow> nat option"
  g_calls :: "nat \<Rightarrow> 'r call option"
  g_next :: nat
  g_pc :: "nat \<Rightarrow> 'r pc"

definition callGroup_init :: "'r callGroup" where
  "callGroup_init =
     \<lparr>g_m = (\<lambda>_. None), g_calls = (\<lambda>_. None), g_next = 0, g_pc = (\<lambda>_. Idle)\<rparr>"

datatype 'r action = Enter string | FnReturns 'r | FnPanics | WgDone | Delete | WaitReturns

text \<open>
  One action of goroutine \<open>t\<close>; \<open>None\<close> if it is not enabled. \<open>Enter\<close> is lines 21 to 37,
  \<open>FnReturns\<close> line 40, \<open>WgDone\<close> line 42, \<open>Delete\<close> lines 45 to 49, \<open>WaitReturns\<close> lines 29
  and 30.
\<close>

fun Do_exec :: "'r callGroup \<Rightarrow> nat \<Rightarrow> 'r action \<Rightarrow> 'r callGroup option" where
  "Do_exec s t (Enter key) =
     (if g_pc s t = Idle then
        (case g_m s key of
           Some c \<Rightarrow> Some (s\<lparr>g_pc := (g_pc s)(t := Waiting key c)\<rparr>)
         | None \<Rightarrow>
             (let c = g_next s in
              Some (s\<lparr>g_calls := (g_calls s)(c \<mapsto> \<lparr>cl_key = key, cl_wg = 1, cl_res = None\<rparr>),
                      g_m := (g_m s)(key \<mapsto> c), g_next := Suc c,
                      g_pc := (g_pc s)(t := Running key c)\<rparr>)))
      else None)"
| "Do_exec s t (FnReturns r) =
     (case g_pc s t of
        Running key c \<Rightarrow>
          Some (s\<lparr>g_calls := (g_calls s)(c := map_option (\<lambda>x. x\<lparr>cl_res := Some r\<rparr>) (g_calls s c)),
                  g_pc := (g_pc s)(t := Signalling key c)\<rparr>)
      | _ \<Rightarrow> None)"
| "Do_exec s t FnPanics =
     (case g_pc s t of
        Running key c \<Rightarrow> Some (s\<lparr>g_pc := (g_pc s)(t := Panicked key c)\<rparr>)
      | _ \<Rightarrow> None)"
| "Do_exec s t WgDone =
     (case g_pc s t of
        Signalling key c \<Rightarrow>
          Some (s\<lparr>g_calls := (g_calls s)(c := map_option (\<lambda>x. x\<lparr>cl_wg := cl_wg x - 1\<rparr>) (g_calls s c)),
                  g_pc := (g_pc s)(t := Deleting key c)\<rparr>)
      | _ \<Rightarrow> None)"
| "Do_exec s t Delete =
     (case g_pc s t of
        Deleting key c \<Rightarrow>
          Some (s\<lparr>g_m := (g_m s)(key := None),
                  g_pc := (g_pc s)(t := Returned key c (Option.bind (g_calls s c) cl_res))\<rparr>)
      | _ \<Rightarrow> None)"
| "Do_exec s t WaitReturns =
     (case g_pc s t of
        Waiting key c \<Rightarrow>
          (case g_calls s c of
             Some x \<Rightarrow> if cl_wg x = 0
                       then Some (s\<lparr>g_pc := (g_pc s)(t := Returned key c (cl_res x))\<rparr>) else None
           | None \<Rightarrow> None)
      | _ \<Rightarrow> None)"

text \<open>A schedule: which goroutine acts next, and how.\<close>

fun Do_run :: "'r callGroup \<Rightarrow> (nat \<times> 'r action) list \<Rightarrow> 'r callGroup option" where
  "Do_run s [] = Some s"
| "Do_run s ((t, a) # sched) = Option.bind (Do_exec s t a) (\<lambda>s'. Do_run s' sched)"

inductive Do_step :: "'r callGroup \<Rightarrow> 'r callGroup \<Rightarrow> bool" where
  act: "Do_exec s t a = Some s' \<Longrightarrow> Do_step s s'"

inductive Do_reach :: "'r callGroup \<Rightarrow> bool" where
  start: "Do_reach callGroup_init"
| more: "Do_reach s \<Longrightarrow> Do_step s s' \<Longrightarrow> Do_reach s'"

inductive_cases Do_stepE: "Do_step s s'"

lemma Do_run_reach: "Do_reach s \<Longrightarrow> Do_run s sched = Some s' \<Longrightarrow> Do_reach s'"
proof (induction s sched rule: Do_run.induct)
  case (2 s t a sched)
  then show ?case by (auto simp: bind_eq_Some_conv) (meson Do_reach.more Do_step.act)
qed simp

section \<open>Invariant\<close>

text \<open>The goroutine that executes the function of call \<open>c\<close> for \<open>key\<close>, until the key is deleted.\<close>

definition leads :: "'r pc \<Rightarrow> string \<Rightarrow> nat \<Rightarrow> bool" where
  "leads p key c \<longleftrightarrow> p \<in> {Running key c, Signalling key c, Deleting key c, Panicked key c}"

text \<open>What the program counter of a goroutine says about the call it holds.\<close>

definition call_ok :: "'r pc \<Rightarrow> (nat \<Rightarrow> 'r call option) \<Rightarrow> bool" where
  "call_ok p calls \<longleftrightarrow>
     (case p of
        Idle \<Rightarrow> True
      | Waiting key c \<Rightarrow> \<exists>x. calls c = Some x \<and> cl_key x = key
      | Running key c \<Rightarrow> calls c = Some \<lparr>cl_key = key, cl_wg = 1, cl_res = None\<rparr>
      | Signalling key c \<Rightarrow> \<exists>r. calls c = Some \<lparr>cl_key = key, cl_wg = 1, cl_res = Some r\<rparr>
      | Deleting key c \<Rightarrow> \<exists>r. calls c = Some \<lparr>cl_key = key, cl_wg = 0, cl_res = Some r\<rparr>
      | Returned key c res \<Rightarrow> \<exists>r. res = Some r \<and> calls c = Some \<lparr>cl_key = key, cl_wg = 0, cl_res = Some r\<rparr>
      | Panicked key c \<Rightarrow> calls c = Some \<lparr>cl_key = key, cl_wg = 1, cl_res = None\<rparr>)"

definition Do_inv :: "'r callGroup \<Rightarrow> bool" where
  "Do_inv s \<longleftrightarrow>
     (\<forall>c. c \<ge> g_next s \<longrightarrow> g_calls s c = None) \<and>
     (\<forall>t. call_ok (g_pc s t) (g_calls s)) \<and>
     (\<forall>t key c. leads (g_pc s t) key c \<longrightarrow> g_m s key = Some c) \<and>
     (\<forall>t u key c. leads (g_pc s t) key c \<longrightarrow> leads (g_pc s u) key c \<longrightarrow> t = u) \<and>
     (\<forall>key c. g_m s key = Some c \<longrightarrow> (\<exists>t. leads (g_pc s t) key c)) \<and>
     (\<forall>c x. g_calls s c = Some x \<longrightarrow> cl_wg x = 0 \<or> (\<exists>t. leads (g_pc s t) (cl_key x) c)) \<and>
     (\<forall>c x. g_calls s c = Some x \<longrightarrow> cl_wg x = 0 \<longrightarrow> cl_res x \<noteq> None)"

lemma Do_invD:
  assumes "Do_inv s"
  shows "c \<ge> g_next s \<Longrightarrow> g_calls s c = None"
    "call_ok (g_pc s t) (g_calls s)"
    "leads (g_pc s t) key c \<Longrightarrow> g_m s key = Some c"
    "leads (g_pc s t) key c \<Longrightarrow> leads (g_pc s u) key c \<Longrightarrow> t = u"
    "g_m s key = Some c \<Longrightarrow> \<exists>t. leads (g_pc s t) key c"
    "g_calls s c = Some x \<Longrightarrow> cl_wg x = 0 \<or> (\<exists>t. leads (g_pc s t) (cl_key x) c)"
    "g_calls s c = Some x \<Longrightarrow> cl_wg x = 0 \<Longrightarrow> cl_res x \<noteq> None"
  using assms unfolding Do_inv_def by blast+

lemma leads_simps [simp]:
  "leads (Running k' c') k c \<longleftrightarrow> k' = k \<and> c' = c" "leads (Signalling k' c') k c \<longleftrightarrow> k' = k \<and> c' = c"
  "leads (Deleting k' c') k c \<longleftrightarrow> k' = k \<and> c' = c" "leads (Panicked k' c') k c \<longleftrightarrow> k' = k \<and> c' = c"
  "\<not> leads Idle k c" "\<not> leads (Waiting k' c') k c" "\<not> leads (Returned k' c' r) k c"
  by (auto simp: leads_def)

text \<open>The call a goroutine leads exists, has its key, and is not finished before \<open>WgDone\<close>.\<close>

lemma leads_call:
  assumes "call_ok p calls" and "leads p key c"
  obtains x where "calls c = Some x" "cl_key x = key"
  using assms by (cases p) (auto simp: call_ok_def)

lemma call_ok_simps [simp]:
  "call_ok Idle calls"
  "call_ok (Waiting key c) calls \<longleftrightarrow> (\<exists>x. calls c = Some x \<and> cl_key x = key)"
  "call_ok (Running key c) calls \<longleftrightarrow> calls c = Some \<lparr>cl_key = key, cl_wg = 1, cl_res = None\<rparr>"
  "call_ok (Panicked key c) calls \<longleftrightarrow> calls c = Some \<lparr>cl_key = key, cl_wg = 1, cl_res = None\<rparr>"
  "call_ok (Signalling key c) calls \<longleftrightarrow>
     (\<exists>r. calls c = Some \<lparr>cl_key = key, cl_wg = 1, cl_res = Some r\<rparr>)"
  "call_ok (Deleting key c) calls \<longleftrightarrow>
     (\<exists>r. calls c = Some \<lparr>cl_key = key, cl_wg = 0, cl_res = Some r\<rparr>)"
  "call_ok (Returned key c res) calls \<longleftrightarrow>
     (\<exists>r. res = Some r \<and> calls c = Some \<lparr>cl_key = key, cl_wg = 0, cl_res = Some r\<rparr>)"
  by (simp_all add: call_ok_def)

text \<open>Changing a call that is still open disturbs only its leader.\<close>

lemma call_ok_update:
  assumes "call_ok p calls" and "calls c = Some x" and "cl_wg x = 1" and "cl_key y = cl_key x"
    and "\<not> leads p (cl_key x) c"
  shows "call_ok p (calls(c \<mapsto> y))"
  using assms by (cases p) (auto simp: leads_def)

lemma call_ok_new: "call_ok p calls \<Longrightarrow> calls c = None \<Longrightarrow> call_ok p (calls(c \<mapsto> y))"
  by (cases p) auto

lemma inv_init: "Do_inv callGroup_init"
  by (simp add: Do_inv_def callGroup_init_def)

text \<open>Steps that keep every goroutine's lead.\<close>

lemma inv_same_leads:
  assumes "Do_inv s" and "\<And>k d. leads p k d \<longleftrightarrow> leads (g_pc s t) k d"
    and "\<And>u. call_ok (if u = t then p else g_pc s u) calls"
    and "\<And>d x'. calls d = Some x' \<Longrightarrow> \<exists>x. g_calls s d = Some x \<and> cl_key x' = cl_key x \<and>
      (x' = x \<or> leads p (cl_key x) d) \<and> (cl_wg x' = 0 \<longrightarrow> cl_res x' \<noteq> None)"
  shows "Do_inv (s\<lparr>g_calls := calls, g_pc := (g_pc s)(t := p)\<rparr>)" (is "Do_inv ?s")
proof -
  note inv = Do_invD [OF assms(1)]
  have leads: "leads (g_pc ?s u) k d \<longleftrightarrow> leads (g_pc s u) k d" for u k d
    using assms(2) by simp
  have "calls d = None" if "d \<ge> g_next s" for d
    using assms(4) [of d] inv(1) [OF that] by (cases "calls d") auto
  moreover have "call_ok (g_pc ?s u) calls" for u using assms(3) [of u] by (simp split: if_splits)
  moreover have "cl_wg x' = 0 \<or> (\<exists>u. leads (g_pc s u) (cl_key x') d)" if "calls d = Some x'" for d x'
    using assms(4) [OF that] inv(6) [of d] assms(2) by metis
  moreover have "cl_res x' \<noteq> None" if "calls d = Some x'" "cl_wg x' = 0" for d x'
    using assms(4) [OF that(1)] that(2) by blast
  ultimately show ?thesis using inv(3-5) unfolding Do_inv_def leads by simp
qed

lemma inv_pc_only:
  assumes "Do_inv s" and "\<And>k d. leads p k d \<longleftrightarrow> leads (g_pc s t) k d" and "call_ok p (g_calls s)"
  shows "Do_inv (s\<lparr>g_pc := (g_pc s)(t := p)\<rparr>)"
  using inv_same_leads [of s p t "g_calls s"] assms Do_invD(2,7) [OF assms(1)] by simp

lemma inv_call_change:
  assumes "Do_inv s" and "\<And>k d. leads p k d \<longleftrightarrow> leads (g_pc s t) k d"
    and "leads p (cl_key x) c" and "g_calls s c = Some x" and "cl_wg x = 1" and "cl_key y = cl_key x"
    and "call_ok p ((g_calls s)(c \<mapsto> y))" and "cl_wg y = 0 \<longrightarrow> cl_res y \<noteq> None"
  shows "Do_inv (s\<lparr>g_calls := (g_calls s)(c \<mapsto> y), g_pc := (g_pc s)(t := p)\<rparr>)"
proof (rule inv_same_leads [OF assms(1,2)])
  note inv = Do_invD [OF assms(1)]
  fix u
  have "\<not> leads (g_pc s u) (cl_key x) c" if "u \<noteq> t" using inv(4) [of u _ c t] that assms(2,3) by blast
  with call_ok_update [OF inv(2) assms(4-6)] assms(7)
  show "call_ok (if u = t then p else g_pc s u) ((g_calls s)(c \<mapsto> y))" by simp
next
  fix d x' assume "((g_calls s)(c \<mapsto> y)) d = Some x'"
  with assms(3,4,6,8) Do_invD(7) [OF assms(1), of d x']
  show "\<exists>x. g_calls s d = Some x \<and> cl_key x' = cl_key x \<and>
      (x' = x \<or> leads p (cl_key x) d) \<and> (cl_wg x' = 0 \<longrightarrow> cl_res x' \<noteq> None)"
    by (auto split: if_splits)
qed

lemma inv_Enter:
  assumes "Do_inv s" and "Do_exec s t (Enter key) = Some s'"
  shows "Do_inv s'"
proof -
  note inv = Do_invD [OF assms(1)]
  from assms(2) have idle: "g_pc s t = Idle" by (simp split: if_splits)
  show ?thesis
  proof (cases "g_m s key")
    case (Some c)
    with inv(5) obtain u where "leads (g_pc s u) key c" by blast
    with leads_call [OF inv(2)] obtain x where "g_calls s c = Some x" "cl_key x = key" by blast
    then have "Do_inv (s\<lparr>g_pc := (g_pc s)(t := Waiting key c)\<rparr>)"
      by (intro inv_pc_only [OF assms(1)]) (simp_all add: idle)
    with assms(2) idle Some show ?thesis by simp
  next
    case None
    let ?c = "g_next s"
    have fresh: "g_calls s ?c = None" using inv(1) by simp
    have s': "s' = s\<lparr>g_calls := (g_calls s)(?c \<mapsto> \<lparr>cl_key = key, cl_wg = 1, cl_res = None\<rparr>),
                      g_m := (g_m s)(key \<mapsto> ?c), g_next := Suc ?c,
                      g_pc := (g_pc s)(t := Running key ?c)\<rparr>"
      using assms(2) idle None by (simp add: Let_def)
    have nolead: "\<not> leads (g_pc s u) key c" for u c using inv(3) None by force
    have nocall: "\<not> leads (g_pc s u) k ?c" for u k
      using leads_call [OF inv(2)] fresh by (metis option.distinct(1))
    have "call_ok (g_pc s' u) (g_calls s')" for u
      using call_ok_new [OF inv(2) fresh] by (simp add: s')
    moreover have "g_m s' k = Some d" if "leads (g_pc s' u) k d" for u k d
      using that inv(3) nolead by (auto simp: s' split: if_splits)
    moreover have "u = v" if "leads (g_pc s' u) k d" "leads (g_pc s' v) k d" for u v k d
      using that inv(4) nolead by (auto simp: s' split: if_splits)
    moreover have "\<exists>u. leads (g_pc s' u) k d" if "g_m s' k = Some d" for k d
      using that inv(5) [of k d] idle by (auto simp: s' split: if_splits) (metis leads_simps(5))
    moreover have "cl_wg x = 0 \<or> (\<exists>u. leads (g_pc s' u) (cl_key x) d)" if "g_calls s' d = Some x" for d x
      using that inv(6) [of d x] idle by (auto simp: s' split: if_splits) (metis leads_simps(5))
    moreover have "cl_res x \<noteq> None" if "g_calls s' d = Some x" "cl_wg x = 0" for d x
      using that inv(7) [of d x] by (auto simp: s' split: if_splits)
    moreover have "g_calls s' d = None" if "d \<ge> g_next s'" for d
      using that inv(1) [of d] by (auto simp: s')
    ultimately show ?thesis unfolding Do_inv_def by blast
  qed
qed

lemma inv_Delete:
  assumes "Do_inv s" and "g_pc s t = Deleting key c" and "g_calls s c = Some x"
    and "call_ok (Returned key c res) (g_calls s)"
  shows "Do_inv (s\<lparr>g_m := (g_m s)(key := None), g_pc := (g_pc s)(t := Returned key c res)\<rparr>)"
    (is "Do_inv ?s")
proof -
  note inv = Do_invD [OF assms(1)]
  have only: "u = t" if "leads (g_pc s u) key d" for u d
  proof -
    have "d = c" using inv(3) [OF that] inv(3) [of t key c] assms(2) by simp
    then show ?thesis using inv(4) [OF that, of t] assms(2) by simp
  qed
  have leads: "leads (g_pc ?s u) k d \<longleftrightarrow> leads (g_pc s u) k d \<and> u \<noteq> t" for u k d by simp
  have wg0: "cl_wg x = 0" if "g_calls s d = Some x" "leads (g_pc s t) (cl_key x) d" for d x
    using that assms(2) inv(2) [of t] by auto (metis call.select_convs(2))
  have "call_ok (g_pc ?s u) (g_calls ?s)" for u using inv(2) assms(4) by simp
  moreover have "g_m ?s k = Some d" if "leads (g_pc ?s u) k d" for u k d
    using that inv(3) only unfolding leads by auto
  moreover have "\<exists>u. leads (g_pc ?s u) k d" if "g_m ?s k = Some d" for k d
    using that inv(5) [of k d] assms(2) unfolding leads by (auto split: if_splits)
  moreover have "cl_wg x = 0 \<or> (\<exists>u. leads (g_pc ?s u) (cl_key x) d)"
    if "g_calls ?s d = Some x" for d x
    using that inv(6) [of d x] wg0 unfolding leads by auto
  ultimately show ?thesis using inv(1,4,7) unfolding Do_inv_def leads by simp blast
qed

lemma inv_exec: "Do_inv s \<Longrightarrow> Do_exec s t a = Some s' \<Longrightarrow> Do_inv s'"
proof (cases a)
  case (Enter key)
  assume "Do_inv s" "Do_exec s t a = Some s'"
  then show ?thesis using inv_Enter Enter by blast
next
  case (FnReturns r)
  assume i: "Do_inv s" and e: "Do_exec s t a = Some s'"
  from e FnReturns obtain key c where pc: "g_pc s t = Running key c" by (auto split: pc.splits)
  with Do_invD(2) [OF i, of t] have x: "g_calls s c = Some \<lparr>cl_key = key, cl_wg = 1, cl_res = None\<rparr>"
    by simp
  have "Do_inv (s\<lparr>g_calls := (g_calls s)(c \<mapsto> \<lparr>cl_key = key, cl_wg = 1, cl_res = Some r\<rparr>),
      g_pc := (g_pc s)(t := Signalling key c)\<rparr>)"
    by (rule inv_call_change [OF i _ _ x]) (simp_all add: pc)
  with e FnReturns pc x show ?thesis by simp
next
  case FnPanics
  assume i: "Do_inv s" and e: "Do_exec s t a = Some s'"
  from e FnPanics obtain key c where pc: "g_pc s t = Running key c" by (auto split: pc.splits)
  with Do_invD(2) [OF i, of t] have "Do_inv (s\<lparr>g_pc := (g_pc s)(t := Panicked key c)\<rparr>)"
    by (intro inv_pc_only [OF i]) simp_all
  with e FnPanics pc show ?thesis by simp
next
  case WgDone
  assume i: "Do_inv s" and e: "Do_exec s t a = Some s'"
  from e WgDone obtain key c where pc: "g_pc s t = Signalling key c" by (auto split: pc.splits)
  with Do_invD(2) [OF i, of t] obtain r where
    x: "g_calls s c = Some \<lparr>cl_key = key, cl_wg = 1, cl_res = Some r\<rparr>" by auto
  have "Do_inv (s\<lparr>g_calls := (g_calls s)(c \<mapsto> \<lparr>cl_key = key, cl_wg = 0, cl_res = Some r\<rparr>),
      g_pc := (g_pc s)(t := Deleting key c)\<rparr>)"
    by (rule inv_call_change [OF i _ _ x]) (simp_all add: pc)
  with e WgDone pc x show ?thesis by simp
next
  case Delete
  assume i: "Do_inv s" and e: "Do_exec s t a = Some s'"
  from e Delete obtain key c where pc: "g_pc s t = Deleting key c" by (auto split: pc.splits)
  with Do_invD(2) [OF i, of t] obtain r where
    x: "g_calls s c = Some \<lparr>cl_key = key, cl_wg = 0, cl_res = Some r\<rparr>" by auto
  with inv_Delete [OF i pc x, of "Some r"] e Delete pc show ?thesis by simp
next
  case WaitReturns
  assume i: "Do_inv s" and e: "Do_exec s t a = Some s'"
  from e WaitReturns obtain key c where pc: "g_pc s t = Waiting key c" by (auto split: pc.splits)
  with Do_invD(2) [OF i, of t] obtain x where x: "g_calls s c = Some x" "cl_key x = key" by auto
  with e WaitReturns pc have wg: "cl_wg x = 0" by (auto split: if_splits)
  with Do_invD(7) [OF i x(1)] obtain r where "cl_res x = Some r" by blast
  with x wg pc have "Do_inv (s\<lparr>g_pc := (g_pc s)(t := Returned key c (cl_res x))\<rparr>)"
    by (intro inv_pc_only [OF i]) (auto intro: call.equality)
  with e WaitReturns pc x wg show ?thesis by simp
qed

lemma inv_reach: "Do_reach s \<Longrightarrow> Do_inv s"
  by (induction rule: Do_reach.induct) (auto intro: inv_init inv_exec elim: Do_stepE)

section \<open>Progress and panics\<close>

lemma leader_unique:
  assumes "Do_inv s" and "leads (g_pc s t) key c" and "leads (g_pc s u) key d"
  shows "t = u \<and> c = d"
  using Do_invD(3,4) [OF assms(1)] assms(2,3) by (metis option.inject)

text \<open>A goroutine whose function panicked is never heard of again, and neither are its waiters.\<close>

definition stuck :: "string \<Rightarrow> nat \<Rightarrow> nat \<Rightarrow> nat set \<Rightarrow> 'r callGroup \<Rightarrow> bool" where
  "stuck key c t W s \<longleftrightarrow> g_pc s t = Panicked key c \<and> (\<forall>u\<in>W. g_pc s u = Waiting key c)"

lemma stuck_step:
  assumes "Do_inv s" and "stuck key c t W s" and "Do_exec s v a = Some s'"
  shows "stuck key c t W s'"
proof -
  have pan: "g_pc s t = Panicked key c" using assms(2) by (simp add: stuck_def)
  with Do_invD(2) [OF assms(1), of t]
  have call: "g_calls s c = Some \<lparr>cl_key = key, cl_wg = 1, cl_res = None\<rparr>" by simp
  have same: "g_pc s' u = g_pc s u" if "u \<noteq> v" for u
    using assms(3) that by (cases a) (auto simp: Let_def split: if_splits option.splits pc.splits)
  have "v \<noteq> t" using assms(3) pan by (cases a) auto
  moreover have "v \<notin> W"
    using assms(2,3) call by (cases a) (auto simp: stuck_def)
  ultimately show ?thesis using assms(2) same unfolding stuck_def by metis
qed

lemma stuck_steps:
  assumes "Do_step\<^sup>*\<^sup>* s s'" and "Do_reach s" and "stuck key c t W s"
  shows "Do_reach s' \<and> stuck key c t W s'"
  using assms
proof (induction rule: rtranclp_induct)
  case (step y z)
  from step.hyps(2) obtain v a where "Do_exec y v a = Some z" by (rule Do_stepE)
  with step show ?case using stuck_step [OF inv_reach] Do_reach.more by blast
qed simp

section \<open>Fair executions\<close>

text \<open>
  An execution that goes on for ever: at every moment one goroutine performs one action, or nothing
  happens. It is fair when a goroutine that is inside \<open>Do\<close> and can go on from some moment on does go on:
  a function that is running ends, and a goroutine that is ready is scheduled. Nothing obliges a goroutine
  to call \<open>Do\<close>.
\<close>

definition execution :: "(nat \<Rightarrow> 'r callGroup) \<Rightarrow> (nat \<Rightarrow> (nat \<times> 'r action) option) \<Rightarrow> bool" where
  "execution \<sigma> sc \<longleftrightarrow> \<sigma> 0 = callGroup_init \<and>
     (\<forall>n. case sc n of None \<Rightarrow> \<sigma> (Suc n) = \<sigma> n | Some (t, a) \<Rightarrow> Do_exec (\<sigma> n) t a = Some (\<sigma> (Suc n)))"

definition ready :: "'r callGroup \<Rightarrow> nat \<Rightarrow> bool" where
  "ready s t \<longleftrightarrow> g_pc s t \<noteq> Idle \<and> (\<exists>a. Do_exec s t a \<noteq> None)"

definition fair :: "(nat \<Rightarrow> 'r callGroup) \<Rightarrow> (nat \<Rightarrow> (nat \<times> 'r action) option) \<Rightarrow> bool" where
  "fair \<sigma> sc \<longleftrightarrow> (\<forall>t n. (\<forall>m\<ge>n. ready (\<sigma> m) t) \<longrightarrow> (\<exists>m\<ge>n. \<exists>a. sc m = Some (t, a)))"

lemma execution_step:
  assumes "execution \<sigma> sc"
  shows "sc n = None \<Longrightarrow> \<sigma> (Suc n) = \<sigma> n" "sc n = Some (t, a) \<Longrightarrow> Do_exec (\<sigma> n) t a = Some (\<sigma> (Suc n))"
proof -
  have "case sc n of None \<Rightarrow> \<sigma> (Suc n) = \<sigma> n | Some (t, a) \<Rightarrow> Do_exec (\<sigma> n) t a = Some (\<sigma> (Suc n))"
    using assms unfolding execution_def by blast
  then show "sc n = None \<Longrightarrow> \<sigma> (Suc n) = \<sigma> n" "sc n = Some (t, a) \<Longrightarrow> Do_exec (\<sigma> n) t a = Some (\<sigma> (Suc n))"
    by simp_all
qed

lemma execution_inv: "execution \<sigma> sc \<Longrightarrow> Do_inv (\<sigma> n)"
proof (induction n)
  case 0
  then show ?case by (simp add: execution_def inv_init)
next
  case (Suc n)
  then have i: "Do_inv (\<sigma> n)" by blast
  show ?case
  proof (cases "sc n")
    case (Some va)
    then obtain v a where "sc n = Some (v, a)" by (metis surj_pair)
    then show ?thesis using inv_exec [OF i execution_step(2) [OF Suc.prems]] by blast
  qed (simp add: i execution_step(1) [OF Suc.prems])
qed

lemma exec_others: "Do_exec s v a = Some s' \<Longrightarrow> u \<noteq> v \<Longrightarrow> g_pc s' u = g_pc s u"
  by (cases a) (auto simp: Let_def split: if_splits option.splits pc.splits)

lemma execution_others:
  assumes "execution \<sigma> sc" and "\<And>a. sc n \<noteq> Some (u, a)"
  shows "g_pc (\<sigma> (Suc n)) u = g_pc (\<sigma> n) u"
proof (cases "sc n")
  case (Some va)
  then obtain v a where "sc n = Some (v, a)" by (metis surj_pair)
  with assms(2) execution_step(2) [OF assms(1)] exec_others show ?thesis by metis
qed (simp add: execution_step(1) [OF assms(1)])

text \<open>A goroutine that is ready as long as it stays where it is does not stay there.\<close>

lemma moves_on:
  assumes "execution \<sigma> sc" and "fair \<sigma> sc" and "g_pc (\<sigma> n) u = p"
    and "\<And>m. n \<le> m \<Longrightarrow> g_pc (\<sigma> m) u = p \<Longrightarrow> ready (\<sigma> m) u"
  shows "\<exists>m\<ge>n. g_pc (\<sigma> m) u = p \<and> (\<exists>a. Do_exec (\<sigma> m) u a = Some (\<sigma> (Suc m)))"
proof (rule ccontr)
  assume no: "\<not> ?thesis"
  have stays: "g_pc (\<sigma> m) u = p" if "n \<le> m" for m
    using that
  proof (induction m rule: dec_induct)
    case (step m)
    with no have "sc m \<noteq> Some (u, a)" for a using execution_step(2) [OF assms(1)] by metis
    with execution_others [OF assms(1)] step.IH show ?case by metis
  qed (rule assms(3))
  with assms(4) have "\<forall>m\<ge>n. ready (\<sigma> m) u" by blast
  with assms(2) obtain m a where "n \<le> m" "sc m = Some (u, a)" unfolding fair_def by blast
  with no stays execution_step(2) [OF assms(1)] show False by metis
qed

lemma leader_ready: "g_pc s u \<in> {Running key c, Signalling key c, Deleting key c} \<Longrightarrow> ready s u"
  unfolding ready_def by (auto intro: exI [of _ FnPanics] exI [of _ WgDone] exI [of _ Delete])

lemma exec_from:
  assumes "Do_exec s u a = Some s'"
  shows "g_pc s u = Running key c \<Longrightarrow> g_pc s' u \<in> {Signalling key c, Panicked key c}"
    "g_pc s u = Signalling key c \<Longrightarrow> g_pc s' u = Deleting key c"
    "g_pc s u = Waiting key c \<Longrightarrow> \<exists>res. g_pc s' u = Returned key c res"
    "g_pc s u \<noteq> Returned key c res"
  using assms by (cases a; auto split: if_splits option.splits)+

text \<open>A call that is finished stays as it is.\<close>

lemma finished_exec:
  assumes "Do_inv s" and "Do_exec s v a = Some s'" and "g_calls s c = Some x" and "cl_wg x = 0"
  shows "g_calls s' c = Some x"
proof -
  have "g_next s \<noteq> c" using Do_invD(1) [OF assms(1), of c] assms(3) by auto
  moreover have "\<forall>key. g_pc s v \<noteq> Running key c" "\<forall>key. g_pc s v \<noteq> Signalling key c"
    using Do_invD(2) [OF assms(1), of v] assms(3,4) by auto
  ultimately show ?thesis
    using assms(2,3) by (cases a) (auto simp: Let_def split: if_splits option.splits pc.splits)
qed

lemma finished_stays:
  assumes "execution \<sigma> sc" and "g_calls (\<sigma> n) c = Some x" and "cl_wg x = 0" and "n \<le> m"
  shows "g_calls (\<sigma> m) c = Some x"
  using assms(4)
proof (induction m rule: dec_induct)
  case (step m)
  show ?case
  proof (cases "sc m")
    case (Some va)
    then obtain v a where "sc m = Some (v, a)" by (metis surj_pair)
    with finished_exec [OF execution_inv [OF assms(1)] execution_step(2) [OF assms(1)] step.IH assms(3)]
    show ?thesis by blast
  qed (simp add: execution_step(1) [OF assms(1)] step.IH)
qed (rule assms(2))

text \<open>Whoever waits goes on waiting or has returned a result.\<close>

lemma waits_or_returned:
  assumes "execution \<sigma> sc" and "g_pc (\<sigma> n) t = Waiting key c" and "n \<le> m"
  shows "g_pc (\<sigma> m) t = Waiting key c \<or> (\<exists>r. g_pc (\<sigma> m) t = Returned key c (Some r))"
  using assms(3)
proof (induction m rule: dec_induct)
  case (step m)
  show ?case
  proof (cases "\<exists>a. sc m = Some (t, a)")
    case True
    then obtain a where "Do_exec (\<sigma> m) t a = Some (\<sigma> (Suc m))" using execution_step(2) [OF assms(1)] by blast
    with step.IH exec_from(3,4) obtain res where "g_pc (\<sigma> (Suc m)) t = Returned key c res" by metis
    with Do_invD(2) [OF execution_inv [OF assms(1)], of "Suc m" t] show ?thesis by auto
  next
    case False
    with execution_others [OF assms(1)] step.IH show ?thesis by metis
  qed
qed (simp add: assms(2))

lemma finished_returns:
  assumes "execution \<sigma> sc" and "fair \<sigma> sc" and "g_pc (\<sigma> n) t = Waiting key c"
    and "g_calls (\<sigma> n) c = Some x" and "cl_wg x = 0"
  shows "\<exists>m\<ge>n. \<exists>r. g_pc (\<sigma> m) t = Returned key c (Some r)"
proof -
  have "ready (\<sigma> m) t" if "n \<le> m" "g_pc (\<sigma> m) t = Waiting key c" for m
    using that finished_stays [OF assms(1,4,5) that(1)] assms(5)
    unfolding ready_def by (auto intro!: exI [of _ WaitReturns])
  from moves_on [OF assms(1-3) this] obtain m a where
    m: "n \<le> m" "g_pc (\<sigma> m) t = Waiting key c" "Do_exec (\<sigma> m) t a = Some (\<sigma> (Suc m))" by blast
  from exec_from(3) [OF m(3,2)] waits_or_returned [OF assms(1) m(2), of "Suc m"] m(1)
  show ?thesis by (intro exI [of _ "Suc m"]) auto
qed

lemma signalling_returns:
  assumes "execution \<sigma> sc" and "fair \<sigma> sc" and "g_pc (\<sigma> n) t = Waiting key c"
    and "g_pc (\<sigma> n) u = Signalling key c"
  shows "\<exists>m\<ge>n. \<exists>r. g_pc (\<sigma> m) t = Returned key c (Some r)"
proof -
  have "ready (\<sigma> m) u" if "g_pc (\<sigma> m) u = Signalling key c" for m using leader_ready that by blast
  from moves_on [OF assms(1,2,4) this] obtain m a where
    m: "n \<le> m" "g_pc (\<sigma> m) u = Signalling key c" "Do_exec (\<sigma> m) u a = Some (\<sigma> (Suc m))" by blast
  from exec_from(2) [OF m(3,2)] Do_invD(2) [OF execution_inv [OF assms(1)], of "Suc m" u]
  obtain x where x: "g_calls (\<sigma> (Suc m)) c = Some x" "cl_wg x = 0" by auto
  have n: "n \<le> Suc m" using m(1) by simp
  from waits_or_returned [OF assms(1,3) n] show ?thesis
  proof
    assume "g_pc (\<sigma> (Suc m)) t = Waiting key c"
    from finished_returns [OF assms(1,2) this x] n show ?thesis by (meson order_trans)
  qed (use n in blast)
qed

lemma running_returns:
  assumes "execution \<sigma> sc" and "fair \<sigma> sc" and "g_pc (\<sigma> n) t = Waiting key c"
    and "g_pc (\<sigma> n) u = Running key c"
  shows "\<exists>m\<ge>n. (\<exists>r. g_pc (\<sigma> m) t = Returned key c (Some r)) \<or> g_pc (\<sigma> m) u = Panicked key c"
proof -
  have "ready (\<sigma> m) u" if "g_pc (\<sigma> m) u = Running key c" for m using leader_ready that by blast
  from moves_on [OF assms(1,2,4) this] obtain m a where
    m: "n \<le> m" "g_pc (\<sigma> m) u = Running key c" "Do_exec (\<sigma> m) u a = Some (\<sigma> (Suc m))" by blast
  have n: "n \<le> Suc m" using m(1) by simp
  from exec_from(1) [OF m(3,2)] consider "g_pc (\<sigma> (Suc m)) u = Signalling key c"
    | "g_pc (\<sigma> (Suc m)) u = Panicked key c" by blast
  then show ?thesis
  proof cases
    case 1
    from waits_or_returned [OF assms(1,3) n] show ?thesis
    proof
      assume "g_pc (\<sigma> (Suc m)) t = Waiting key c"
      from signalling_returns [OF assms(1,2) this 1] n show ?thesis by (meson order_trans)
    qed (use n in blast)
  qed (use n in blast)
qed

section \<open>Properties\<close>

text \<open>Three goroutines ask for one key; the first runs the function, the others wait.\<close>

definition ex_sched :: "(nat \<times> nat action) list" where
  "ex_sched = [(0, Enter ''k''), (1, Enter ''k''), (2, Enter ''k'')]"

lemma ex_sched_reach: "Do_run callGroup_init sched = Some s \<Longrightarrow> Do_reach s"
  by (rule Do_run_reach [OF Do_reach.start])

text \<open>
  C24: At most one goroutine at a time executes the function for a key, under every interleaving.
\<close>

theorem sf_one_in_flight:
  assumes "Do_reach s" and "g_pc s t = Running key c" and "g_pc s u = Running key d"
  shows "t = u \<and> c = d"
  using leader_unique [OF inv_reach [OF assms(1)], of t key c u d] assms(2,3) by simp

theorem sf_one_in_flight_witness:
  "\<exists>s::nat callGroup. Do_run callGroup_init ex_sched = Some s \<and> g_pc s 0 = Running ''k'' 0 \<and>
     (\<forall>u d. g_pc s u = Running ''k'' d \<longrightarrow> u = 0)"
proof -
  have "map_option (\<lambda>s. g_pc s 0) (Do_run callGroup_init ex_sched) = Some (Running ''k'' 0)"
    by code_simp
  then obtain s :: "nat callGroup" where
    s: "Do_run callGroup_init ex_sched = Some s" "g_pc s 0 = Running ''k'' 0" by auto
  with sf_one_in_flight [OF ex_sched_reach [OF s(1)] s(2)] show ?thesis by blast
qed

text \<open>
  C25: Whoever returns from a call, the goroutine that ran the function or one that waited,
  returns the result the function assigned, never the zero value; all that took part in the same
  call return the same result, and the call was for the key they asked for.
\<close>

theorem sf_shared_result:
  assumes "Do_reach s" and "g_pc s t = Returned key c res"
  shows "\<exists>r. res = Some r \<and> g_calls s c = Some \<lparr>cl_key = key, cl_wg = 0, cl_res = Some r\<rparr> \<and>
    (\<forall>u key' res'. g_pc s u = Returned key' c res' \<longrightarrow> key' = key \<and> res' = Some r)"
proof -
  note ok = Do_invD(2) [OF inv_reach [OF assms(1)]]
  from ok [of t] assms(2) obtain r where
    r: "res = Some r" "g_calls s c = Some \<lparr>cl_key = key, cl_wg = 0, cl_res = Some r\<rparr>" by auto
  have "key' = key \<and> res' = Some r" if "g_pc s u = Returned key' c res'" for u key' res'
    using ok [of u] that r(2) by simp
  with r show ?thesis by blast
qed

theorem sf_shared_result_witness:
  "\<exists>s::nat callGroup.
     Do_run callGroup_init (ex_sched @ [(0, FnReturns 7), (0, WgDone), (2, WaitReturns), (0, Delete)])
       = Some s \<and> g_pc s 2 = Returned ''k'' 0 (Some 7) \<and>
     (\<forall>u key' res'. g_pc s u = Returned key' 0 res' \<longrightarrow> key' = ''k'' \<and> res' = Some 7)"
proof -
  let ?sched = "ex_sched @ [(0, FnReturns 7), (0, WgDone), (2, WaitReturns), (0, Delete)]"
  have "map_option (\<lambda>s. g_pc s 2) (Do_run callGroup_init ?sched)
      = Some (Returned ''k'' 0 (Some (7::nat)))"
    by code_simp
  then obtain s :: "nat callGroup" where
    s: "Do_run callGroup_init ?sched = Some s" "g_pc s 2 = Returned ''k'' 0 (Some 7)" by auto
  from sf_shared_result [OF ex_sched_reach [OF s(1)] s(2)]
  have "\<forall>u key' res'. g_pc s u = Returned key' 0 res' \<longrightarrow> key' = ''k'' \<and> res' = Some 7" by simp
  with s show ?thesis by blast
qed

text \<open>
  C26: A goroutine that waits is not forgotten: in every fair execution (functions that run end, by returning
  or by a panic, and goroutines that can go on are scheduled), however the goroutines are interleaved, it
  returns a result sooner or later, unless the function of the call it waits for panics.
\<close>

theorem sf_waiter_returns:
  assumes "execution \<sigma> sc" and "fair \<sigma> sc" and "g_pc (\<sigma> n) t = Waiting key c"
  shows "\<exists>m\<ge>n. (\<exists>r. g_pc (\<sigma> m) t = Returned key c (Some r)) \<or> (\<exists>u. g_pc (\<sigma> m) u = Panicked key c)"
proof -
  note i = execution_inv [OF assms(1), of n]
  from Do_invD(2) [OF i, of t] assms(3) obtain x where x: "g_calls (\<sigma> n) c = Some x" "cl_key x = key" by auto
  show ?thesis
  proof (cases "cl_wg x = 0")
    case True
    from finished_returns [OF assms x(1) True] show ?thesis by blast
  next
    case False
    with Do_invD(6) [OF i x(1)] x(2) obtain u where u: "leads (g_pc (\<sigma> n) u) key c" by blast
    moreover have "g_pc (\<sigma> n) u \<noteq> Deleting key c" using Do_invD(2) [OF i, of u] x(1) False by auto
    ultimately consider "g_pc (\<sigma> n) u = Running key c" | "g_pc (\<sigma> n) u = Signalling key c"
      | "g_pc (\<sigma> n) u = Panicked key c" by (auto simp: leads_def)
    then show ?thesis
      by cases (use running_returns [OF assms] signalling_returns [OF assms] in blast)+
  qed
qed

text \<open>A schedule that ends with nobody ready is, followed by nothing, a fair execution.\<close>

definition states :: "(nat \<times> 'r action) list \<Rightarrow> nat \<Rightarrow> 'r callGroup" where
  "states sched n = the (Do_run callGroup_init (take n sched))"

definition moments :: "(nat \<times> 'r action) list \<Rightarrow> nat \<Rightarrow> (nat \<times> 'r action) option" where
  "moments sched n = (if n < length sched then Some (sched ! n) else None)"

lemma Do_run_append: "Do_run s (xs @ ys) = Option.bind (Do_run s xs) (\<lambda>s'. Do_run s' ys)"
proof (induction s xs rule: Do_run.induct)
  case (2 s t a sched)
  then show ?case by (cases "Do_exec s t a") simp_all
qed simp

lemma states_execution:
  assumes "Do_run callGroup_init sched = Some s"
  shows "execution (states sched) (moments sched)" "length sched \<le> n \<Longrightarrow> states sched n = s"
proof -
  have some: "Do_run callGroup_init (take n sched) \<noteq> None" for n
    using assms Do_run_append [of callGroup_init "take n sched" "drop n sched"] by (cases "Do_run callGroup_init (take n sched)") auto
  have "Do_exec (states sched n) t a = Some (states sched (Suc n))" if "n < length sched" "sched ! n = (t, a)" for n t a
    using some [of n] some [of "Suc n"] that
    by (auto simp: states_def take_Suc_conv_app_nth Do_run_append split: bind_splits)
  then show "execution (states sched) (moments sched)"
    by (auto simp: execution_def moments_def states_def split: option.splits prod.splits if_splits)
  show "states sched n = s" if "length sched \<le> n" using that assms by (simp add: states_def)
qed

lemma states_fair:
  assumes "Do_run callGroup_init sched = Some s" and "\<And>t. \<not> ready s t"
  shows "fair (states sched) (moments sched)"
  unfolding fair_def
proof (intro allI impI)
  fix t n assume "\<forall>m\<ge>n. ready (states sched m) t"
  then have "ready (states sched (max n (length sched))) t" by simp
  with states_execution(2) [OF assms(1), of "max n (length sched)"] assms(2)
  show "\<exists>m\<ge>n. \<exists>a. moments sched m = Some (t, a)" by simp
qed

definition ex_ended :: "(nat \<times> nat action) list" where
  "ex_ended = ex_sched @ [(0, FnReturns 7), (0, WgDone), (2, WaitReturns), (0, Delete), (1, WaitReturns)]"

theorem sf_waiter_returns_witness:
  "execution (states ex_ended) (moments ex_ended) \<and> fair (states ex_ended) (moments ex_ended) \<and>
   g_pc (states ex_ended 3) 1 = Waiting ''k'' 0 \<and>
   (\<exists>m\<ge>3. (\<exists>r. g_pc (states ex_ended m) 1 = Returned ''k'' 0 (Some r)) \<or>
      (\<exists>u. g_pc (states ex_ended m) u = Panicked ''k'' 0))"
proof -
  obtain s :: "nat callGroup" where s: "Do_run callGroup_init ex_ended = Some s"
    "g_pc s = (\<lambda>_. Idle)(0 := Returned ''k'' 0 (Some 7), 1 := Returned ''k'' 0 (Some 7), 2 := Returned ''k'' 0 (Some 7))"
    by (auto simp: ex_ended_def ex_sched_def callGroup_init_def Let_def fun_upd_twist)
  have "Do_exec s t a = None" if "g_pc s t = Returned ''k'' 0 (Some 7)" for t a using that by (cases a) simp_all
  then have "\<not> ready s t" for t unfolding ready_def by (auto simp: s(2))
  note f = states_execution(1) [OF s(1)] states_fair [OF s(1) this]
  have "g_pc (states ex_ended 3) 1 = Waiting ''k'' 0" by code_simp
  with f sf_waiter_returns [OF f this] show ?thesis by blast
qed

text \<open>
  If the function panics, its key is lost for good: in every later state the dead call is
  still in the map, no goroutine runs the function for the key again, whoever waited for the call
  still waits, and whoever asks for the key joins them.
\<close>

theorem sf_panic_stuck:
  assumes "Do_reach s" and "g_pc s t = Panicked key c" and "Do_step\<^sup>*\<^sup>* s s'"
  shows "g_m s' key = Some c \<and> (\<forall>u d. g_pc s' u \<noteq> Running key d) \<and>
    (\<forall>u. g_pc s u = Waiting key c \<longrightarrow> g_pc s' u = Waiting key c) \<and>
    (\<forall>u. g_pc s' u = Idle \<longrightarrow>
      Do_exec s' u (Enter key) = Some (s'\<lparr>g_pc := (g_pc s')(u := Waiting key c)\<rparr>))"
proof -
  let ?W = "{u. g_pc s u = Waiting key c}"
  have "stuck key c t ?W s" using assms(2) by (simp add: stuck_def)
  from stuck_steps [OF assms(3,1) this] have r: "Do_reach s'" and st: "stuck key c t ?W s'" by auto
  note i = inv_reach [OF r]
  from st have pan: "g_pc s' t = Panicked key c" by (simp add: stuck_def)
  then have m: "g_m s' key = Some c" using Do_invD(3) [OF i, of t key c] by simp
  have "g_pc s' u \<noteq> Running key d" for u d
    using leader_unique [OF i, of t key c u d] pan by auto
  with m st show ?thesis by (auto simp: stuck_def)
qed

theorem sf_panic_stuck_witness:
  "\<exists>s::nat callGroup. Do_run callGroup_init (ex_sched @ [(0, FnPanics)]) = Some s \<and>
     g_pc s 0 = Panicked ''k'' 0 \<and> g_pc s 2 = Waiting ''k'' 0 \<and>
     (\<forall>s'. Do_step\<^sup>*\<^sup>* s s' \<longrightarrow> g_pc s' 2 = Waiting ''k'' 0)"
proof -
  have "map_option (\<lambda>s. (g_pc s 0, g_pc s 2)) (Do_run callGroup_init (ex_sched @ [(0, FnPanics)]))
      = Some (Panicked ''k'' 0, Waiting ''k'' 0)"
    by code_simp
  then obtain s :: "nat callGroup" where s: "Do_run callGroup_init (ex_sched @ [(0, FnPanics)]) = Some s"
    "g_pc s 0 = Panicked ''k'' 0" "g_pc s 2 = Waiting ''k'' 0" by auto
  with sf_panic_stuck [OF ex_sched_reach [OF s(1)] s(2)] show ?thesis by auto
qed

end
