(* ===== verification/Mux.thy ===== *)
theory Mux
  imports Boot
begin

text \<open>
  The two HTTP servers of \<open>main.go\<close> (lines 203 to 228 and 283 to 289): the routes registered on their
  \<open>http.ServeMux\<close>, in front of the handlers. \<open>ServeMux\<close> cleans the escaped path of a request before it
  looks for a route and redirects a request whose path was not clean. The handlers of Prometheus and
  \<open>pprof\<close> are not modelled beyond the route that leads to them.
\<close>

section \<open>Standard library\<close>

text \<open>
  \<open>URL.EscapedPath\<close> of a path as it was received: what was sent, when it is a valid encoding, and
  otherwise the default encoding of what it stands for.
\<close>

definition shouldEscape_path :: "char \<Rightarrow> bool" where
  "shouldEscape_path c \<longleftrightarrow> \<not> (is_alnum c \<or> c \<in> set ''-_.~$&+,/:;=@'')"

definition validEncoded :: "string \<Rightarrow> bool" where
  "validEncoded s \<longleftrightarrow>
     list_all (\<lambda>c. c \<in> set ''!$&()*+,;=:@[]%'' \<or> (of_char c :: nat) = 39 \<or> \<not> shouldEscape_path c) s"

definition escape_path :: "string \<Rightarrow> string" where
  "escape_path s =
     concat (map (\<lambda>c. if shouldEscape_path c
                     then [CHR ''%'', upperhex (of_char c div 16), upperhex (of_char c mod 16)] else [c]) s)"

definition EscapedPath :: "string \<Rightarrow> string" where
  "EscapedPath raw =
     (if validEncoded raw then raw
      else (case PathUnescape raw of None \<Rightarrow> raw | Some p \<Rightarrow> escape_path p))"

text \<open>\<open>cleanPath\<close> of \<open>net/http\<close>: like \<open>path.Clean\<close>, but a slash at the end is kept.\<close>

definition cleanPath :: "string \<Rightarrow> string" where
  "cleanPath p =
     (if p = [] then ''/''
      else
        (let p1 = (if hd p = CHR ''/'' then p else CHR ''/'' # p);
             np = Clean p1 in
         if last p1 = CHR ''/'' \<and> np \<noteq> ''/'' then np @ ''/'' else np))"

text \<open>
  The segments of a clean path, unescaped where possible; the slash at the end is the segment \<open>/\<close>.
\<close>

definition unescape_segment :: "string \<Rightarrow> string" where
  "unescape_segment s = (case PathUnescape s of None \<Rightarrow> s | Some t \<Rightarrow> t)"

definition mux_segments :: "string \<Rightarrow> string list" where
  "mux_segments p =
     (let segs = tl (Split p (CHR ''/'')) in
      if segs \<noteq> [] \<and> last segs = [] then map unescape_segment (butlast segs) @ [''/''] else map unescape_segment segs)"

section \<open>Routes\<close>

datatype route = Metrics | Healthz | Pprof | PprofTree | Root

text \<open>
  The routes of the plain server: the literal paths, everything below \<open>/debug/pprof/\<close>, to which the
  path without the slash is redirected, and everything else.
\<close>

definition plain_routes :: "string list \<Rightarrow> route" where
  "plain_routes segs =
     (if segs = [''metrics''] then Metrics
      else if segs = [''healthz''] then Healthz
      else if take 2 segs = [''debug'', ''pprof''] then
        (if length segs = 2 then PprofTree else Pprof)
      else Root)"

text \<open>What the servers answer: a redirection, the answer of a handler here, or one that is not modelled.\<close>

datatype answer = Redirect string | Reply reply | Elsewhere route

definition plain_server ::
  "(string \<Rightarrow> ('w, 'b) ext) \<Rightarrow> flags \<Rightarrow> HTTPPool \<Rightarrow> string \<Rightarrow> server_request \<Rightarrow> 'b groups \<times> 'w \<Rightarrow>
   (answer \<times> 'b groups \<times> 'w) outcome" where
  "plain_server E f pool escapedPath req s =
     (let path = (if r_Method req = ''CONNECT'' then escapedPath else cleanPath escapedPath) in
      case plain_routes (mux_segments path) of
        PprofTree \<Rightarrow> Done (Redirect (cleanPath (r_Path req) @ ''/''), s)
      | r \<Rightarrow>
          if path \<noteq> escapedPath then Done (Redirect path, s)
          else
            (case r of
               Root \<Rightarrow> obind (plain_handler E f pool req s) (\<lambda>(rep, s1). Done (Reply rep, s1))
             | Healthz \<Rightarrow> Done (Reply (healthz req), s)
             | _ \<Rightarrow> Done (Elsewhere r, s)))"

definition peer_server ::
  "(string \<Rightarrow> ('w, 'b) ext) \<Rightarrow> HTTPPool \<Rightarrow> string \<Rightarrow> server_request \<Rightarrow> 'b groups \<times> 'w \<Rightarrow>
   (answer \<times> 'b groups \<times> 'w) outcome" where
  "peer_server E pool escapedPath req s =
     (let path = (if r_Method req = ''CONNECT'' then escapedPath else cleanPath escapedPath) in
      if path \<noteq> escapedPath then Done (Redirect path, s)
      else obind (peer_handler E pool req s) (\<lambda>(rep, s1). Done (Reply rep, s1)))"

text \<open>The path on the request line of a client: what stands between the authority and the query.\<close>

definition request_path :: "http_request \<Rightarrow> string" where
  "request_path q =
     (case getScheme (fst (Cut (q_url q) (CHR ''#''))) of
        None \<Rightarrow> []
      | Some (_, rest) \<Rightarrow> dropWhile (\<lambda>c. c \<noteq> CHR ''/'') (drop 2 (fst (Cut rest (CHR ''?'')))))"

section \<open>Lemmas\<close>

text \<open>A name that \<open>path.Clean\<close> keeps.\<close>

definition kept :: "string \<Rightarrow> bool" where
  "kept s \<longleftrightarrow> s \<noteq> [] \<and> s \<noteq> ''.'' \<and> s \<noteq> ''..''"

lemma PathEscape_iff:
  assumes "PathEscape s = s"
  shows "PathEscape t = s \<longleftrightarrow> t = s"
  using assms PathUnescape_PathEscape [of s] PathUnescape_PathEscape [of t] by auto

lemma PathEscape_dots: "PathEscape t = [] \<longleftrightarrow> t = []" "PathEscape t = ''.'' \<longleftrightarrow> t = ''.''" "PathEscape t = ''..'' \<longleftrightarrow> t = ''..''"
proof -
  have "PathEscape [] = []" "PathEscape ''.'' = ''.''" "PathEscape ''..'' = ''..''" by code_simp+
  then show "PathEscape t = [] \<longleftrightarrow> t = []" "PathEscape t = ''.'' \<longleftrightarrow> t = ''.''" "PathEscape t = ''..'' \<longleftrightarrow> t = ''..''"
    by (auto simp only: PathEscape_iff)
qed

lemma kept_PathEscape: "kept (PathEscape s) \<longleftrightarrow> kept s"
  unfolding kept_def PathEscape_dots ..

lemma Split_geecache:
  assumes "slash_free a" and "slash_free b"
  shows "Split (''/geecache/'' @ a @ ''/'' @ b) (CHR ''/'') = [[], ''geecache'', a, b]"
  using assms Split_append [of "CHR ''/''" a b] Split_none [of "CHR ''/''" b] by (simp add: slash_free_def)

text \<open>The path of a group and a key is clean unless one of them is a name that is not kept.\<close>

lemma cleanPath_iff:
  assumes "slash_free a" and "slash_free b"
  shows "cleanPath (''/geecache/'' @ a @ ''/'' @ b) = ''/geecache/'' @ a @ ''/'' @ b \<longleftrightarrow>
    kept a \<and> b \<noteq> ''.'' \<and> b \<noteq> ''..''"
proof -
  let ?p = "''/geecache/'' @ a @ ''/'' @ b"
  have e: "path_elems ?p = rev (fold (clean_step True) [''geecache'', a, b] [])"
    using Split_geecache [OF assms] by (simp add: path_elems_def rooted_def HasPrefix_def)
  have c: "Clean ?p = ''/'' @ join_slash (path_elems ?p)"
    by (simp add: Clean_def render_path_def rooted_def HasPrefix_def)
  have l: "last ?p = (if b = [] then CHR ''/'' else last b)" by simp
  have lb: "b \<noteq> [] \<Longrightarrow> last b \<noteq> CHR ''/''" using assms(2) by (metis last_in_set slash_free_def)
  have "cleanPath ?p = (if b = [] \<and> Clean ?p \<noteq> ''/'' then Clean ?p @ ''/'' else Clean ?p)"
    using l lb by (simp add: cleanPath_def Let_def)
  then show ?thesis unfolding c e by (auto simp: kept_def)
qed

lemma mux_segments_cache:
  assumes "slash_free a" and "slash_free b"
  shows "plain_routes (mux_segments (''/geecache/'' @ a @ ''/'' @ b)) = Root"
proof -
  have "unescape_segment ''geecache'' = ''geecache''" by code_simp
  then show ?thesis
    unfolding mux_segments_def Split_geecache [OF assms] by (simp add: plain_routes_def Let_def)
qed

lemma escaped_valid: "EscapedPath (''/geecache/'' @ PathEscape grp @ ''/'' @ PathEscape key) =
    ''/geecache/'' @ PathEscape grp @ ''/'' @ PathEscape key"
proof -
  have esc: "validEncoded (PathEscape s)" for s
    using PathEscape_set [of _ s]
    by (fastforce simp: validEncoded_def list_all_iff shouldEscape_def shouldEscape_path_def)
  have "validEncoded ''/geecache/''" "validEncoded ''/''" by code_simp+
  with esc have "validEncoded (''/geecache/'' @ PathEscape grp @ ''/'' @ PathEscape key)"
    by (simp add: validEncoded_def)
  then show ?thesis by (simp add: EscapedPath_def)
qed

lemma request_path_peer:
  assumes "peer_url peer h" and "target_ok t" and "q_url q = peer @ t"
  shows "request_path q = fst (Cut t (CHR ''?''))"
proof -
  have "host_ok h" "peer = ''http'' @ ''://'' @ h \<or> peer = ''https'' @ ''://'' @ h"
    using assms(1) by (simp_all add: peer_url_def)
  then obtain sc where sc: "sc = ''http'' \<or> sc = ''https''" "peer = sc @ ''://'' @ h" "host_ok h" by blast
  have h: "c \<noteq> CHR ''#'' \<and> c \<noteq> CHR ''?'' \<and> c \<noteq> CHR ''/''" if "c \<in> set h" for c
    using host_ok_chars(3) [OF sc(3) that] by auto
  have "CHR ''#'' \<notin> set sc" using sc(1) by auto
  then have "CHR ''#'' \<notin> set (peer @ t)" using h assms(2) by (auto simp: sc(2) target_ok_def list_all_iff)
  then have cut: "Cut (q_url q) (CHR ''#'') = (peer @ t, [])" unfolding assms(3) by (rule Cut_none)
  have gs: "getScheme (peer @ t) = Some (sc, ''//'' @ h @ t)"
    using sc(1) getScheme_http [of "h @ t"] unfolding sc(2) by (elim disjE) simp_all
  have c: "fst (Cut (''//'' @ h @ t) (CHR ''?'')) = ''//'' @ h @ fst (Cut t (CHR ''?''))"
  proof -
    have "CHR ''?'' \<notin> set (''//'' @ h)" using h by auto
    from Cut_append [OF this, of t] show ?thesis by simp
  qed
  obtain t' where t': "fst (Cut t (CHR ''?'')) = CHR ''/'' # t'"
    using assms(2) by (cases t) (auto simp: target_ok_def HasPrefix_def Cut_def)
  have "dropWhile (\<lambda>c. c \<noteq> CHR ''/'') (h @ CHR ''/'' # t') = CHR ''/'' # t'" using h by (simp add: dropWhile_append)
  then show ?thesis unfolding request_path_def cut fst_conv gs option.case prod.case c t' by simp
qed

lemma request_path_escaped:
  assumes "client_of h p" and "q_url q = h_peer h @ escaped_path h grp key @ rest" and "rest = [] \<or> rest = ''?op=invalidate''"
  shows "EscapedPath (request_path q) = ''/geecache/'' @ PathEscape grp @ ''/'' @ PathEscape key"
proof -
  from assms(1) obtain host where h: "peer_url (h_peer h) host" "h_basePath h = ''/geecache''"
    by (auto simp: client_of_def)
  let ?t = "''/geecache/'' @ PathEscape grp @ ''/'' @ PathEscape key"
  have "target_ok (?t @ rest)" using escaped_target_ok(1,2) [of grp key] assms(3) by (elim disjE) simp_all
  moreover have "q_url q = h_peer h @ (?t @ rest)" using assms(2) by (simp add: escaped_path_def h(2))
  ultimately have "request_path q = fst (Cut (?t @ rest) (CHR ''?''))" by (rule request_path_peer [OF h(1)])
  also have "\<dots> = ?t" using Cut_append [OF escaped_target_ok(3), of grp key rest] assms(3) by (auto simp: Cut_def)
  finally show ?thesis by (simp only: escaped_valid)
qed

text \<open>What the servers do with the escaped path of a group and a key.\<close>

lemma servers_escaped:
  assumes "path = ''/geecache/'' @ PathEscape grp @ ''/'' @ PathEscape key" and "r_Method req \<noteq> ''CONNECT''"
    and "HasPrefix (r_Path req) ''/geecache''" and "\<not> peerMTLS f"
  shows "kept grp \<and> key \<noteq> ''.'' \<and> key \<noteq> ''..'' \<Longrightarrow>
      plain_server E f p path req s = obind (ServeHTTP E p req s) (\<lambda>(rep, s1). Done (Reply rep, s1)) \<and>
      peer_server E p path req s = obind (ServeHTTP E p req s) (\<lambda>(rep, s1). Done (Reply rep, s1))"
    and "\<not> (kept grp \<and> key \<noteq> ''.'' \<and> key \<noteq> ''..'') \<Longrightarrow>
      \<exists>p1 p2. plain_server E f p path req s = Done (Redirect p1, s) \<and> peer_server E p path req s = Done (Redirect p2, s)"
proof -
  have sf: "slash_free (PathEscape grp)" "slash_free (PathEscape key)" using PathEscape_no_slash by (simp_all add: slash_free_def)
  have clean: "cleanPath path = path \<longleftrightarrow> kept grp \<and> key \<noteq> ''.'' \<and> key \<noteq> ''..''"
    unfolding assms(1) cleanPath_iff [OF sf] kept_PathEscape PathEscape_dots ..
  have root: "plain_routes (mux_segments path) = Root" unfolding assms(1) by (rule mux_segments_cache [OF sf])
  show "plain_server E f p path req s = obind (ServeHTTP E p req s) (\<lambda>(rep, s1). Done (Reply rep, s1)) \<and>
      peer_server E p path req s = obind (ServeHTTP E p req s) (\<lambda>(rep, s1). Done (Reply rep, s1))"
    if "kept grp \<and> key \<noteq> ''.'' \<and> key \<noteq> ''..''"
    using that clean root assms(2-4) by (simp add: plain_server_def peer_server_def plain_handler_def peer_handler_def)
  show "\<exists>p1 p2. plain_server E f p path req s = Done (Redirect p1, s) \<and> peer_server E p path req s = Done (Redirect p2, s)"
    if "\<not> (kept grp \<and> key \<noteq> ''.'' \<and> key \<noteq> ''..'')"
    using that clean assms(2) by (simp add: plain_server_def peer_server_def Let_def split: route.split)
qed

text \<open>Names of letters and digits, and a path that climbs from one group into another.\<close>

lemma alnum_name:
  assumes "x \<noteq> [] \<and> list_all is_alnum x"
  shows "slash_free x \<and> kept x"
proof -
  have "\<not> is_alnum (CHR ''/'')" "\<not> is_alnum (CHR ''.'')" by code_simp+
  then have "CHR ''/'' \<notin> set x" "CHR ''.'' \<notin> set x" using assms by (auto simp: list_all_iff)
  with assms show ?thesis by (auto simp: slash_free_def kept_def)
qed

lemma traversal_target:
  assumes "\<forall>x\<in>{grp, grp', key}. x \<noteq> [] \<and> list_all is_alnum x"
  defines "t \<equiv> ''/geecache/'' @ grp @ ''/../'' @ grp' @ ''/'' @ key"
  shows "target_ok t" "validEncoded t" "CHR ''?'' \<notin> set t" "CHR ''%'' \<notin> set t"
proof -
  let ?ok = "\<lambda>c. is_alnum c \<or> c \<in> set ''/.''"
  have "list_all ?ok ''/geecache/''" "list_all ?ok ''/../''" "list_all ?ok ''/''" by code_simp+
  moreover have "list_all ?ok x" if "x \<in> {grp, grp', key}" for x using assms(1) that by (auto simp: list_all_iff)
  ultimately have "list_all ?ok t" unfolding t_def list_all_append by simp
  then have chars: "?ok c" if "c \<in> set t" for c using that unfolding list_all_iff by blast
  have okc: "\<not> ctl_byte c \<and> c \<notin> set ''?#%'' \<and> \<not> shouldEscape_path c" if "?ok c" for c
    using that alnum_chars [of c] by (auto simp: ctl_byte_def shouldEscape_path_def)
  have "HasPrefix t ''/''" by (simp add: HasPrefix_def t_def)
  moreover have "list_all (\<lambda>c. \<not> ctl_byte c \<and> c \<noteq> CHR ''#'') t" unfolding list_all_iff using okc [OF chars] by auto
  ultimately show "target_ok t" unfolding target_ok_def ..
  show "validEncoded t" unfolding validEncoded_def list_all_iff using okc [OF chars] by blast
  show "CHR ''?'' \<notin> set t" "CHR ''%'' \<notin> set t" using okc [OF chars] by (auto simp only: list.set insert_iff)
qed

lemma cleanPath_traversal:
  assumes "slash_free a \<and> kept a" and "slash_free b \<and> kept b" and "slash_free c \<and> kept c"
  shows "cleanPath (''/geecache/'' @ a @ ''/../'' @ b @ ''/'' @ c) = ''/geecache/'' @ b @ ''/'' @ c"
proof -
  let ?p = "''/geecache/'' @ a @ ''/../'' @ b @ ''/'' @ c"
  have "Split ?p (CHR ''/'') = [[], ''geecache'', a, ''..'', b, c]"
    using assms Split_append [of "CHR ''/''" a "''../'' @ b @ ''/'' @ c"] Split_append [of "CHR ''/''" b c]
      Split_none [of "CHR ''/''" c] by (simp add: slash_free_def)
  then have e: "path_elems ?p = [''geecache'', b, c]"
    using assms by (simp add: path_elems_def rooted_def HasPrefix_def kept_def)
  have "Clean ?p = ''/geecache/'' @ b @ ''/'' @ c"
    by (simp add: Clean_def render_path_def rooted_def HasPrefix_def e [simplified])
  moreover have "last ?p \<noteq> CHR ''/''"
  proof -
    have "c \<noteq> []" using assms(3) by (simp add: kept_def)
    then have "last ?p = last c" "last c \<in> set c" by simp_all
    with assms(3) show ?thesis by (metis slash_free_def)
  qed
  ultimately show ?thesis by (simp add: cleanPath_def Let_def)
qed

section \<open>Properties\<close>

text \<open>
  C18: Which writes of a peer reach the cache through the HTTP servers of \<open>main\<close>. For a group and a key
  that are not \<open>.\<close> or \<open>..\<close> and a group that is not empty, whatever other bytes they have, what
  \<open>Set\<close>, \<open>Invalidate\<close> and \<open>Purge\<close> of the client send goes unchanged to \<open>ServeHTTP\<close>, on the plain
  server and on the one for mutual TLS, and never to the metrics, the health check or the profiler. For
  the others the servers redirect to another path and nothing is stored or removed.
\<close>

theorem mux_writes:
  assumes "client_of h p" and "\<not> peerMTLS f"
    and "write = httpGetter_Set N h grp key val \<or> write = httpGetter_Invalidate N h grp key \<or> write = httpGetter_Purge N h grp key"
  shows "\<exists>q r. write wc = do_write N h q wc \<and> deliver q = Some r \<and>
    (let path = EscapedPath (request_path q) in
     if kept grp \<and> key \<noteq> ''.'' \<and> key \<noteq> ''..''
     then plain_server E f p path r s = obind (ServeHTTP E p r s) (\<lambda>(rep, s1). Done (Reply rep, s1)) \<and>
       peer_server E p path r s = obind (ServeHTTP E p r s) (\<lambda>(rep, s1). Done (Reply rep, s1))
     else \<exists>p1 p2. plain_server E f p path r s = Done (Redirect p1, s) \<and> peer_server E p path r s = Done (Redirect p2, s))"
proof -
  have one: "\<exists>q r. http_write N h verb (h_peer h @ escaped_path h grp key @ rest) body wc = do_write N h q wc \<and>
      deliver q = Some r \<and> r_Method r = verb \<and> HasPrefix (r_Path r) ''/geecache'' \<and>
      EscapedPath (request_path q) = ''/geecache/'' @ PathEscape grp @ ''/'' @ PathEscape key"
    if rest: "rest = [] \<or> rest = ''?op=invalidate''" for verb body rest
  proof -
    obtain req query where req: "http_NewRequest verb (h_peer h @ escaped_path h grp key @ rest) body = Inr req"
      "deliver (setPeerAuth h req) = Some \<lparr>r_Method = verb, r_Path = ''/geecache/'' @ grp @ ''/'' @ key, r_RawQuery = query,
          r_token = h_peerToken h, r_Body = body, r_BodyErr = None\<rparr>"
      using deliver_escaped [OF assms(1), where grp = grp and key = key and body = body] rest by fastforce
    have "q_url (setPeerAuth h req) = h_peer h @ escaped_path h grp key @ rest"
      using req(1) by (auto simp: http_NewRequest_def setPeerAuth_def split: option.splits)
    from request_path_escaped [OF assms(1) this rest] req show ?thesis
      by (intro exI conjI) (simp add: http_write_def | simp add: HasPrefix_def)+
  qed
  have forms: "httpGetter_Set N h grp key val = http_write N h ''PUT'' (h_peer h @ escaped_path h grp key @ []) val"
    "httpGetter_Invalidate N h grp key = http_write N h ''DELETE'' (h_peer h @ escaped_path h grp key @ ''?op=invalidate'') []"
    "httpGetter_Purge N h grp key = http_write N h ''DELETE'' (h_peer h @ escaped_path h grp key @ []) []"
    by (simp_all add: fun_eq_iff httpGetter_Set_def httpGetter_Invalidate_def httpGetter_Purge_def)
  obtain verb body rest where w: "write = http_write N h verb (h_peer h @ escaped_path h grp key @ rest) body"
    "rest = [] \<or> rest = ''?op=invalidate''" "verb \<noteq> ''CONNECT''"
  proof -
    have "''PUT'' \<noteq> ''CONNECT''" "''DELETE'' \<noteq> ''CONNECT''" by simp_all
    then show ?thesis using assms(3) that unfolding forms by metis
  qed
  obtain q r where q: "write wc = do_write N h q wc" "deliver q = Some r" "r_Method r \<noteq> ''CONNECT''"
    "HasPrefix (r_Path r) ''/geecache''" "EscapedPath (request_path q) = ''/geecache/'' @ PathEscape grp @ ''/'' @ PathEscape key"
    using one [OF w(2), of verb body] w(1,3) by blast
  show ?thesis
    using q(1,2) servers_escaped [OF q(5,3,4) assms(2), where E = E and p = p and s = s]
    unfolding Let_def by (intro exI [of _ q] exI [of _ r]) auto
qed

theorem mux_writes_witness:
  "(\<exists>q r. httpGetter_Set ex_net ex_client ''g'' ''a/b?'' ''1'' () = do_write ex_net ex_client q () \<and> deliver q = Some r \<and>
      plain_server (\<lambda>_. ex_ext) (ex_flags False) ex_pool (EscapedPath (request_path q)) r (ex_groups, ([], 1)) =
        obind (ServeHTTP (\<lambda>_. ex_ext) ex_pool r (ex_groups, ([], 1))) (\<lambda>(rep, s1). Done (Reply rep, s1))) \<and>
   (\<exists>q r p1. httpGetter_Set ex_net ex_client ''g'' ''..'' ''1'' () = do_write ex_net ex_client q () \<and> deliver q = Some r \<and>
      plain_server (\<lambda>_. ex_ext) (ex_flags False) ex_pool (EscapedPath (request_path q)) r (ex_groups, ([], 1)) =
        Done (Redirect p1, ex_groups, ([], 1)))"
proof -
  have f: "\<not> peerMTLS (ex_flags False)" by (simp add: peerMTLS_def ex_flags_def)
  have k: "kept ''g''" by (simp add: kept_def)
  note w = mux_writes [OF ex_client_ok f disjI1 [OF refl], where N = ex_net and wc = "()" and grp = "''g''" and val = "''1''"
      and E = "\<lambda>_. ex_ext" and s = "(ex_groups, ([], 1))", unfolded Let_def]
  show ?thesis using w [of "''a/b?''"] w [of "''..''"] k by auto
qed

text \<open>
  A key that \<open>Get\<close> sends as it is can leave its group: for a key that climbs with \<open>..\<close> into another
  group, the server redirects the request to the path of a key of that group, which it serves.
\<close>

theorem mux_get_traversal:
  assumes "client_of h p" and "\<not> peerMTLS f" and "\<forall>x\<in>{grp, grp', key}. x \<noteq> [] \<and> list_all is_alnum x"
  shows "\<exists>q r. httpGetter_Get N h grp (''../'' @ grp' @ ''/'' @ key) wc = do_get N h q wc \<and> deliver q = Some r \<and>
    plain_server E f p (EscapedPath (request_path q)) r s = Done (Redirect (''/geecache/'' @ grp' @ ''/'' @ key), s) \<and>
    ServeHTTP E p (r\<lparr>r_Path := ''/geecache/'' @ grp' @ ''/'' @ key\<rparr>) s =
      serve_group E (r\<lparr>r_Path := ''/geecache/'' @ grp' @ ''/'' @ key\<rparr>) grp' key s"
proof -
  let ?t = "''/geecache/'' @ grp @ ''/../'' @ grp' @ ''/'' @ key" and ?u = "''/geecache/'' @ grp' @ ''/'' @ key"
  from assms(1) obtain host where h: "peer_url (h_peer h) host" "h_basePath h = ''/geecache''" by (auto simp: client_of_def)
  have names: "slash_free x \<and> kept x" if "x \<in> {grp, grp', key}" for x using alnum_name assms(3) that by blast
  note t = traversal_target [OF assms(3)]
  have cut: "Cut ?t (CHR ''?'') = (?t, [])" by (rule Cut_none [OF t(3)])
  have pu: "PathUnescape (fst (Cut ?t (CHR ''?''))) = Some ?t" unfolding cut by (simp only: fst_conv PathUnescape_plain [OF t(4)])
  from deliver_target [OF h(1) t(1) pu, of "''GET''" "[]"] obtain req where
    req: "http_NewRequest ''GET'' (h_peer h @ ?t) [] = Inr req"
      "deliver (setPeerAuth h req) = Some \<lparr>r_Method = ''GET'', r_Path = ?t, r_RawQuery = [], r_token = h_peerToken h,
         r_Body = [], r_BodyErr = None\<rparr>" unfolding cut snd_conv by blast
  let ?r = "\<lparr>r_Method = ''GET'', r_Path = ?t, r_RawQuery = [], r_token = h_peerToken h, r_Body = [], r_BodyErr = None\<rparr>"
  have url: "q_url (setPeerAuth h req) = h_peer h @ ?t"
    using req(1) by (auto simp: http_NewRequest_def setPeerAuth_def split: option.splits)
  have path: "EscapedPath (request_path (setPeerAuth h req)) = ?t"
    using request_path_peer [OF h(1) t(1) url] t(2) unfolding cut fst_conv by (simp only: EscapedPath_def if_True)
  have clean: "cleanPath ?t = ?u" using names by (intro cleanPath_traversal) simp_all
  have "plain_routes (mux_segments ?u) = Root" using names by (intro mux_segments_cache) simp_all
  then have "plain_server E f p ?t ?r s = Done (Redirect ?u, s)"
    by (simp add: plain_server_def clean [simplified])
  moreover have "ServeHTTP E p (?r\<lparr>r_Path := ?u\<rparr>) s = serve_group E (?r\<lparr>r_Path := ?u\<rparr>) grp' key s"
    using ServeHTTP_client [OF assms(1), of "?r\<lparr>r_Path := ?u\<rparr>" grp' key E s] names by simp
  moreover have "httpGetter_Get N h grp (''../'' @ grp' @ ''/'' @ key) wc = do_get N h (setPeerAuth h req) wc"
    using req(1) by (simp add: httpGetter_Get_def h(2))
  ultimately show ?thesis using req(2) path by (intro exI [of _ "setPeerAuth h req"] exI [of _ ?r]) simp
qed

end
