(* ===== verification/Shutdown.thy ===== *)
theory Shutdown
  imports Boot
begin

text \<open>
  The end of \<open>main\<close> (\<open>main.go\<close>, lines 309 to 369 and 405 to 411), from its last loop on. After a signal one
  goroutine works through the shutdown: servers, pool, store on disk, listeners. Other goroutines run
  \<open>Serve\<close> of the multiplexers and send its result on a channel when it returns; \<open>main\<close> receives one
  result per multiplexer and returns, which ends the process and every goroutine with it. The goroutines
  are interleaved in every way, also within a step of the shutdown: \<open>GracefulStop\<close> and \<open>Shutdown\<close> close
  the listener first and then wait, so that a multiplexer may stop while the step is under way. What
  the servers and listeners do is the parameter \<open>servers\<close>; which steps of the shutdown, once they have
  begun, make the \<open>Serve\<close> of a multiplexer return is the parameter \<open>closes\<close>. A \<open>Serve\<close> that fails on its own is
  left out.
\<close>

section \<open>The steps of the shutdown\<close>

datatype listener = Plain | Peer

record 'w servers =
  s_GracefulStop :: "listener \<Rightarrow> 'w \<Rightarrow> 'w"
  s_Shutdown :: "listener \<Rightarrow> 'w \<Rightarrow> error option \<times> 'w"
  s_Close :: "listener \<Rightarrow> 'w \<Rightarrow> error option \<times> 'w"

datatype shut_step =
    GracefulStop listener
  | ShutdownHTTP listener
  | StopPool
  | SyncStore
  | CloseStore
  | CloseListener listener

text \<open>With mutual TLS only the peer listener has a gRPC server, without it only the plain one.\<close>

definition shutdown_steps :: "flags \<Rightarrow> BoltStore option \<Rightarrow> shut_step list" where
  "shutdown_steps f store =
     (if peerMTLS f then [GracefulStop Peer] else []) @ (if \<not> peerMTLS f then [GracefulStop Plain] else []) @
     (if peerMTLS f then [ShutdownHTTP Peer] else []) @ [ShutdownHTTP Plain, StopPool] @
     (if store \<noteq> None then [SyncStore, CloseStore] else []) @
     (if peerMTLS f then [CloseListener Peer] else []) @ [CloseListener Plain]"

text \<open>Errors are logged and the next step follows.\<close>

fun perform ::
  "'w net \<Rightarrow> 'w etcd \<Rightarrow> 'w bbolt \<Rightarrow> 'w servers \<Rightarrow> string list \<Rightarrow> shut_step \<Rightarrow>
   HTTPPool \<times> BoltStore option \<times> 'w \<Rightarrow> HTTPPool \<times> BoltStore option \<times> 'w" where
  "perform N D B V order (GracefulStop l) (pool, store, w) = (pool, store, s_GracefulStop V l w)"
| "perform N D B V order (ShutdownHTTP l) (pool, store, w) = (pool, store, snd (s_Shutdown V l w))"
| "perform N D B V order StopPool (pool, store, w) =
     (case Pool_Stop N D order (pool, w) of (err, pool1, w1) \<Rightarrow> (pool1, store, w1))"
| "perform N D B V order SyncStore (pool, store, w) = (pool, store, snd (BoltStore_Sync B store w))"
| "perform N D B V order CloseStore (pool, store, w) =
     (case BoltStore_Close B store w of (err, store1, w1) \<Rightarrow> (pool, store1, w1))"
| "perform N D B V order (CloseListener l) (pool, store, w) = (pool, store, snd (s_Close V l w))"

section \<open>The goroutines\<close>

text \<open>
  What the shutdown has still to do, the step that is under way, the pool, store and world after the last
  step that has ended, the steps that have ended, the multiplexers that serve, the results in the
  channel, the results \<open>main\<close> still waits for, and whether it has returned.
\<close>

record 'w ending =
  todo :: "shut_step list"
  current :: "shut_step option"
  parts :: "HTTPPool \<times> BoltStore option \<times> 'w"
  finished :: "shut_step list"
  serving :: "listener set"
  serveCh :: nat
  nWait :: nat
  bye :: bool

definition listeners :: "flags \<Rightarrow> listener set" where
  "listeners f = (if peerMTLS f then {Plain, Peer} else {Plain})"

definition ending_init :: "flags \<Rightarrow> HTTPPool \<times> BoltStore option \<times> 'w \<Rightarrow> 'w ending" where
  "ending_init f s =
     \<lparr>todo = shutdown_steps f (fst (snd s)), current = None, parts = s, finished = [], serving = listeners f, serveCh = 0,
      nWait = (if peerMTLS f then 2 else 1), bye = False\<rparr>"

text \<open>The steps that have begun.\<close>

definition begun :: "'w ending \<Rightarrow> shut_step list" where
  "begun c = finished c @ (case current c of None \<Rightarrow> [] | Some x \<Rightarrow> [x])"

inductive ending_step ::
  "(shut_step \<Rightarrow> HTTPPool \<times> BoltStore option \<times> 'w \<Rightarrow> HTTPPool \<times> BoltStore option \<times> 'w) \<Rightarrow>
   (shut_step \<Rightarrow> listener \<Rightarrow> bool) \<Rightarrow> 'w ending \<Rightarrow> 'w ending \<Rightarrow> bool"
  for exec closes where
  shut_begins: "\<not> bye c \<Longrightarrow> todo c = x # xs \<Longrightarrow> current c = None \<Longrightarrow>
    ending_step exec closes c (c\<lparr>todo := xs, current := Some x\<rparr>)"
| shut_ends: "\<not> bye c \<Longrightarrow> current c = Some x \<Longrightarrow>
    ending_step exec closes c (c\<lparr>current := None, parts := exec x (parts c), finished := finished c @ [x]\<rparr>)"
| serve_ends: "\<not> bye c \<Longrightarrow> l \<in> serving c \<Longrightarrow> \<exists>x\<in>set (begun c). closes x l \<Longrightarrow>
    ending_step exec closes c (c\<lparr>serving := serving c - {l}, serveCh := Suc (serveCh c)\<rparr>)"
| receive: "\<not> bye c \<Longrightarrow> serveCh c = Suc n \<Longrightarrow> nWait c = Suc k \<Longrightarrow>
    ending_step exec closes c (c\<lparr>serveCh := n, nWait := k\<rparr>)"
| returns: "\<not> bye c \<Longrightarrow> nWait c = 0 \<Longrightarrow> ending_step exec closes c (c\<lparr>bye := True\<rparr>)"

inductive_cases ending_stepE: "ending_step exec closes c c'"

section \<open>Lemmas\<close>

definition ending_inv ::
  "(shut_step \<Rightarrow> HTTPPool \<times> BoltStore option \<times> 'w \<Rightarrow> HTTPPool \<times> BoltStore option \<times> 'w) \<Rightarrow>
   (shut_step \<Rightarrow> listener \<Rightarrow> bool) \<Rightarrow> flags \<Rightarrow> HTTPPool \<times> BoltStore option \<times> 'w \<Rightarrow> 'w ending \<Rightarrow> bool" where
  "ending_inv exec closes f s c \<longleftrightarrow> begun c @ todo c = shutdown_steps f (fst (snd s)) \<and>
     parts c = fold exec (finished c) s \<and> serving c \<subseteq> listeners f \<and> nWait c = card (serving c) + serveCh c \<and>
     (\<forall>l\<in>listeners f - serving c. \<exists>x\<in>set (begun c). closes x l) \<and> (bye c \<longrightarrow> nWait c = 0)"

lemma listeners_finite: "finite (listeners f)"
  by (simp add: listeners_def)

lemma ending_inv_init: "ending_inv exec closes f s (ending_init f s)"
  by (simp add: ending_inv_def ending_init_def listeners_def begun_def)

lemma ending_inv_step:
  assumes "ending_inv exec closes f s c" and "ending_step exec closes c c'"
  shows "ending_inv exec closes f s c'"
  using assms(2)
proof (cases rule: ending_step.cases)
  case (serve_ends l)
  have "finite (serving c)" using assms(1) listeners_finite [of f] by (auto simp: ending_inv_def intro: finite_subset)
  with serve_ends(3) have cd: "card (serving c) = Suc (card (serving c - {l}))" by (simp only: card_Suc_Diff1)
  have "nWait c = card (serving c) + serveCh c" using assms(1) by (simp add: ending_inv_def)
  then have "nWait c = card (serving c - {l}) + Suc (serveCh c)" unfolding cd by (simp only: add_Suc add_Suc_right)
  moreover have "begun c' = begun c" using serve_ends(1) by (simp add: begun_def)
  ultimately show ?thesis using assms(1) serve_ends unfolding ending_inv_def by auto
qed (use assms(1) in \<open>auto simp: ending_inv_def begun_def\<close>)

lemma ending_inv_reach:
  "(ending_step exec closes)\<^sup>*\<^sup>* (ending_init f s) c \<Longrightarrow> ending_inv exec closes f s c"
  by (induction rule: rtranclp_induct) (auto intro: ending_inv_init ending_inv_step)

text \<open>The shutdown can go as far as it likes before anything else happens.\<close>

lemma shut_run:
  "\<not> bye c \<Longrightarrow> current c = None \<Longrightarrow> todo c = xs @ ys \<Longrightarrow>
   (ending_step exec closes)\<^sup>*\<^sup>* c (c\<lparr>todo := ys, parts := fold exec xs (parts c), finished := finished c @ xs\<rparr>)"
proof (induction xs arbitrary: c)
  case (Cons x xs)
  let ?b = "c\<lparr>todo := xs @ ys, current := Some x\<rparr>"
  let ?c = "?b\<lparr>current := None, parts := exec x (parts c), finished := finished c @ [x]\<rparr>"
  have s1: "ending_step exec closes c ?b" using ending_step.shut_begins [OF Cons.prems(1) _ Cons.prems(2)] Cons.prems(3) by simp
  have s2: "ending_step exec closes ?b ?c" using ending_step.shut_ends [of ?b x exec closes] Cons.prems(1) by simp
  have s3: "(ending_step exec closes)\<^sup>*\<^sup>* ?c
      (?c\<lparr>todo := ys, parts := fold exec xs (parts ?c), finished := finished ?c @ xs\<rparr>)"
    using Cons.IH [of ?c] Cons.prems(1) by simp
  have eq: "?c\<lparr>todo := ys, parts := fold exec xs (parts ?c), finished := finished ?c @ xs\<rparr> =
      c\<lparr>todo := ys, parts := fold exec (x # xs) (parts c), finished := finished c @ x # xs\<rparr>"
    using Cons.prems(2) by (cases c) simp
  show ?case
    by (rule converse_rtranclp_into_rtranclp [OF s1 converse_rtranclp_into_rtranclp [OF s2 s3 [unfolded eq]]])
next
  case Nil
  then have "c\<lparr>todo := ys, parts := fold exec [] (parts c), finished := finished c @ []\<rparr> = c" by (cases c) simp
  then show ?case by simp
qed

text \<open>Once every multiplexer has lost its listener, \<open>main\<close> may return at once.\<close>

lemma return_run:
  assumes "\<not> bye c" and "serving c = listeners f" and "nWait c = card (listeners f)"
    and "\<forall>l\<in>listeners f. \<exists>x\<in>set (begun c). closes x l"
  shows "\<exists>c'. (ending_step exec closes)\<^sup>*\<^sup>* c c' \<and> bye c' \<and> todo c' = todo c \<and> current c' = current c \<and>
    finished c' = finished c \<and> parts c' = parts c"
proof -
  have one: "\<exists>c'. (ending_step exec closes)\<^sup>*\<^sup>* c c' \<and> \<not> bye c' \<and> todo c' = todo c \<and> current c' = current c \<and> parts c' = parts c \<and>
      finished c' = finished c \<and> serving c' = serving c - {l} \<and> nWait c' = k"
    if "\<not> bye c" "l \<in> serving c" "\<exists>x\<in>set (begun c). closes x l" "nWait c = Suc k" for c l k
  proof -
    let ?c = "c\<lparr>serving := serving c - {l}, serveCh := Suc (serveCh c)\<rparr>"
    have "ending_step exec closes c ?c" "ending_step exec closes ?c (?c\<lparr>serveCh := serveCh c, nWait := k\<rparr>)"
      using ending_step.serve_ends [where closes = closes and c = c and l = l] that(2,3) ending_step.receive [of ?c "serveCh c" k] that(1,4) by simp_all
    then have "(ending_step exec closes)\<^sup>*\<^sup>* c (?c\<lparr>serveCh := serveCh c, nWait := k\<rparr>)" by auto
    with that(1) show ?thesis by (intro exI conjI) (assumption | simp)+
  qed
  have "\<exists>c'. (ending_step exec closes)\<^sup>*\<^sup>* c c' \<and> \<not> bye c' \<and> todo c' = todo c \<and> current c' = current c \<and> finished c' = finished c \<and>
      parts c' = parts c \<and> nWait c' = 0"
  proof (cases "peerMTLS f")
    case False
    with one [of c Plain 0] assms show ?thesis by (auto simp: listeners_def)
  next
    case True
    with one [of c Peer 1] assms obtain c1 where c1: "(ending_step exec closes)\<^sup>*\<^sup>* c c1" "\<not> bye c1" "todo c1 = todo c"
      "current c1 = current c" "parts c1 = parts c" "finished c1 = finished c" "serving c1 = serving c - {Peer}" "nWait c1 = 1"
      by (auto simp: listeners_def numeral_2_eq_2)
    moreover have "begun c1 = begun c" using c1 by (simp add: begun_def)
    ultimately show ?thesis using one [of c1 Plain 0] assms True
      by (auto simp: listeners_def intro: rtranclp_trans)
  qed
  then obtain c' where c': "(ending_step exec closes)\<^sup>*\<^sup>* c c'" "\<not> bye c'" "todo c' = todo c" "current c' = current c"
    "finished c' = finished c" "parts c' = parts c" "nWait c' = 0" by blast
  then have "ending_step exec closes c' (c'\<lparr>bye := True\<rparr>)" by (intro ending_step.returns)
  with c' show ?thesis by (intro exI [of _ "c'\<lparr>bye := True\<rparr>"]) auto
qed

text \<open>The process can end with the steps \<open>xs\<close> done, \<open>cur\<close> under way and \<open>ys\<close> not begun.\<close>

abbreviation ended where
  "ended exec closes f s xs cur ys \<equiv> \<exists>c. (ending_step exec closes)\<^sup>*\<^sup>* (ending_init f s) c \<and> bye c \<and>
     finished c = xs \<and> current c = cur \<and> todo c = ys \<and> parts c = fold exec xs s"

lemma ending_exit:
  assumes "(ending_step exec closes)\<^sup>*\<^sup>* (ending_init f s) c" and "bye c"
  shows "begun c @ todo c = shutdown_steps f (fst (snd s))" "parts c = fold exec (finished c) s"
    "\<forall>l\<in>listeners f. \<exists>x\<in>set (begun c). closes x l"
proof -
  note inv = ending_inv_reach [OF assms(1)]
  then show "begun c @ todo c = shutdown_steps f (fst (snd s))" "parts c = fold exec (finished c) s"
    by (simp_all add: ending_inv_def)
  have "finite (serving c)" using inv listeners_finite [of f] by (auto simp: ending_inv_def intro: finite_subset)
  moreover have "card (serving c) = 0" using inv assms(2) by (auto simp: ending_inv_def)
  ultimately show "\<forall>l\<in>listeners f. \<exists>x\<in>set (begun c). closes x l" using inv by (simp add: ending_inv_def)
qed

lemma ending_exit_run:
  assumes "shutdown_steps f (fst (snd s)) = xs @ (case cur of None \<Rightarrow> [] | Some x \<Rightarrow> [x]) @ ys"
    and "\<forall>l\<in>listeners f. \<exists>x\<in>set (xs @ (case cur of None \<Rightarrow> [] | Some x \<Rightarrow> [x])). closes x l"
  shows "ended exec closes f s xs cur ys"
proof -
  let ?i = "ending_init f s" and ?zs = "(case cur of None \<Rightarrow> [] | Some x \<Rightarrow> [x]) @ ys"
  let ?c = "?i\<lparr>todo := ?zs, parts := fold exec xs (parts ?i), finished := finished ?i @ xs\<rparr>"
  have r: "(ending_step exec closes)\<^sup>*\<^sup>* ?i ?c"
    by (rule shut_run) (simp_all add: ending_init_def assms)
  let ?d = "?c\<lparr>todo := ys, current := cur\<rparr>"
  have "(ending_step exec closes)\<^sup>*\<^sup>* ?c ?d"
  proof (cases cur)
    case None
    then have "?d = ?c" by (simp add: ending_init_def)
    then show ?thesis by simp
  next
    case (Some x)
    then have "ending_step exec closes ?c ?d" using ending_step.shut_begins [of ?c x ys] by (simp add: ending_init_def)
    then show ?thesis by blast
  qed
  moreover have "card (listeners f) = (if peerMTLS f then 2 else 1)" by (simp add: listeners_def)
  then obtain c where "(ending_step exec closes)\<^sup>*\<^sup>* ?d c" "bye c" "todo c = ys" "current c = cur" "finished c = xs" "parts c = fold exec xs s"
    using return_run [of ?d f closes exec] assms(2) by (auto simp: ending_init_def begun_def)
  ultimately show ?thesis using r by (intro exI [of _ c]) (auto intro: rtranclp_trans)
qed

section \<open>Properties\<close>

text \<open>
  C37: When the process can end. Whatever steps of the shutdown, once begun, make a multiplexer stop serving,
  the process can end with the steps \<open>xs\<close> done, the step \<open>cur\<close>, if any, under way and the steps \<open>ys\<close> not
  begun exactly when these are the shutdown in this order and the steps begun have stopped every
  multiplexer; it has then done exactly \<open>xs\<close>, in order, on the pool, the store and the world. In
  particular, when only closing a listener stops its multiplexer, the process never ends before the lease
  is revoked and the store is synced and closed. A \<open>Serve\<close> that ends without the shutdown is not considered.
\<close>

theorem shutdown_exit:
  "(ended (perform N D B V order) closes f s xs cur ys \<longleftrightarrow>
      shutdown_steps f (fst (snd s)) = xs @ (case cur of None \<Rightarrow> [] | Some x \<Rightarrow> [x]) @ ys \<and>
      (\<forall>l\<in>listeners f. \<exists>x\<in>set (xs @ (case cur of None \<Rightarrow> [] | Some x \<Rightarrow> [x])). closes x l)) \<and>
   ((\<forall>x l. closes x l \<longrightarrow> x = CloseListener l) \<longrightarrow>
      (\<forall>c. (ending_step (perform N D B V order) closes)\<^sup>*\<^sup>* (ending_init f s) c \<and> bye c \<longrightarrow>
         (\<forall>x\<in>set (shutdown_steps f (fst (snd s))). x \<in> set (finished c) \<or> x = CloseListener Plain)))"
proof -
  let ?R = "(ending_step (perform N D B V order) closes)\<^sup>*\<^sup>* (ending_init f s)"
  have "ended (perform N D B V order) closes f s xs cur ys \<longleftrightarrow>
      shutdown_steps f (fst (snd s)) = xs @ (case cur of None \<Rightarrow> [] | Some x \<Rightarrow> [x]) @ ys \<and>
      (\<forall>l\<in>listeners f. \<exists>x\<in>set (xs @ (case cur of None \<Rightarrow> [] | Some x \<Rightarrow> [x])). closes x l)"
    using ending_exit [of "perform N D B V order" closes f s] ending_exit_run [of f s xs cur ys closes "perform N D B V order"]
    by (auto simp: begun_def)
  moreover have "x \<in> set (finished c) \<or> x = CloseListener Plain"
    if "\<forall>x l. closes x l \<longrightarrow> x = CloseListener l" "?R c" "bye c" "x \<in> set (shutdown_steps f (fst (snd s)))" for c x
  proof -
    note e = ending_exit [OF that(2,3)]
    have "Plain \<in> listeners f" by (simp add: listeners_def)
    with e(3) that(1) have "CloseListener Plain \<in> set (begun c)" by metis
    then obtain us vs where "begun c = us @ CloseListener Plain # vs" by (meson split_list)
    with e(1) have split: "us @ CloseListener Plain # vs @ todo c = shutdown_steps f (fst (snd s))" by simp
    obtain zs where z: "shutdown_steps f (fst (snd s)) = zs @ [CloseListener Plain]" "CloseListener Plain \<notin> set zs"
      by (simp add: shutdown_steps_def)
    from split z have "vs @ todo c = []"
      by (cases "vs @ todo c" rule: rev_cases) (auto simp: append_eq_append_conv2 append_eq_Cons_conv)
    with split z have "begun c = zs @ [CloseListener Plain]" using e(1) by simp
    then have "set zs \<subseteq> set (finished c)" by (auto simp: begun_def split: option.splits)
    with that(4) z(1) show ?thesis by auto
  qed
  ultimately show ?thesis by blast
qed

definition ex_servers :: "'w servers" where
  "ex_servers = \<lparr>s_GracefulStop = (\<lambda>_ w. w), s_Shutdown = (\<lambda>_ w. (None, w)), s_Close = (\<lambda>_ w. (None, w))\<rparr>"

abbreviation ex_ended where
  "ex_ended closes \<equiv> ended (perform ex_net ex_etcd mem_bbolt ex_servers []) closes (ex_flags False)
     (ex_pool, Some \<lparr>bs_db = True\<rparr>, (([], ()) :: mem_world \<times> unit))"

theorem shutdown_exit_witness:
  "(ex_ended (\<lambda>x l. x = CloseListener l)
      [GracefulStop Plain, ShutdownHTTP Plain, StopPool, SyncStore, CloseStore] (Some (CloseListener Plain)) []) \<and>
   (ex_ended (\<lambda>x l. x = GracefulStop l) [] (Some (GracefulStop Plain))
      [ShutdownHTTP Plain, StopPool, SyncStore, CloseStore, CloseListener Plain])"
proof -
  have m: "\<not> peerMTLS (ex_flags False)" by (simp add: peerMTLS_def ex_flags_def)
  note x = shutdown_exit [where N = ex_net and D = ex_etcd and B = "mem_bbolt :: (mem_world \<times> unit) bbolt" and V = ex_servers
      and order = "[]" and f = "ex_flags False" and s = "(ex_pool, Some \<lparr>bs_db = True\<rparr>, ([], ()))", THEN conjunct1]
  show ?thesis unfolding x using m by (simp add: shutdown_steps_def listeners_def)
qed

text \<open>
  Stopping a server closes the listener it was given. Where this ends the \<open>Serve\<close> of the multiplexer
  the listener comes from, the process can end while the lease of the member is still alive and the
  store is neither synced nor closed: \<open>main\<close> waits for the multiplexers and not for the shutdown. It
  can end even in the middle of the step that stops the last server.
\<close>

theorem shutdown_cut_short:
  assumes "\<forall>l\<in>listeners f. closes (ShutdownHTTP l) l"
  shows "\<exists>c. (ending_step (perform N D B V order) closes)\<^sup>*\<^sup>* (ending_init f (pool, Some store, w)) c \<and> bye c \<and>
    current c = Some (ShutdownHTTP Plain) \<and> {StopPool, SyncStore, CloseStore} \<subseteq> set (todo c) \<and>
    fst (parts c) = pool \<and> fst (snd (parts c)) = Some store"
proof -
  let ?s = "(pool, Some store, w)"
  let ?xs = "if peerMTLS f then [GracefulStop Peer, ShutdownHTTP Peer] else [GracefulStop Plain]"
    and ?ys = "[StopPool, SyncStore, CloseStore] @ (if peerMTLS f then [CloseListener Peer] else []) @ [CloseListener Plain]"
  have steps: "shutdown_steps f (fst (snd ?s)) = ?xs @ (case Some (ShutdownHTTP Plain) of None \<Rightarrow> [] | Some x \<Rightarrow> [x]) @ ?ys"
    by (simp add: shutdown_steps_def)
  have "\<forall>l\<in>listeners f. \<exists>x\<in>set (?xs @ (case Some (ShutdownHTTP Plain) of None \<Rightarrow> [] | Some x \<Rightarrow> [x])). closes x l"
    using assms by (auto simp: listeners_def)
  from ending_exit_run [OF steps this, of "perform N D B V order"] obtain c where
    c: "(ending_step (perform N D B V order) closes)\<^sup>*\<^sup>* (ending_init f ?s) c" "bye c" "current c = Some (ShutdownHTTP Plain)"
      "todo c = ?ys" "parts c = fold (perform N D B V order) ?xs ?s" by blast
  have "fst (parts c) = pool" "fst (snd (parts c)) = Some store" using c(5) by simp_all
  moreover have "{StopPool, SyncStore, CloseStore} \<subseteq> set (todo c)" using c(4) by simp
  ultimately show ?thesis using c(1-3) by blast
qed

text \<open>
  Every shutdown whose steps end does end: a run has at most as many moves as there are steps,
  listeners and results, and when no goroutine can move any more, the process has ended.
\<close>

definition moves_left :: "'w ending \<Rightarrow> nat" where
  "moves_left c = 2 * length (todo c) + (if current c = None then 0 else 1) + card (serving c) + nWait c + (if bye c then 0 else 1)"

theorem shutdown_ends:
  assumes "(ending_step exec closes)\<^sup>*\<^sup>* (ending_init f s) c" and "\<forall>l. closes (CloseListener l) l"
  shows "(\<forall>c'. ending_step exec closes c c' \<longrightarrow> moves_left c' < moves_left c) \<and>
    ((\<nexists>c'. ending_step exec closes c c') \<longrightarrow> bye c \<and> moves_left (ending_init f s) \<le> 25)"
proof -
  note inv = ending_inv_reach [OF assms(1)]
  have fin: "finite (serving c)" using inv listeners_finite [of f] by (auto simp: ending_inv_def intro: finite_subset)
  have "moves_left c' < moves_left c" if "ending_step exec closes c c'" for c'
    using that
  proof (cases rule: ending_step.cases)
    case (serve_ends l)
    with fin have "card (serving c - {l}) < card (serving c)" by (simp only: card_Diff1_less)
    with serve_ends show ?thesis by (simp add: moves_left_def)
  qed (simp_all add: moves_left_def)
  moreover have "bye c" if "\<nexists>c'. ending_step exec closes c c'"
  proof (rule ccontr)
    assume b: "\<not> bye c"
    have cur: "current c = None" using that ending_step.shut_ends [OF b] by (cases "current c") blast+
    have td: "todo c = []" using that ending_step.shut_begins [OF b _ cur] by (cases "todo c") blast+
    with inv have steps: "begun c = shutdown_steps f (fst (snd s))" by (simp add: ending_inv_def)
    have last: "CloseListener l \<in> set (begun c)" if "l \<in> listeners f" for l
      using that by (auto simp: steps shutdown_steps_def listeners_def split: if_splits)
    have "l \<notin> serving c" for l
    proof
      assume l: "l \<in> serving c"
      then have "l \<in> listeners f" using inv by (auto simp: ending_inv_def)
      then have "\<exists>x\<in>set (begun c). closes x l" using last assms(2) by blast
      with that ending_step.serve_ends [OF b l] show False by blast
    qed
    then have "serving c = {}" by blast
    then have nw: "nWait c = serveCh c" using inv by (simp add: ending_inv_def)
    show False
    proof (cases "serveCh c")
      case 0
      with nw that ending_step.returns [OF b, of exec closes] show False by simp
    next
      case (Suc n)
      with nw that ending_step.receive [OF b Suc, of n exec closes] show False by simp
    qed
  qed
  moreover have "moves_left (ending_init f s) \<le> 25"
    by (simp add: moves_left_def ending_init_def shutdown_steps_def listeners_def)
  ultimately show ?thesis by blast
qed

end
