(* ===== verification/Spec2Isabelle.thy ===== *)
theory Spec2Isabelle
  imports Races SingleFlight Mux Shutdown
begin

text \<open>
  A verification development of \<open>geecache\<close>, a distributed in-memory cache written in Go.

  \<^bold>\<open>The program.\<close> A process runs \<open>main\<close> (\<open>main.go\<close>). It makes a pool of peers (\<open>geecache/http.go\<close>) and a
  group of keys (\<open>geecache/group.go\<close>). A group keeps values in a main and a hot cache (\<open>lru/\<close>), remembers
  keys that do not exist, writes values to a file (\<open>geecache/boltstore.go\<close>) and loads a key that it
  misses once for all callers (\<open>geecache/singleflight.go\<close>): from the member that owns the key, or from
  the getter, which reads files. Which member owns a key is decided by a ring of hashes
  (\<open>consistenthash/\<close>). Members talk over HTTP or gRPC (\<open>geecache/http.go\<close>, \<open>grpc.go\<close>, \<open>grpccli.go\<close>),
  authenticated by a token and certificates (\<open>peerauth.go\<close>, \<open>peertls.go\<close>), find each other through etcd
  (\<open>registry/etcd.go\<close>) and tell each other of writes, directly and through etcd.

  \<^bold>\<open>The theories\<close>, from the bottom up.
  \<^item> \<open>GC_Prelude\<close>: Go's strings, errors and loops; how code ends (\<open>Done\<close>, \<open>Panics\<close>, \<open>Diverges\<close>).
  \<^item> \<open>GoList\<close>: \<open>container/list\<close> with the map that indexes it, shared by \<open>LRU\<close> and \<open>ARC\<close>.
  \<^item> \<open>ByteView\<close> (\<open>byteview.go\<close>, \<open>ttl.go\<close>): immutable views, over a memory of arrays and over lists.
  \<^item> \<open>LRU\<close>, \<open>LFU\<close>, \<open>ARC\<close> (\<open>lru/cache.go\<close>, \<open>lfu.go\<close>, \<open>arc.go\<close>): each cache as a record, its methods, its
    invariant, what it evicts, and when it loops forever. \<open>CacheStore\<close> states the contract of the interface
    of \<open>lru/policy.go\<close> as a locale; \<open>Stores\<close> models the interface value and interprets the contract on it.
  \<^item> \<open>ConsistentHash\<close>: the ring with CRC-32 and binary search; a locale for rings, interpreted on it.
  \<^item> \<open>SingleFlight\<close>: \<open>Do\<close> as actions of any number of goroutines in every interleaving, and fair executions.
  \<^item> \<open>BoltStore\<close>: the file, over the calls of bbolt.
  \<^item> \<open>Group\<close>, \<open>GroupProps\<close>: the group; every method on every branch.
  \<^item> \<open>URLPath\<close>: the parts of \<open>net/url\<close> and \<open>strings\<close> the program uses, and the keys of invalidations.
  \<^item> \<open>PeerAuth\<close>, \<open>PeerClients\<close>: tokens and certificates; the two kinds of clients.
  \<^item> \<open>Registry\<close>: registration under a lease, and the goroutine that keeps it, interleaved with callers. What
    etcd has (the keys, the leases granted, the lease each channel of \<open>KeepAlive\<close> keeps) is a view of the world.
  \<^item> \<open>HTTPPool\<close>: the pool; a locale for what a group relies on of its peers, interpreted on it.
  \<^item> \<open>Server\<close>: the HTTP handler, the gRPC server (its interceptor, the cache service and the reflection
    service beside it), the handler of invalidation events, and the way of a request from the client to them.
  \<^item> \<open>MainProg\<close>, \<open>Boot\<close>: the parts of \<open>main\<close> and their sequence, the file getter and the multiplexers.
  \<^item> \<open>Mux\<close>: the routes of the two HTTP servers of \<open>main\<close>, with the cleaning of paths by \<open>http.ServeMux\<close>.
  \<^item> \<open>Shutdown\<close>: the end of \<open>main\<close>, with the goroutines that stop, serve and wait interleaved; a step of the
    shutdown begins and ends separately, so that a listener it closes may end \<open>main\<close> while it still waits.
  \<^item> \<open>Cluster\<close>: several members; what one sends is what another serves.
  \<^item> \<open>LiveCluster\<close>: a running cluster, whose network is the gRPC servers of its members.
  \<^item> \<open>History\<close>: histories of such a cluster, against an abstract store. \<open>Races\<close>: a read with a write in its middle.

  \<^bold>\<open>How the code is modelled.\<close> A struct is a record with the fields of the code, a method is a function
  from a state to results and a new state, an error is a value, a panic and a loop without end are
  outcomes. Locks are left out where one goroutine is followed: every method of \<open>Group\<close>, the caches and
  \<open>HTTPPool\<close> is one step. Concurrency is modelled where it is the point, in \<open>SingleFlight\<close>,
  \<open>Registry\<close> and \<open>Shutdown\<close>, and in \<open>Races\<close>, which splits the loader of a group where it holds no lock. In
  \<open>Group\<close>, \<open>load\<close> is the function passed to \<open>Do\<close>, since for one goroutine single flight adds nothing.
  Lengths, counters of bytes and times are unbounded integers, except for lifetimes, which are wrapped to 64 bits where the code adds them; hashes are words of 32 bits. Maps are functions to
  \<open>option\<close>; where the code ranges over a map and the order shows, the order is an argument or, in \<open>LFU\<close>,
  the map is a list in any order. No loop of the code has fuel: loops that may not end are partial functions, of
  which termination is proved under the conditions stated, or divergence.

  \<^bold>\<open>Parameters\<close> stand for code outside the repository: \<open>ext\<close> (clock, randomness, getter, bloom filter),
  \<open>bbolt\<close>, \<open>net\<close> (HTTP transport and gRPC stubs), \<open>etcd\<close>, \<open>pki\<close> (files of certificates), \<open>os\<close>, cmux and the
  handler of the reflection service. What is
  relied on of them is stated as \<open>rand_ok\<close>, \<open>bbolt_ok\<close>, \<open>etcd_ok\<close>, \<open>etcd_lists\<close> and \<open>cmux_ok\<close>, each with an
  instance that satisfies it. They act on a state of the world \<open>'w\<close>, which all operations thread.
  In \<open>LiveCluster\<close> the network is no parameter: calls run the servers of the model, nested to a depth that
  is a number (\<open>wire\<close>); two levels are enough for a write and one for a read, as the theorems show. This
  network is ideal: no call is lost or times out, messages have no limit of length and strings no
  encoding, and a call that panics or does not return is an error to the caller that leaves the state as it
  was (the theorems show that the calls they speak of return).

  \<^bold>\<open>What is shown.\<close>
  \<^item> Caches: the invariants of lists, indices and byte counters; what is evicted and in which order; a hit
    is never stale; \<open>Add\<close> returns exactly when the entry can fit. The corner cases in which the code loses
    an update or its count are theorems, too.
  \<^item> Ring: the owner is the next position clockwise; joins and departures move no other keys; members with
    the same nodes agree.
  \<^item> Group: what is set is read back until it expires; expired values are never served; misses,
    negative answers, invalidation, peers; no type assertion fails.
  \<^item> Single flight: one execution per key, everyone gets its result, waiters return in every fair execution; a
    panic blocks the key.
  \<^item> Pool: until it is stopped, routing ends at the owner or at a client that can be called; broadcasts reach all
    and report the first error.
  \<^item> Servers: what clients send is what is served; strangers are refused by the cache, while the reflection
    service answers them; which keys do not get through.
  \<^item> Cluster: members started alike agree on owners, a write ends at the owner, an invalidation at the copy.
    Over gRPC, and without expiry, after a write at any member of an entry that fits all reads, at any members, return
    the value, and a purge is complete everywhere when it returns. Any sequence of sets, gets and purges, each at any member, behaves
    as on one map that may lose entries, never as on one that brings an overwritten value back, and reads fail
    only where the getter may fail; a write that is served in the middle of a read is the exception, and what
    then happens is a theorem, too.
  \<^item> Main: the start reaches serving or refuses; mutual TLS is never left; the getter stays in its
    directory; which requests get through to the cache; what a shutdown may leave undone.

  \<^bold>\<open>Not modelled.\<close> The generated code in \<open>pb/\<close>; the declarations of the metrics (increments are counters in
  the group); the answers of \<open>promhttp\<close> and \<open>pprof\<close>, the delivery of signals and the
  text of log messages; the parsing of flags; Unicode blanks in \<open>TrimSpace\<close>, which is written for
  ASCII; the exact wording of errors made by \<open>fmt\<close> where it quotes values; races between methods of one
  group, beyond single flight and the one in \<open>Races\<close>.
\<close>

end
